(* ===== verification/Prelude.thy ===== *)
theory Prelude
  imports "HOL-Library.Word"
begin

text \<open>
  Shared vocabulary of the development: the machine types of the crate, the outcome of a
  fallible Rust call, the \<open>?\<close> operator over explicit state, big-endian numbers, decimal
  rendering, and the generic lemmas that the component theories share.

  The crate runs on several target widths. \<open>usize_bits\<close> is the width of the modelled
  target (64); no proof unfolds it except to learn that it is at least 64, so that
  a length read as \<open>u64\<close> and narrowed by \<open>as usize\<close> is written out as \<open>as_usize\<close>.
\<close>

unbundle bit_operations_syntax

section \<open>Collections of facts\<close>

named_theorems outcome_simps \<open>equations that run the outcome combinators\<close>
named_theorems frame_rules \<open>which fields an operation leaves unchanged\<close>

section \<open>Machine types\<close>

type_synonym u8 = "8 word"
type_synonym u16 = "16 word"
type_synonym u32 = "32 word"
type_synonym bytes = "u8 list"

definition usize_bits :: nat where
  "usize_bits = 64"

definition usize_max :: nat where
  "usize_max = 2 ^ usize_bits - 1"

definition isize_max :: nat where
  "isize_max = 2 ^ (usize_bits - 1) - 1"

text \<open>The cast \<open>as usize\<close> of an unsigned value, and \<open>usize::saturating_add\<close>.\<close>

definition as_usize :: "nat \<Rightarrow> nat" where
  "as_usize n = n mod 2 ^ usize_bits"

definition sat_add :: "nat \<Rightarrow> nat \<Rightarrow> nat" where
  "sat_add a b = min (a + b) usize_max"

lemma usize_max_eq: "usize_max = 18446744073709551615"
  by (simp add: usize_max_def usize_bits_def)

lemma as_usize_id: "n \<le> usize_max \<Longrightarrow> as_usize n = n"
proof -
  assume "n \<le> usize_max"
  moreover have "0 < (2::nat) ^ usize_bits" by simp
  ultimately have "n < 2 ^ usize_bits" unfolding usize_max_def by linarith
  then show ?thesis by (simp add: as_usize_def)
qed

lemma sat_add_le_usize_max [simp]: "sat_add a b \<le> usize_max"
  by (simp add: sat_add_def)

lemma sat_add_exact: "a + b \<le> usize_max \<Longrightarrow> sat_add a b = a + b"
  by (simp add: sat_add_def)

lemma sat_add_le_iff: "m < usize_max \<Longrightarrow> sat_add a b \<le> m \<longleftrightarrow> a + b \<le> m"
  by (auto simp: sat_add_def)

section \<open>Outcomes\<close>

text \<open>
  What a call of the crate returns: \<open>Ok\<close>, \<open>Err\<close>, or a panic (\<open>expect\<close>, \<open>unwrap\<close>,
  \<open>assert!\<close>, \<open>unreachable!\<close>, a slice out of range). A panic is a value, so that its
  absence can be proved.
\<close>

datatype ('e, 'a) outcome = Ok 'a | Err 'e | Panic

definition ok_or_err :: "('e, 'a) outcome \<Rightarrow> bool" where
  "ok_or_err r \<longleftrightarrow> r \<noteq> Panic"

fun bind_out :: "('e, 'a) outcome \<Rightarrow> ('a \<Rightarrow> ('e, 'b) outcome) \<Rightarrow> ('e, 'b) outcome" where
  "bind_out (Ok a) k = k a"
| "bind_out (Err e) k = Err e"
| "bind_out Panic k = Panic"

text \<open>The \<open>?\<close> operator where the callee also returns an updated state.\<close>

fun and_then ::
  "('e, 'a) outcome \<times> 's \<Rightarrow> ('a \<Rightarrow> 's \<Rightarrow> ('e, 'b) outcome \<times> 's) \<Rightarrow> ('e, 'b) outcome \<times> 's"
where
  "and_then (Ok a, s) k = k a s"
| "and_then (Err e, s) k = (Err e, s)"
| "and_then (Panic, s) k = (Panic, s)"

declare bind_out.simps [outcome_simps] and_then.simps [outcome_simps]

lemma bind_out_Ok_iff: "bind_out r k = Ok b \<longleftrightarrow> (\<exists>a. r = Ok a \<and> k a = Ok b)"
  by (cases r) auto

lemma bind_out_Err_iff: "bind_out r k = Err e \<longleftrightarrow> r = Err e \<or> (\<exists>a. r = Ok a \<and> k a = Err e)"
  by (cases r) simp_all

lemma and_then_Ok_iff:
  "and_then p k = (Ok b, t) \<longleftrightarrow> (\<exists>a s. p = (Ok a, s) \<and> k a s = (Ok b, t))"
  by (cases "(p, k)" rule: and_then.cases) auto

lemma and_then_split:
  "P (and_then p k) \<longleftrightarrow>
     (\<forall>a s. p = (Ok a, s) \<longrightarrow> P (k a s)) \<and>
     (\<forall>e s. p = (Err e, s) \<longrightarrow> P (Err e, s)) \<and>
     (\<forall>s. p = (Panic, s) \<longrightarrow> P (Panic, s))"
  by (cases "(p, k)" rule: and_then.cases) auto

text \<open>An invariant of the state survives a \<open>?\<close> when both halves keep it.\<close>

lemma and_then_inv:
  assumes "I (snd p)"
    and "\<And>a s. p = (Ok a, s) \<Longrightarrow> I s \<Longrightarrow> I (snd (k a s))"
  shows "I (snd (and_then p k))"
  using assms by (cases "(p, k)" rule: and_then.cases) auto

section \<open>Big-endian numbers\<close>

text \<open>\<open>to_be_bytes\<close> of a \<open>k\<close>-byte unsigned integer, and \<open>from_be_bytes\<close>.\<close>

fun be_bytes :: "nat \<Rightarrow> nat \<Rightarrow> bytes" where
  "be_bytes 0 n = []"
| "be_bytes (Suc k) n = be_bytes k (n div 256) @ [word_of_nat n]"

definition be_nat :: "bytes \<Rightarrow> nat" where
  "be_nat bs = foldl (\<lambda>a b. a * 256 + unat b) 0 bs"

lemma length_be_bytes [simp]: "length (be_bytes k n) = k"
  by (induction k arbitrary: n) simp_all

lemma be_bytes_2: "be_bytes 2 n = [word_of_nat (n div 256), word_of_nat n]"
  by (simp add: numeral_2_eq_2)

lemma be_nat_Nil [simp]: "be_nat [] = 0"
  by (simp add: be_nat_def)

lemma be_nat_snoc: "be_nat (bs @ [b]) = be_nat bs * 256 + unat b"
  by (simp add: be_nat_def)

lemma unat_u8_less [simp]: "unat (b :: u8) < 256"
  by (rule order_less_le_trans [OF unsigned_less]) simp

lemma unat_u8_of_nat [simp]: "unat (word_of_nat n :: u8) = n mod 256"
  by (simp add: unat_of_nat)

lemma be_nat_be_bytes: "be_nat (be_bytes k n) = n mod 256 ^ k"
proof (induction k arbitrary: n)
  case 0
  show ?case by simp
next
  case (Suc k)
  have "n mod 256 ^ Suc k = n mod 256 + 256 * (n div 256 mod 256 ^ k)"
    by (simp add: mod_mult2_eq)
  then show ?case by (simp add: be_nat_snoc Suc.IH)
qed

lemma be_bytes_be_nat: "be_bytes (length bs) (be_nat bs) = bs"
proof (induction bs rule: rev_induct)
  case Nil
  show ?case by simp
next
  case (snoc b bs)
  have "(be_nat bs * 256 + unat b) div 256 = be_nat bs"
    using unat_u8_less [of b] by linarith
  moreover have "word_of_nat (be_nat bs * 256 + unat b) = b"
    by (rule unsigned_word_eqI [where 'a = nat]) (simp only: unat_u8_of_nat mod_mult_self3, simp)
  ultimately show ?case by (simp add: be_nat_snoc snoc.IH)
qed

lemma be_nat_less: "be_nat bs < 256 ^ length bs"
proof (induction bs rule: rev_induct)
  case Nil
  show ?case by simp
next
  case (snoc b bs)
  have step: "a * 256 + c < n * 256" if "a < n" "c < 256" for a c n :: nat
    using that by linarith
  show ?case
    using step [OF snoc.IH unat_u8_less [of b]] by (simp add: be_nat_snoc mult.commute)
qed

section \<open>ASCII literals and decimal numbers\<close>

text \<open>A string literal of the source as the bytes it denotes; \<open>format!("{n}")\<close>.\<close>

definition ascii :: "string \<Rightarrow> bytes" where
  "ascii s = map of_char s"

lemma ascii_simps [simp]:
  "ascii [] = []"
  "ascii (c # s) = of_char c # ascii s"
  "ascii (s @ t) = ascii s @ ascii t"
  by (simp_all add: ascii_def)

fun decimal :: "nat \<Rightarrow> bytes" where
  "decimal n = (if n < 10 then [48 + word_of_nat n]
     else decimal (n div 10) @ [48 + word_of_nat (n mod 10)])"

declare decimal.simps [simp del]

section \<open>Options and lists\<close>

text \<open>\<open>Option::is_some\<close>.\<close>

fun is_some :: "'a option \<Rightarrow> bool" where
  "is_some None \<longleftrightarrow> False"
| "is_some (Some x) \<longleftrightarrow> True"

lemma is_some_iff: "is_some x \<longleftrightarrow> x \<noteq> None"
  by (cases x) simp_all

definition is_prefix_of :: "'a list \<Rightarrow> 'a list \<Rightarrow> bool" where
  "is_prefix_of xs ys \<longleftrightarrow> take (length xs) ys = xs"

lemma is_prefix_ofI: "ys = xs @ zs \<Longrightarrow> is_prefix_of xs ys"
  by (simp add: is_prefix_of_def)

lemma is_prefix_of_append: "is_prefix_of xs ys \<longleftrightarrow> (\<exists>zs. ys = xs @ zs)"
  unfolding is_prefix_of_def by (metis append_eq_conv_conj append_take_drop_id)

end
