(* ===== verification/Coding.thy ===== *)
theory Coding
  imports Prelude
begin

text \<open>
  The codes of RFC 6455 as \<open>src/src/protocol/frame/coding.rs\<close> declares them: opcodes
  with their conversions from and to the low nibble of the first frame byte, and close
  status codes with their conversions from and to \<open>u16\<close>.
\<close>

unbundle bit_operations_syntax

section \<open>Opcodes\<close>

datatype data_op = Continue | TextOp | BinaryOp | ReservedData u8

datatype control_op = CloseOp | PingOp | PongOp | ReservedControl u8

datatype opcode = DataOp data_op | ControlOp control_op

fun data_display :: "data_op \<Rightarrow> bytes" where
  "data_display Continue = ascii ''CONTINUE''"
| "data_display TextOp = ascii ''TEXT''"
| "data_display BinaryOp = ascii ''BINARY''"
| "data_display (ReservedData x) = ascii ''RESERVED_DATA_'' @ decimal (unat x)"

fun control_display :: "control_op \<Rightarrow> bytes" where
  "control_display CloseOp = ascii ''CLOSE''"
| "control_display PingOp = ascii ''PING''"
| "control_display PongOp = ascii ''PONG''"
| "control_display (ReservedControl x) = ascii ''RESERVED_CONTROL_'' @ decimal (unat x)"

fun opcode_display :: "opcode \<Rightarrow> bytes" where
  "opcode_display (DataOp d) = data_display d"
| "opcode_display (ControlOp c) = control_display c"

text \<open>\<open>impl From<OpCode> for u8\<close> and \<open>impl From<u8> for OpCode\<close>, which panics above 15.\<close>

fun u8_from_opcode :: "opcode \<Rightarrow> u8" where
  "u8_from_opcode (DataOp Continue) = 0"
| "u8_from_opcode (DataOp TextOp) = 1"
| "u8_from_opcode (DataOp BinaryOp) = 2"
| "u8_from_opcode (DataOp (ReservedData i)) = i"
| "u8_from_opcode (ControlOp CloseOp) = 8"
| "u8_from_opcode (ControlOp PingOp) = 9"
| "u8_from_opcode (ControlOp PongOp) = 10"
| "u8_from_opcode (ControlOp (ReservedControl i)) = i"

definition opcode_from_u8 :: "u8 \<Rightarrow> ('e, opcode) outcome" where
  "opcode_from_u8 b =
     (if b = 0 then Ok (DataOp Continue)
      else if b = 1 then Ok (DataOp TextOp)
      else if b = 2 then Ok (DataOp BinaryOp)
      else if 3 \<le> b \<and> b \<le> 7 then Ok (DataOp (ReservedData b))
      else if b = 8 then Ok (ControlOp CloseOp)
      else if b = 9 then Ok (ControlOp PingOp)
      else if b = 10 then Ok (ControlOp PongOp)
      else if 11 \<le> b \<and> b \<le> 15 then Ok (ControlOp (ReservedControl b))
      else Panic)"

text \<open>The opcodes that \<open>opcode_from_u8\<close> can produce, and those of them the protocol defines.\<close>

fun canonical_opcode :: "opcode \<Rightarrow> bool" where
  "canonical_opcode (DataOp (ReservedData i)) \<longleftrightarrow> 3 \<le> i \<and> i \<le> 7"
| "canonical_opcode (ControlOp (ReservedControl i)) \<longleftrightarrow> 11 \<le> i \<and> i \<le> 15"
| "canonical_opcode _ \<longleftrightarrow> True"

fun defined_opcode :: "opcode \<Rightarrow> bool" where
  "defined_opcode (DataOp (ReservedData i)) \<longleftrightarrow> False"
| "defined_opcode (ControlOp (ReservedControl i)) \<longleftrightarrow> False"
| "defined_opcode _ \<longleftrightarrow> True"

lemma defined_canonical: "defined_opcode op \<Longrightarrow> canonical_opcode op"
  by (cases op rule: defined_opcode.cases) simp_all

lemma u8_nibble_cases:
  fixes b :: u8
  assumes "b \<le> 15"
  shows "b \<in> {0, 1, 2, 3, 4, 5, 6, 7, 8, 9, 10, 11, 12, 13, 14, 15}"
proof -
  from assms have "unat b \<le> 15" by (simp add: word_le_nat_alt)
  then have "unat b \<in> {0, 1, 2, 3, 4, 5, 6, 7, 8, 9, 10, 11, 12, 13, 14, 15}"
    by (simp only: insert_iff empty_iff) arith
  then have "word_of_nat (unat b) \<in> (word_of_nat :: nat \<Rightarrow> u8) `
      {0, 1, 2, 3, 4, 5, 6, 7, 8, 9, 10, 11, 12, 13, 14, 15}"
    by (rule imageI)
  then show ?thesis by simp
qed

lemma opcode_from_u8_Ok: "b \<le> 15 \<Longrightarrow> \<exists>op. opcode_from_u8 b = Ok op \<and> u8_from_opcode op = b"
  by (drule u8_nibble_cases) (auto simp: opcode_from_u8_def)

lemma opcode_from_u8_inverse:
  "canonical_opcode op \<Longrightarrow> opcode_from_u8 (u8_from_opcode op) = Ok op"
proof (cases op rule: canonical_opcode.cases)
  case (1 i)
  moreover assume "canonical_opcode op"
  ultimately have i: "3 \<le> i" "i \<le> 7" by simp_all
  then have "i \<noteq> 0" "i \<noteq> 1" "i \<noteq> 2" by unat_arith+
  with i 1 show ?thesis by (simp add: opcode_from_u8_def)
next
  case (2 i)
  moreover assume "canonical_opcode op"
  ultimately have i: "11 \<le> i" "i \<le> 15" by simp_all
  then have "i \<noteq> 0" "i \<noteq> 1" "i \<noteq> 2" "i \<noteq> 8" "i \<noteq> 9" "i \<noteq> 10" "\<not> i \<le> 7" by unat_arith+
  with i 2 show ?thesis by (simp add: opcode_from_u8_def)
qed (simp_all add: opcode_from_u8_def)

lemma canonical_opcode_le: "canonical_opcode op \<Longrightarrow> u8_from_opcode op \<le> 15"
  by (cases op rule: u8_from_opcode.cases) (auto intro: order_trans)

lemma opcode_from_u8_canonical: "opcode_from_u8 b = Ok op \<Longrightarrow> canonical_opcode op"
  by (auto simp: opcode_from_u8_def split: if_splits)

section \<open>Close codes\<close>

datatype close_code =
    Normal | Away | ProtocolCode | Unsupported | StatusCode | Abnormal | InvalidCode
  | Policy | SizeCode | Extension | ErrorCode | Restart | Again | TlsCode
  | ReservedCode u16 | Iana u16 | Library u16 | Bad u16

definition is_allowed :: "close_code \<Rightarrow> bool" where
  "is_allowed c \<longleftrightarrow> (case c of Bad _ \<Rightarrow> False | ReservedCode _ \<Rightarrow> False | StatusCode \<Rightarrow> False
     | Abnormal \<Rightarrow> False | TlsCode \<Rightarrow> False | _ \<Rightarrow> True)"

fun u16_from_close_code :: "close_code \<Rightarrow> u16" where
  "u16_from_close_code Normal = 1000"
| "u16_from_close_code Away = 1001"
| "u16_from_close_code ProtocolCode = 1002"
| "u16_from_close_code Unsupported = 1003"
| "u16_from_close_code StatusCode = 1005"
| "u16_from_close_code Abnormal = 1006"
| "u16_from_close_code InvalidCode = 1007"
| "u16_from_close_code Policy = 1008"
| "u16_from_close_code SizeCode = 1009"
| "u16_from_close_code Extension = 1010"
| "u16_from_close_code ErrorCode = 1011"
| "u16_from_close_code Restart = 1012"
| "u16_from_close_code Again = 1013"
| "u16_from_close_code TlsCode = 1015"
| "u16_from_close_code (ReservedCode code) = code"
| "u16_from_close_code (Iana code) = code"
| "u16_from_close_code (Library code) = code"
| "u16_from_close_code (Bad code) = code"

definition close_code_from_u16 :: "u16 \<Rightarrow> close_code" where
  "close_code_from_u16 code =
     (if code = 1000 then Normal
      else if code = 1001 then Away
      else if code = 1002 then ProtocolCode
      else if code = 1003 then Unsupported
      else if code = 1005 then StatusCode
      else if code = 1006 then Abnormal
      else if code = 1007 then InvalidCode
      else if code = 1008 then Policy
      else if code = 1009 then SizeCode
      else if code = 1010 then Extension
      else if code = 1011 then ErrorCode
      else if code = 1012 then Restart
      else if code = 1013 then Again
      else if code = 1015 then TlsCode
      else if 1 \<le> code \<and> code \<le> 999 then Bad code
      else if 1016 \<le> code \<and> code \<le> 2999 then ReservedCode code
      else if 3000 \<le> code \<and> code \<le> 3999 then Iana code
      else if 4000 \<le> code \<and> code \<le> 4999 then Library code
      else Bad code)"

definition close_code_display :: "close_code \<Rightarrow> bytes" where
  "close_code_display c = decimal (unat (u16_from_close_code c))"

lemma u16_from_close_code_from_u16 [simp]:
  "u16_from_close_code (close_code_from_u16 c) = c"
  by (simp add: close_code_from_u16_def)

section \<open>Properties\<close>

text \<open>
  The opcode conversions are inverse to each other on the sixteen values a frame
  can carry, and \<open>OpCode::from\<close> panics on exactly the others.
\<close>

theorem opcode_conversion:
  "(b \<le> 15 \<longleftrightarrow> (\<exists>op. opcode_from_u8 b = (Ok op :: ('e, opcode) outcome) \<and>
      canonical_opcode op \<and> u8_from_opcode op = b)) \<and>
   (opcode_from_u8 b = (Panic :: ('e, opcode) outcome) \<longleftrightarrow> 15 < b)"
proof (cases "b \<le> 15")
  case True
  obtain op where op: "opcode_from_u8 b = (Ok op :: ('e, opcode) outcome)" "u8_from_opcode op = b"
    using opcode_from_u8_Ok [OF True] by blast
  then show ?thesis using True opcode_from_u8_canonical [OF op(1)] by (auto simp: not_less)
next
  case False
  then have "b \<noteq> 0" "b \<noteq> 1" "b \<noteq> 2" "\<not> b \<le> 7" "b \<noteq> 8" "b \<noteq> 9" "b \<noteq> 10"
    by unat_arith+
  then have "opcode_from_u8 b = (Panic :: ('e, opcode) outcome)"
    using False by (simp add: opcode_from_u8_def)
  then show ?thesis using False by (simp add: not_le)
qed

lemma is_allowed_codes:
  "is_allowed (close_code_from_u16 c) \<longleftrightarrow>
    c \<in> {1000, 1001, 1002, 1003, 1007, 1008, 1009, 1010, 1011, 1012, 1013} \<or>
    3000 \<le> c \<and> c \<le> 4999" (is "?allowed \<longleftrightarrow> ?codes \<or> ?range")
proof
  assume ?allowed
  then show "?codes \<or> ?range"
    by (auto simp: is_allowed_def close_code_from_u16_def split: if_splits
        intro: order_trans [of "3000 :: u16" 4000] order_trans [of c 3999 4999])
next
  assume "?codes \<or> ?range"
  then show ?allowed
  proof
    assume ?codes
    then show ?allowed
      by (elim insertE emptyE) (simp_all add: is_allowed_def close_code_from_u16_def)
  next
    assume r: ?range
    then have r3: "\<not> c \<le> 999" "\<not> c \<le> 2999" by (simp_all add: word_le_nat_alt)
    have ne: "c \<noteq> 1000" "c \<noteq> 1001" "c \<noteq> 1002" "c \<noteq> 1003" "c \<noteq> 1005" "c \<noteq> 1006"
        "c \<noteq> 1007" "c \<noteq> 1008" "c \<noteq> 1009" "c \<noteq> 1010" "c \<noteq> 1011" "c \<noteq> 1012"
        "c \<noteq> 1013" "c \<noteq> 1015"
      using r by auto
    show ?allowed
    proof (cases "c \<le> 3999")
      case True
      then show ?allowed
        using r by (simp add: ne r3 is_allowed_def close_code_from_u16_def)
    next
      case False
      then have "4000 \<le> c" by (simp add: word_le_nat_alt)
      then show ?allowed
        using r False by (simp add: ne r3 is_allowed_def close_code_from_u16_def)
    qed
  qed
qed

text \<open>
  Close codes survive the conversion from \<open>u16\<close> and back, and the codes a peer
  may send are exactly those RFC 6455 allows in a close frame: 1000 to 1003, 1007 to 1013
  and 3000 to 4999.
\<close>

theorem close_code_conversion:
  "u16_from_close_code (close_code_from_u16 c) = c \<and>
   (is_allowed (close_code_from_u16 c) \<longleftrightarrow>
      unat c \<in> {1000..1003} \<union> {1007..1013} \<union> {3000..4999})"
proof -
  have nat_range: "n \<in> {1000..1003} \<union> {1007..1013} \<union> {3000..4999} \<longleftrightarrow>
      n \<in> {1000, 1001, 1002, 1003, 1007, 1008, 1009, 1010, 1011, 1012, 1013} \<or>
      3000 \<le> n \<and> n \<le> 4999" for n :: nat
    by (simp only: Un_iff atLeastAtMost_iff insert_iff empty_iff) arith
  have eq: "unat c = unat n \<longleftrightarrow> c = n" for n by (simp add: word_unat_eq_iff)
  have "is_allowed (close_code_from_u16 c) \<longleftrightarrow>
      unat c \<in> {1000, 1001, 1002, 1003, 1007, 1008, 1009, 1010, 1011, 1012, 1013} \<or>
      3000 \<le> unat c \<and> unat c \<le> 4999"
    using eq [of 1000] eq [of 1001] eq [of 1002] eq [of 1003] eq [of 1007] eq [of 1008]
      eq [of 1009] eq [of 1010] eq [of 1011] eq [of 1012] eq [of 1013]
    by (simp add: is_allowed_codes word_le_nat_alt)
  then show ?thesis by (simp only: nat_range u16_from_close_code_from_u16 simp_thms)
qed

end
