(* ===== verification/Errors.thy ===== *)
theory Errors
  imports Coding
begin

text \<open>
  The data that travels through the crate and the errors it reports: frame headers and
  frames (\<open>src/src/protocol/frame/frame.rs\<close>), messages (\<open>src/src/protocol/message.rs\<close>)
  and the error types of \<open>src/src/error.rs\<close>, which are mutually visible because
  \<open>Error::WriteBufferFull\<close> hands a message back. Also \<open>src/src/util.rs\<close>, the
  conversion of would-block errors.

  Text is kept as its UTF-8 bytes. A human-readable text that the code renders into
  \<open>Error::Utf8\<close> is kept as the value it is rendered from (\<open>utf8_text\<close>).
\<close>

section \<open>Frames and messages as data\<close>

type_synonym mask4 = "u8 \<times> u8 \<times> u8 \<times> u8"

record frame_header =
  is_final :: bool
  rsv1 :: bool
  rsv2 :: bool
  rsv3 :: bool
  hdr_opcode :: opcode
  hdr_mask :: "mask4 option"

record frame =
  header :: frame_header
  payload :: bytes

record close_frame =
  cf_code :: close_code
  cf_reason :: bytes

datatype message =
    Text bytes
  | Binary bytes
  | Ping bytes
  | Pong bytes
  | Close "close_frame option"
  | RawFrame frame

section \<open>Errors\<close>

datatype io_kind = WouldBlock | ConnectionReset | UnexpectedEof | OtherKind nat

datatype capacity_error =
    TooManyHeaders
  | MessageTooLong nat nat  \<comment> \<open>size, max_size\<close>

datatype sub_protocol_error =
    ServerSentSubProtocolNoneRequested
  | InvalidSubProtocol
  | NoSubProtocol

text \<open>\<open>httparse::Error\<close>, of which the crate distinguishes one variant.\<close>

datatype httparse_error = HpTooManyHeaders | HpOther nat

datatype protocol_error =
    Compression
  | WrongHttpMethod
  | WrongHttpVersion
  | MissingConnectionUpgradeHeader
  | MissingUpgradeWebSocketHeader
  | MissingSecWebSocketVersionHeader
  | MissingSecWebSocketKey
  | InvalidSecWebSocketKey
  | SecWebSocketAcceptKeyMismatch
  | SecWebSocketSubProtocolError sub_protocol_error
  | JunkAfterRequest
  | CustomResponseSuccessful
  | InvalidHeader bytes
  | HandshakeIncomplete
  | HttparseError httparse_error
  | SendAfterClosing
  | ReceivedAfterClosing
  | NonZeroReservedBits
  | UnmaskedFrameFromClient
  | MaskedFrameFromServer
  | FragmentedControlFrame
  | ControlFrameTooBig
  | UnknownControlFrameType u8
  | UnknownDataFrameType u8
  | UnexpectedContinueFrame
  | ExpectedFragment data_op
  | ResetWithoutClosingHandshake
  | InvalidOpcode u8
  | InvalidCloseSequence

datatype url_error =
    TlsFeatureNotEnabled
  | NoHostName
  | UnableToConnect bytes
  | UnsupportedUrlScheme
  | EmptyHostName
  | NoPathOrQuery

datatype tls_error = NativeTlsError | RustlsError | InvalidDnsName

datatype utf8_text =
    FromUtf8 nat "nat option"  \<comment> \<open>\<open>Utf8Error\<close> displayed: \<open>valid_up_to\<close>, \<open>error_len\<close>\<close>
  | FromLossy bytes            \<comment> \<open>\<open>String::from_utf8_lossy\<close> of these bytes\<close>
  | IncompleteString bytes     \<comment> \<open>\<open>incomplete string: {incomplete:?}\<close>\<close>
  | FromToStr                  \<comment> \<open>\<open>http::header::ToStrError\<close> displayed\<close>
  | FromHeader bytes bytes     \<comment> \<open>the same, with the name of the header and its value\<close>

text \<open>An HTTP response that is handed back in \<open>Error::Http\<close>.\<close>

record http_response =
  resp_status :: nat
  resp_headers :: "(bytes \<times> bytes) list"
  resp_body :: "bytes option"

text \<open>\<open>http::Error\<close>, by the error it is built from.\<close>

datatype http_format_error =
    InvalidHeaderValue | InvalidHeaderName | InvalidUri | InvalidStatusCode

datatype error =
    ConnectionClosed
  | AlreadyClosed
  | Io io_kind
  | Tls tls_error
  | Capacity capacity_error
  | Protocol protocol_error
  | WriteBufferFull message
  | Utf8 utf8_text
  | AttackAttempt
  | Url url_error
  | Http http_response
  | HttpFormat http_format_error

type_synonym 'a result = "(error, 'a) outcome"

text \<open>
  The \<open>From\<close> impls of \<open>Error\<close>. Those for the error types of the \<open>http\<close> crate take a value
  that tells no more than its type.
\<close>

definition error_from_utf8 :: "nat \<Rightarrow> nat option \<Rightarrow> error" where
  "error_from_utf8 valid_up_to error_len = Utf8 (FromUtf8 valid_up_to error_len)"

fun error_from_httparse :: "httparse_error \<Rightarrow> error" where
  "error_from_httparse HpTooManyHeaders = Capacity TooManyHeaders"
| "error_from_httparse e = Protocol (HttparseError e)"

definition error_from_invalid_header_value :: error where
  "error_from_invalid_header_value = HttpFormat InvalidHeaderValue"

definition error_from_invalid_header_name :: error where
  "error_from_invalid_header_name = HttpFormat InvalidHeaderName"

definition error_from_to_str :: error where
  "error_from_to_str = Utf8 FromToStr"

definition error_from_invalid_uri :: error where
  "error_from_invalid_uri = HttpFormat InvalidUri"

definition error_from_invalid_status_code :: error where
  "error_from_invalid_status_code = HttpFormat InvalidStatusCode"

text \<open>\<open>ok_or\<close>: an option as a result.\<close>

fun ok_or :: "error \<Rightarrow> 'a option \<Rightarrow> 'a result" where
  "ok_or e (Some a) = Ok a"
| "ok_or e None = Err e"

lemma ok_or_Ok_iff [simp]: "ok_or e x = Ok a \<longleftrightarrow> x = Some a"
  by (cases x) simp_all

lemma ok_or_no_panic [simp]: "ok_or e x \<noteq> Panic"
  by (cases x) simp_all

section \<open>Non-blocking results\<close>

fun io_into_non_blocking :: "io_kind \<Rightarrow> io_kind option" where
  "io_into_non_blocking WouldBlock = None"
| "io_into_non_blocking k = Some k"

fun into_non_blocking :: "error \<Rightarrow> error option" where
  "into_non_blocking (Io e) = map_option Io (io_into_non_blocking e)"
| "into_non_blocking x = Some x"

text \<open>\<open>no_block\<close>, generic in the conversion of the error type.\<close>

fun no_block :: "('e \<Rightarrow> 'e option) \<Rightarrow> ('e, 'a) outcome \<Rightarrow> ('e, 'a option) outcome" where
  "no_block conv (Ok x) = Ok (Some x)"
| "no_block conv (Err e) = (case conv e of Some e' \<Rightarrow> Err e' | None \<Rightarrow> Ok None)"
| "no_block conv Panic = Panic"

lemma io_into_non_blocking_None [simp]: "io_into_non_blocking k = None \<longleftrightarrow> k = WouldBlock"
  by (cases k) simp_all

lemma io_into_non_blocking_Some [simp]:
  "io_into_non_blocking k = Some k' \<longleftrightarrow> k' = k \<and> k \<noteq> WouldBlock"
  by (cases k) auto

lemma into_non_blocking_None: "into_non_blocking e = None \<longleftrightarrow> e = Io WouldBlock"
  by (cases e) (auto split: option.splits)

lemma into_non_blocking_Some:
  "into_non_blocking e = Some e' \<longleftrightarrow> e' = e \<and> e \<noteq> Io WouldBlock"
  by (cases e) auto

lemma no_block_Err_iff:
  "no_block into_non_blocking r = Err e \<longleftrightarrow> r = Err e \<and> e \<noteq> Io WouldBlock"
  by (cases r) (auto split: option.splits simp: into_non_blocking_None into_non_blocking_Some)

lemma no_block_None_iff:
  "no_block into_non_blocking r = Ok None \<longleftrightarrow> r = Err (Io WouldBlock)"
  by (cases r) (auto split: option.splits simp: into_non_blocking_None into_non_blocking_Some)

end
