(* ===== verification/Mask.thy ===== *)
theory Mask
  imports Errors
begin

text \<open>
  Frame masking, \<open>src/src/protocol/frame/mask.rs\<close>: the byte-wise loop
  \<open>apply_mask_fallback\<close> and the word-wise \<open>apply_mask_fast32\<close> that the crate runs.
  The fast version splits the buffer with \<open>align_to_mut::<u32>\<close>, whose split the standard
  library leaves open; the split (\<open>pre\<close> bytes before and \<open>n\<close> words in the middle) and the
  endianness of the target are therefore arguments, and the equivalence is proved for all
  of them.
\<close>

unbundle bit_operations_syntax

section \<open>The byte-wise loop\<close>

text \<open>\<open>mask[i & 3]\<close> for an array of four bytes.\<close>

fun mask_at :: "mask4 \<Rightarrow> nat \<Rightarrow> u8" where
  "mask_at (m0, m1, m2, m3) i =
     (if i mod 4 = 0 then m0 else if i mod 4 = 1 then m1 else if i mod 4 = 2 then m2 else m3)"

fun mask_from :: "nat \<Rightarrow> mask4 \<Rightarrow> bytes \<Rightarrow> bytes" where
  "mask_from i m [] = []"
| "mask_from i m (b # bs) = (b XOR mask_at m i) # mask_from (Suc i) m bs"

definition apply_mask_fallback :: "mask4 \<Rightarrow> bytes \<Rightarrow> bytes" where
  "apply_mask_fallback m buf = mask_from 0 m buf"

section \<open>The word-wise version\<close>

text \<open>\<open>u32::from_ne_bytes\<close> and \<open>u32::to_ne_bytes\<close> for either byte order.\<close>

definition le_word :: "mask4 \<Rightarrow> u32" where
  "le_word m = (case m of (b0, b1, b2, b3) \<Rightarrow>
     ucast b0 OR push_bit 8 (ucast b1) OR push_bit 16 (ucast b2) OR push_bit 24 (ucast b3))"

definition le_byte :: "nat \<Rightarrow> u32 \<Rightarrow> u8" where
  "le_byte i w = ucast (drop_bit (8 * i) w)"

definition from_ne_bytes :: "bool \<Rightarrow> mask4 \<Rightarrow> u32" where
  "from_ne_bytes big m = (case m of (b0, b1, b2, b3) \<Rightarrow>
     if big then le_word (b3, b2, b1, b0) else le_word (b0, b1, b2, b3))"

definition to_ne_bytes :: "bool \<Rightarrow> u32 \<Rightarrow> mask4" where
  "to_ne_bytes big w =
     (if big then (le_byte 3 w, le_byte 2 w, le_byte 1 w, le_byte 0 w)
      else (le_byte 0 w, le_byte 1 w, le_byte 2 w, le_byte 3 w))"

text \<open>The middle part of the buffer is read and written as \<open>u32\<close> words.\<close>

fun xor_words :: "bool \<Rightarrow> u32 \<Rightarrow> bytes \<Rightarrow> bytes" where
  "xor_words big k (b0 # b1 # b2 # b3 # bs) =
     (case to_ne_bytes big (from_ne_bytes big (b0, b1, b2, b3) XOR k) of
        (c0, c1, c2, c3) \<Rightarrow> c0 # c1 # c2 # c3 # xor_words big k bs)"
| "xor_words big k bs = bs"

definition rotated_mask :: "bool \<Rightarrow> nat \<Rightarrow> u32 \<Rightarrow> u32" where
  "rotated_mask big head m =
     (if head > 0 then (if big then word_rotl (8 * head) m else word_rotr (8 * head) m) else m)"

definition apply_mask_fast32 :: "bool \<Rightarrow> nat \<Rightarrow> nat \<Rightarrow> mask4 \<Rightarrow> bytes \<Rightarrow> bytes" where
  "apply_mask_fast32 big pre n m buf =
     (let prefix = take pre buf;
          words = take (4 * n) (drop pre buf);
          suffix = drop (4 * n) (drop pre buf);
          mask_u32 = rotated_mask big (length prefix mod 4) (from_ne_bytes big m)
      in apply_mask_fallback m prefix @ xor_words big mask_u32 words
         @ apply_mask_fallback (to_ne_bytes big mask_u32) suffix)"

text \<open>A split that \<open>align_to_mut\<close> may return for a buffer.\<close>

definition valid_split :: "nat \<Rightarrow> nat \<Rightarrow> bytes \<Rightarrow> bool" where
  "valid_split pre n buf \<longleftrightarrow> pre + 4 * n \<le> length buf"

text \<open>
  \<open>apply_mask\<close> is the entry point. Its result does not depend on the split or the byte
  order (\<open>apply_mask_fast32_eq\<close> below), so the rest of the development uses the one with
  an empty prefix and no words.
\<close>

definition apply_mask :: "mask4 \<Rightarrow> bytes \<Rightarrow> bytes" where
  "apply_mask m buf = apply_mask_fast32 False 0 0 m buf"

section \<open>Facts about the loop\<close>

lemma length_mask_from [simp]: "length (mask_from i m bs) = length bs"
  by (induction bs arbitrary: i) simp_all

lemma mask_from_append: "mask_from i m (xs @ ys) = mask_from i m xs @ mask_from (i + length xs) m ys"
  by (induction xs arbitrary: i) simp_all

lemma mask_from_involution [simp]: "mask_from i m (mask_from i m bs) = bs"
  by (induction bs arbitrary: i) (simp_all add: xor.assoc)

lemma mask_at_mod [simp]: "mask_at m (i mod 4) = mask_at m i"
  by (cases m) simp

lemma mask_from_mod: "mask_from (i mod 4) m bs = mask_from i m bs"
proof (induction bs arbitrary: i)
  case Nil
  show ?case by simp
next
  case (Cons b bs)
  have "mask_from (Suc (i mod 4)) m bs = mask_from (Suc (i mod 4) mod 4) m bs"
    by (simp only: Cons.IH)
  also have "\<dots> = mask_from (Suc i) m bs"
    by (simp only: mod_Suc_eq Cons.IH)
  finally show ?case by simp
qed

text \<open>Masking with an offset is masking with the rotated mask.\<close>

definition rotate_mask :: "nat \<Rightarrow> mask4 \<Rightarrow> mask4" where
  "rotate_mask h m = (mask_at m h, mask_at m (h + 1), mask_at m (h + 2), mask_at m (h + 3))"

lemma mask_at_rotate: "mask_at (rotate_mask h m) i = mask_at m (h + i)"
proof -
  have "i mod 4 = 0 \<or> i mod 4 = 1 \<or> i mod 4 = 2 \<or> i mod 4 = 3" by arith
  moreover have "mask_at m (h + i) = mask_at m (h + i mod 4)"
    by (metis mask_at_mod mod_add_right_eq)
  ultimately show ?thesis by (auto simp: rotate_mask_def)
qed

lemma mask_from_rotate: "mask_from i (rotate_mask h m) bs = mask_from (h + i) m bs"
  by (induction bs arbitrary: i) (simp_all add: mask_at_rotate)

section \<open>Words as four bytes\<close>

lemma bit_le_byte: "bit (le_byte i w) n \<longleftrightarrow> n < 8 \<and> bit w (8 * i + n)"
  by (auto simp: le_byte_def bit_simps)

lemma le_byte_xor: "le_byte i (v XOR w) = le_byte i v XOR le_byte i w"
  by (rule bit_word_eqI) (auto simp: bit_le_byte bit_simps)

lemma bit_le_word:
  "bit (le_word (b0, b1, b2, b3)) n \<longleftrightarrow>
     (if n < 8 then bit b0 n else if n < 16 then bit b1 (n - 8)
      else if n < 24 then bit b2 (n - 16) else n < 32 \<and> bit b3 (n - 24))"
proof -
  have out: "\<not> bit (b :: u8) k" if "8 \<le> k" for b k
    using bit_imp_le_length [of b k] that by auto
  show ?thesis by (auto simp: le_word_def bit_simps out)
qed

lemma le_byte_le_word [simp]:
  "le_byte 0 (le_word (b0, b1, b2, b3)) = b0"
  "le_byte (Suc 0) (le_word (b0, b1, b2, b3)) = b1"
  "le_byte (Suc (Suc 0)) (le_word (b0, b1, b2, b3)) = b2"
  "le_byte 2 (le_word (b0, b1, b2, b3)) = b2"
  "le_byte 3 (le_word (b0, b1, b2, b3)) = b3"
  by (rule bit_word_eqI, simp add: bit_le_byte bit_le_word)+

text \<open>Rotating a word by whole bytes moves its bytes.\<close>

lemma byte_index_mod:
  fixes n :: nat
  assumes "n < 8"
  shows "(n + 8 * k) mod 32 = 8 * (k mod 4) + n"
proof -
  have "k = 4 * (k div 4) + k mod 4" by simp
  then have "n + 8 * k = (8 * (k mod 4) + n) + 32 * (k div 4)" by linarith
  then have "(n + 8 * k) mod 32 = (8 * (k mod 4) + n) mod 32" by (simp only: mod_mult_self2)
  also have "\<dots> = 8 * (k mod 4) + n"
  proof (rule mod_less)
    have "k mod 4 \<le> 3" by arith
    with assms show "8 * (k mod 4) + n < 32" by linarith
  qed
  finally show ?thesis .
qed

lemma le_byte_rotr: "i < 4 \<Longrightarrow> le_byte i (word_rotr (8 * h) w) = le_byte ((i + h) mod 4) w"
proof (rule bit_word_eqI)
  fix n assume "i < 4" and n: "n < LENGTH(8)"
  then have "(8 * i + n + 8 * h) mod 32 = 8 * ((i + h) mod 4) + n"
    using byte_index_mod [of n "i + h"] by (simp add: algebra_simps)
  then show "bit (le_byte i (word_rotr (8 * h) w)) n = bit (le_byte ((i + h) mod 4) w) n"
    using n \<open>i < 4\<close> by (simp add: bit_le_byte bit_word_rotr_iff)
qed

lemma le_byte_rotl:
  assumes i: "i < 4" and h: "0 < h" "h < 4"
  shows "le_byte i (word_rotl (8 * h) w) = le_byte ((i + (4 - h)) mod 4) w"
proof (rule bit_word_eqI)
  fix n assume n: "n < LENGTH(8)"
  have "8 * h < 32" using h by simp
  then have "8 * i + n + (LENGTH(32) - 8 * h mod LENGTH(32)) = n + 8 * (i + (4 - h))"
    by simp
  then have "(8 * i + n + (LENGTH(32) - 8 * h mod LENGTH(32))) mod 32
      = 8 * ((i + (4 - h)) mod 4) + n"
    using byte_index_mod [of n "i + (4 - h)"] n by (simp only: len_num1 len_bit0 len_bit1)
  moreover have "8 * i + n < LENGTH(32)" using n i by simp
  ultimately show "bit (le_byte i (word_rotl (8 * h) w)) n
      = bit (le_byte ((i + (4 - h)) mod 4) w) n"
    using n by (simp only: bit_le_byte bit_word_rotl_iff simp_thms) simp
qed

lemma small_head: "h < 4 \<Longrightarrow> h = 0 \<or> h = 1 \<or> h = 2 \<or> h = (3::nat)"
  by arith

lemma rotr_bytes:
  assumes "h < 4"
  shows "to_ne_bytes False (word_rotr (8 * h) (from_ne_bytes False m)) = rotate_mask h m"
proof -
  have "to_ne_bytes False (word_rotr (8 * h) w) =
      (le_byte ((0 + h) mod 4) w, le_byte ((1 + h) mod 4) w,
       le_byte ((2 + h) mod 4) w, le_byte ((3 + h) mod 4) w)" for w
    unfolding to_ne_bytes_def by (simp only: le_byte_rotr zero_less_numeral if_False one_less_numeral_iff
        numeral_less_iff semiring_norm)
  then show ?thesis
    using small_head [OF assms]
    by (cases m) (elim disjE; simp add: from_ne_bytes_def rotate_mask_def)
qed

lemma rotl_bytes:
  assumes "h < 4" "0 < h"
  shows "to_ne_bytes True (word_rotl (8 * h) (from_ne_bytes True m)) = rotate_mask h m"
proof -
  have "to_ne_bytes True (word_rotl (8 * h) w) =
      (le_byte ((3 + (4 - h)) mod 4) w, le_byte ((2 + (4 - h)) mod 4) w,
       le_byte ((1 + (4 - h)) mod 4) w, le_byte ((0 + (4 - h)) mod 4) w)" for w
    unfolding to_ne_bytes_def by (simp only: le_byte_rotl assms zero_less_numeral if_True
        one_less_numeral_iff numeral_less_iff semiring_norm)
  then show ?thesis
    using small_head [OF assms(1)] assms(2)
    by (cases m) (elim disjE; simp add: from_ne_bytes_def rotate_mask_def)
qed

lemma ne_bytes_inverse: "to_ne_bytes big (from_ne_bytes big m) = rotate_mask 0 m"
  by (cases m) (simp add: to_ne_bytes_def from_ne_bytes_def rotate_mask_def)

lemma to_ne_bytes_rotated:
  assumes "h < 4"
  shows "to_ne_bytes big (rotated_mask big h (from_ne_bytes big m)) = rotate_mask h m"
  using assms by (cases big) (simp_all add: rotated_mask_def rotr_bytes rotl_bytes ne_bytes_inverse)

lemma to_ne_bytes_xor:
  "to_ne_bytes big (from_ne_bytes big (b0, b1, b2, b3) XOR k) =
     (b0 XOR mask_at (to_ne_bytes big k) 0, b1 XOR mask_at (to_ne_bytes big k) 1,
      b2 XOR mask_at (to_ne_bytes big k) 2, b3 XOR mask_at (to_ne_bytes big k) 3)"
  by (simp add: to_ne_bytes_def from_ne_bytes_def le_byte_xor)

lemma xor_words_mask_from:
  "4 dvd length bs \<Longrightarrow> xor_words big k bs = mask_from 0 (to_ne_bytes big k) bs"
proof (induction big k bs rule: xor_words.induct)
  case (1 big k b0 b1 b2 b3 bs)
  from "1.prems" have "4 dvd length bs + 4" by (simp add: numeral_eq_Suc)
  then have "4 dvd length bs" by (simp only: dvd_add_triv_right_iff)
  with 1 have IH: "xor_words big k bs = mask_from 0 (to_ne_bytes big k) bs"
    by (metis prod.exhaust)
  have "mask_from 4 (to_ne_bytes big k) bs = mask_from 0 (to_ne_bytes big k) bs"
    using mask_from_mod [of 4 "to_ne_bytes big k" bs] by simp
  with IH show ?case
    by (simp add: to_ne_bytes_xor mask_at.simps [of _ _ _ _ 0] eval_nat_numeral del: mask_at.simps)
qed (simp_all add: dvd_def, presburger+)

text \<open>
  Claim C29. The word-wise masking that the crate runs computes the byte-wise masking of
  RFC 6455, whatever split of the buffer \<open>align_to_mut\<close> returns and whatever the byte
  order of the target.
\<close>

theorem apply_mask_fast32_eq:
  assumes "valid_split pre n buf"
  shows "apply_mask_fast32 big pre n m buf = apply_mask_fallback m buf"
proof -
  define prefix where "prefix = take pre buf"
  define words where "words = take (4 * n) (drop pre buf)"
  define suffix where "suffix = drop (4 * n) (drop pre buf)"
  have split: "buf = prefix @ words @ suffix"
    by (simp add: prefix_def words_def suffix_def del: drop_drop)
  have lens: "length prefix = pre" "length words = 4 * n"
    using assms by (simp_all add: prefix_def words_def valid_split_def)
  let ?h = "pre mod 4"
  have rot: "to_ne_bytes big (rotated_mask big ?h (from_ne_bytes big m)) = rotate_mask ?h m"
    by (simp add: to_ne_bytes_rotated)
  have w: "xor_words big (rotated_mask big ?h (from_ne_bytes big m)) words = mask_from pre m words"
    using lens by (simp add: xor_words_mask_from rot mask_from_rotate mask_from_mod)
  have "mask_from (pre + 4 * n) m suffix = mask_from pre m suffix"
    by (subst (1 2) mask_from_mod [symmetric]) simp
  then have s: "apply_mask_fallback (rotate_mask ?h m) suffix = mask_from (pre + 4 * n) m suffix"
    by (simp add: apply_mask_fallback_def mask_from_rotate mask_from_mod)
  show ?thesis
    unfolding apply_mask_fast32_def Let_def
    using lens rot w s
    by (simp add: prefix_def [symmetric] words_def [symmetric] suffix_def [symmetric]
        apply_mask_fallback_def mask_from_append split)
qed

theorem apply_mask_fast32_eq_witness:
  "apply_mask_fast32 True 1 1 (109, 182, 178, 128) [243, 0, 1, 2, 3, 128, 129]
     = apply_mask_fallback (109, 182, 178, 128) [243, 0, 1, 2, 3, 128, 129]"
  by (rule apply_mask_fast32_eq) (simp add: valid_split_def)

section \<open>Masking as the other components use it\<close>

lemma apply_mask_eq: "apply_mask m buf = mask_from 0 m buf"
proof -
  have "apply_mask_fast32 False 0 0 m buf = mask_from 0 m buf"
    by (simp add: apply_mask_fast32_def rotated_mask_def apply_mask_fallback_def
        ne_bytes_inverse mask_from_rotate)
  then show ?thesis by (simp add: apply_mask_def)
qed

lemma length_apply_mask [simp]: "length (apply_mask m buf) = length buf"
  by (simp add: apply_mask_eq)

lemma apply_mask_involution [simp]: "apply_mask m (apply_mask m buf) = buf"
  by (simp add: apply_mask_eq)

end
