(* ===== verification/Utf8.thy ===== *)
theory Utf8
  imports Errors
begin

text \<open>
  UTF-8 decoding: the validation that \<open>str::from_utf8\<close> of the standard library performs,
  with the two numbers its error reports, and on top of it \<open>src/src/utf8.rs\<close>, which
  resumes decoding in the middle of a character, and the checked conversion into
  \<open>Utf8Bytes\<close> of \<open>src/src/protocol/frame/utf8.rs\<close>.
\<close>

section \<open>The standard library's validation\<close>

text \<open>
  What the bytes at the front of a string can be: a whole character of \<open>k\<close> bytes, an
  invalid sequence of \<open>k\<close> bytes (\<open>error_len() == Some(k)\<close>), or a beginning that more
  bytes may complete (\<open>error_len() == None\<close>).
\<close>

datatype utf8_head_class = CharLen nat | BadLen nat | Truncated

definition cont_byte :: "u8 \<Rightarrow> bool" where
  "cont_byte b \<longleftrightarrow> 0x80 \<le> unat b \<and> unat b \<le> 0xBF"

definition second_of_three :: "u8 \<Rightarrow> u8 \<Rightarrow> bool" where
  "second_of_three b0 b1 \<longleftrightarrow>
     (if unat b0 = 0xE0 then 0xA0 \<le> unat b1 \<and> unat b1 \<le> 0xBF
      else if unat b0 = 0xED then 0x80 \<le> unat b1 \<and> unat b1 \<le> 0x9F
      else cont_byte b1)"

definition second_of_four :: "u8 \<Rightarrow> u8 \<Rightarrow> bool" where
  "second_of_four b0 b1 \<longleftrightarrow>
     (if unat b0 = 0xF0 then 0x90 \<le> unat b1 \<and> unat b1 \<le> 0xBF
      else if unat b0 = 0xF4 then 0x80 \<le> unat b1 \<and> unat b1 \<le> 0x8F
      else cont_byte b1)"

text \<open>One more continuation byte: \<open>n\<close> bytes are already good.\<close>

definition expect_cont :: "nat \<Rightarrow> bytes \<Rightarrow> (bytes \<Rightarrow> utf8_head_class) \<Rightarrow> utf8_head_class" where
  "expect_cont n rest k =
     (case rest of [] \<Rightarrow> Truncated | b # rest' \<Rightarrow> if cont_byte b then k rest' else BadLen n)"

definition utf8_head :: "bytes \<Rightarrow> utf8_head_class" where
  "utf8_head bs =
     (case bs of [] \<Rightarrow> Truncated
      | b0 # rest \<Rightarrow>
        (if unat b0 < 0x80 then CharLen 1
         else if 0xC2 \<le> unat b0 \<and> unat b0 \<le> 0xDF then expect_cont 1 rest (\<lambda>_. CharLen 2)
         else if 0xE0 \<le> unat b0 \<and> unat b0 \<le> 0xEF then
           (case rest of [] \<Rightarrow> Truncated
            | b1 # r1 \<Rightarrow> if second_of_three b0 b1 then expect_cont 2 r1 (\<lambda>_. CharLen 3) else BadLen 1)
         else if 0xF0 \<le> unat b0 \<and> unat b0 \<le> 0xF4 then
           (case rest of [] \<Rightarrow> Truncated
            | b1 # r1 \<Rightarrow>
                if second_of_four b0 b1
                then expect_cont 2 r1 (\<lambda>r2. expect_cont 3 r2 (\<lambda>_. CharLen 4))
                else BadLen 1)
         else BadLen 1))"

lemma utf8_head_CharLen: "utf8_head bs = CharLen k \<Longrightarrow> 0 < k \<and> k \<le> 4 \<and> k \<le> length bs"
  by (auto simp: utf8_head_def expect_cont_def split: list.splits if_splits)

datatype utf8_check = Valid | Invalid nat "nat option"  \<comment> \<open>\<open>valid_up_to\<close>, \<open>error_len\<close>\<close>

function from_utf8_at :: "nat \<Rightarrow> bytes \<Rightarrow> utf8_check" where
  "from_utf8_at n bs =
     (if bs = [] then Valid
      else case utf8_head bs of
          CharLen k \<Rightarrow> from_utf8_at (n + k) (drop k bs)
        | BadLen k \<Rightarrow> Invalid n (Some k)
        | Truncated \<Rightarrow> Invalid n None)"
  by pat_completeness auto
termination
  by (relation "measure (\<lambda>(n, bs). length bs)") (auto dest: utf8_head_CharLen)

declare from_utf8_at.simps [simp del]

definition from_utf8 :: "bytes \<Rightarrow> utf8_check" where
  "from_utf8 bs = from_utf8_at 0 bs"

definition valid_utf8 :: "bytes \<Rightarrow> bool" where
  "valid_utf8 bs \<longleftrightarrow> from_utf8 bs = Valid"

text \<open>\<open>impl TryFrom<Bytes> for Utf8Bytes\<close>, and \<open>?\<close> on its error.\<close>

definition utf8_try_from :: "bytes \<Rightarrow> bytes result" where
  "utf8_try_from bs =
     (case from_utf8 bs of Valid \<Rightarrow> Ok bs | Invalid n e \<Rightarrow> Err (error_from_utf8 n e))"

section \<open>Resumable decoding\<close>

record incomplete =
  ibuf :: bytes      \<comment> \<open>\<open>[u8; 4]\<close>\<close>
  ibuf_len :: nat    \<comment> \<open>\<open>u8\<close>\<close>

datatype decode_error =
    DecodeInvalid bytes bytes bytes  \<comment> \<open>valid prefix, invalid sequence, remaining input\<close>
  | DecodeIncomplete bytes incomplete

definition incomplete_new :: "bytes \<Rightarrow> ('e, incomplete) outcome" where
  "incomplete_new bs =
     (if length bs \<le> 4 then Ok \<lparr>ibuf = bs @ replicate (4 - length bs) 0, ibuf_len = length bs\<rparr>
      else Panic)"

definition decode :: "bytes \<Rightarrow> (decode_error, bytes) outcome" where
  "decode input =
     (case from_utf8 input of
        Valid \<Rightarrow> Ok input
      | Invalid n len \<Rightarrow>
          (let valid = take n input; after_valid = drop n input in
           case len of
             Some k \<Rightarrow> Err (DecodeInvalid valid (take k after_valid) (drop k after_valid))
           | None \<Rightarrow> bind_out (incomplete_new after_valid) (\<lambda>i. Err (DecodeIncomplete valid i))))"

text \<open>
  \<open>try_complete_offsets\<close>: how many bytes of the input were consumed, and what the buffer
  now holds (\<open>None\<close>: not enough input, \<open>Some False\<close>: error bytes, \<open>Some True\<close>: text).
  \<open>checked_sub(..).unwrap()\<close> panics when the subtraction would be negative.
\<close>

definition try_complete_offsets ::
  "incomplete \<Rightarrow> bytes \<Rightarrow> ('e, nat \<times> bool option) outcome \<times> incomplete" where
  "try_complete_offsets i input =
     (let initial_buffer_len = ibuf_len i;
          copied_from_input = min (length (ibuf i) - initial_buffer_len) (length input);
          spliced = take initial_buffer_len (ibuf i) @ take copied_from_input input;
          i1 = i\<lparr>ibuf := spliced @ drop (length spliced) (ibuf i)\<rparr>
      in case from_utf8 spliced of
           Valid \<Rightarrow> (Ok (copied_from_input, Some True), i1\<lparr>ibuf_len := length spliced\<rparr>)
         | Invalid valid_up_to error_len \<Rightarrow>
             (if valid_up_to > 0 then
                (if initial_buffer_len \<le> valid_up_to
                 then (Ok (valid_up_to - initial_buffer_len, Some True), i1\<lparr>ibuf_len := valid_up_to\<rparr>)
                 else (Panic, i1))
              else case error_len of
                  Some k \<Rightarrow>
                    (if initial_buffer_len \<le> k
                     then (Ok (k - initial_buffer_len, Some False), i1\<lparr>ibuf_len := k\<rparr>)
                     else (Panic, i1))
                | None \<Rightarrow> (Ok (copied_from_input, None), i1\<lparr>ibuf_len := length spliced\<rparr>)))"

definition take_buffer :: "incomplete \<Rightarrow> bytes \<times> incomplete" where
  "take_buffer i = (take (ibuf_len i) (ibuf i), i\<lparr>ibuf_len := 0\<rparr>)"

record completed =
  cresult :: "bytes + bytes"  \<comment> \<open>\<open>Inr\<close> the text, \<open>Inl\<close> the invalid bytes\<close>
  cremaining :: bytes

definition try_complete :: "incomplete \<Rightarrow> bytes \<Rightarrow> ('e, completed option) outcome \<times> incomplete" where
  "try_complete i input =
     and_then (try_complete_offsets i input) (\<lambda>(consumed, opt_result) i1.
       case opt_result of
         None \<Rightarrow> (Ok None, i1)
       | Some good \<Rightarrow>
           (if consumed \<le> length input then
              (case take_buffer i1 of (result_bytes, i2) \<Rightarrow>
                (Ok (Some \<lparr>cresult = (if good then Inr result_bytes else Inl result_bytes),
                           cremaining = drop consumed input\<rparr>), i2))
            else (Panic, i1)))"

section \<open>Facts about validation\<close>

lemma from_utf8_at_Nil [simp]: "from_utf8_at n [] = Valid"
  by (simp add: from_utf8_at.simps)

lemma valid_utf8_Nil [simp]: "valid_utf8 []"
  by (simp add: valid_utf8_def from_utf8_def)

fun shift_check :: "nat \<Rightarrow> utf8_check \<Rightarrow> utf8_check" where
  "shift_check d Valid = Valid"
| "shift_check d (Invalid n e) = Invalid (d + n) e"

lemma shift_check_Valid_iff [simp]: "shift_check d c = Valid \<longleftrightarrow> c = Valid"
  by (cases c) simp_all

lemma shift_check_0 [simp]: "shift_check 0 c = c"
  by (cases c) simp_all

lemma from_utf8_at_shift: "from_utf8_at (d + n) bs = shift_check d (from_utf8_at n bs)"
proof (induction n bs rule: from_utf8_at.induct)
  case (1 n bs)
  then show ?case
    by (auto simp: from_utf8_at.simps [of n bs] from_utf8_at.simps [of "d + n" bs] add.assoc
        split: utf8_head_class.split)
qed

lemma from_utf8_at_eq: "from_utf8_at n bs = shift_check n (from_utf8 bs)"
  using from_utf8_at_shift [of n 0 bs] by (simp add: from_utf8_def)

lemma from_utf8_unfold:
  "bs \<noteq> [] \<Longrightarrow> from_utf8 bs =
     (case utf8_head bs of
        CharLen k \<Rightarrow> shift_check k (from_utf8 (drop k bs))
      | BadLen k \<Rightarrow> Invalid 0 (Some k)
      | Truncated \<Rightarrow> Invalid 0 None)"
  unfolding from_utf8_def by (subst from_utf8_at.simps)
    (simp add: from_utf8_at_eq from_utf8_def [symmetric] split: utf8_head_class.split)

text \<open>More bytes never change a verdict that has been reached.\<close>

lemma utf8_head_CharLen_append: "utf8_head xs = CharLen k \<Longrightarrow> utf8_head (xs @ ys) = CharLen k"
  by (auto simp: utf8_head_def expect_cont_def split: list.splits if_splits)

lemma utf8_head_BadLen_append: "utf8_head xs = BadLen k \<Longrightarrow> utf8_head (xs @ ys) = BadLen k"
  by (auto simp: utf8_head_def expect_cont_def split: list.splits if_splits)

lemma utf8_head_Truncated_length: "utf8_head xs = Truncated \<Longrightarrow> length xs \<le> 3"
  by (auto simp: utf8_head_def expect_cont_def split: list.splits if_splits)

lemma utf8_head_Truncated_CharLen:
  "utf8_head xs = Truncated \<Longrightarrow> utf8_head (xs @ ys) = CharLen k \<Longrightarrow> length xs < k"
  by (auto simp: utf8_head_def expect_cont_def split: list.splits if_splits)

lemma utf8_head_Truncated_BadLen:
  "xs \<noteq> [] \<Longrightarrow> utf8_head xs = Truncated \<Longrightarrow> utf8_head (xs @ ys) = BadLen k \<Longrightarrow> length xs \<le> k"
  by (auto simp: utf8_head_def expect_cont_def split: list.splits if_splits)

lemma utf8_head_BadLen_le: "utf8_head xs = BadLen k \<Longrightarrow> 0 < k \<and> k \<le> 3 \<and> k \<le> length xs"
  by (auto simp: utf8_head_def expect_cont_def split: list.splits if_splits)

lemma valid_utf8_cons:
  "bs \<noteq> [] \<Longrightarrow> valid_utf8 bs \<longleftrightarrow> (\<exists>k. utf8_head bs = CharLen k \<and> valid_utf8 (drop k bs))"
  by (auto simp: valid_utf8_def from_utf8_unfold split: utf8_head_class.splits)

text \<open>Where validation stopped, everything before is valid and the next bytes say why.\<close>

lemma from_utf8_InvalidD:
  "from_utf8 bs = Invalid n e \<Longrightarrow>
     n < length bs \<and> valid_utf8 (take n bs) \<and>
     utf8_head (drop n bs) = (case e of Some k \<Rightarrow> BadLen k | None \<Rightarrow> Truncated)"
proof (induction bs arbitrary: n rule: length_induct)
  case (1 bs)
  then have ne: "bs \<noteq> []" by (auto simp: from_utf8_def)
  show ?case
  proof (cases "utf8_head bs")
    case (CharLen k)
    note k = utf8_head_CharLen [OF CharLen]
    obtain m where m: "from_utf8 (drop k bs) = Invalid m e" "n = k + m"
      using "1.prems" ne CharLen
      by (cases "from_utf8 (drop k bs)") (auto simp: from_utf8_unfold)
    have IH: "m < length (drop k bs) \<and> valid_utf8 (take m (drop k bs)) \<and>
        utf8_head (drop m (drop k bs)) = (case e of Some k \<Rightarrow> BadLen k | None \<Rightarrow> Truncated)"
      using "1.IH" m(1) k ne by (metis length_drop diff_less length_greater_0_conv)
    have "take n bs = take k bs @ take m (drop k bs)"
      using m(2) by (simp add: take_add)
    moreover have "utf8_head (take k bs @ take m (drop k bs)) = CharLen k"
    proof -
      have "utf8_head (take k bs) = CharLen k"
        using CharLen
        by (auto simp: utf8_head_def expect_cont_def split: list.splits if_splits)
      then show ?thesis by (rule utf8_head_CharLen_append)
    qed
    ultimately show ?thesis
      using IH k m(2) ne by (auto simp: valid_utf8_cons add.commute)
  qed (use "1.prems" ne in \<open>auto simp: from_utf8_unfold\<close>)
qed

lemma from_utf8_valid_append:
  "valid_utf8 v \<Longrightarrow> from_utf8 (v @ w) = shift_check (length v) (from_utf8 w)"
proof (induction v rule: length_induct)
  case (1 v)
  show ?case
  proof (cases "v = []")
    case True
    then show ?thesis by (cases "from_utf8 w") simp_all
  next
    case False
    then obtain k where k: "utf8_head v = CharLen k" "valid_utf8 (drop k v)"
      using "1.prems" by (auto simp: valid_utf8_cons)
    have "from_utf8 (drop k v @ w) = shift_check (length (drop k v)) (from_utf8 w)"
      using "1.IH" k utf8_head_CharLen [OF k(1)] False
      by (metis length_drop diff_less length_greater_0_conv)
    then show ?thesis
      using False utf8_head_CharLen [OF k(1)] utf8_head_CharLen_append [OF k(1), of w]
      by (cases "from_utf8 w") (simp_all add: from_utf8_unfold)
  qed
qed

lemma valid_utf8_append: "valid_utf8 v \<Longrightarrow> valid_utf8 (v @ w) \<longleftrightarrow> valid_utf8 w"
  unfolding valid_utf8_def by (simp add: from_utf8_valid_append valid_utf8_def)

lemma valid_utf8_Truncated: "xs \<noteq> [] \<Longrightarrow> utf8_head xs = Truncated \<Longrightarrow> \<not> valid_utf8 xs"
  by (simp add: valid_utf8_cons)

text \<open>An invalid sequence stays invalid whatever follows.\<close>

lemma valid_utf8_BadLen:
  assumes "valid_utf8 v" "utf8_head xs = BadLen k"
  shows "\<not> valid_utf8 (v @ xs @ ys)"
proof -
  have "utf8_head (xs @ ys) = BadLen k" by (rule utf8_head_BadLen_append) (fact assms(2))
  moreover have "xs \<noteq> []" using assms(2) by (auto simp: utf8_head_def)
  ultimately have "\<not> valid_utf8 (xs @ ys)" by (simp add: valid_utf8_cons)
  with assms(1) show ?thesis by (simp only: valid_utf8_append not_False_eq_True)
qed

lemma valid_utf8_prefix:
  assumes "valid_utf8 bs" "utf8_head bs = CharLen k"
  shows "valid_utf8 (take k bs)"
proof -
  have "utf8_head (take k bs) = CharLen k"
    using assms(2) by (auto simp: utf8_head_def expect_cont_def split: list.splits if_splits)
  then show ?thesis
    using utf8_head_CharLen [OF assms(2)] by (subst valid_utf8_cons) auto
qed

end
