(* ===== verification/Frame.thy ===== *)
theory Frame
  imports Mask Utf8
begin

text \<open>
  Frame headers and frames, \<open>src/src/protocol/frame/frame.rs\<close>: the length encoding, the
  header parser and formatter, the frame constructors and the formatter of whole frames.
  A \<open>u64\<close> payload length is a number below \<open>2 ^ 64\<close>; the casts \<open>as u8\<close> and \<open>as u16\<close>
  are written out. The sink of the formatters is the vector the crate formats into, so
  \<open>write_all\<close> never fails.
\<close>

unbundle bit_operations_syntax

section \<open>Length format\<close>

datatype length_format = LengthU8 u8 | LengthU16 | LengthU64

definition for_length :: "nat \<Rightarrow> length_format" where
  "for_length len =
     (if len < 126 then LengthU8 (word_of_nat len)
      else if len < 65536 then LengthU16
      else LengthU64)"

fun extra_bytes :: "length_format \<Rightarrow> nat" where
  "extra_bytes (LengthU8 _) = 0"
| "extra_bytes LengthU16 = 2"
| "extra_bytes LengthU64 = 8"

fun length_byte :: "length_format \<Rightarrow> u8" where
  "length_byte (LengthU8 b) = b"
| "length_byte LengthU16 = 126"
| "length_byte LengthU64 = 127"

definition for_byte :: "u8 \<Rightarrow> length_format" where
  "for_byte byte =
     (let b = byte AND 0x7F in
      if b = 126 then LengthU16 else if b = 127 then LengthU64 else LengthU8 b)"

section \<open>Headers\<close>

definition default_header :: frame_header where
  "default_header = \<lparr>is_final = True, rsv1 = False, rsv2 = False, rsv3 = False,
     hdr_opcode = ControlOp CloseOp, hdr_mask = None\<rparr>"

definition header_max_size :: nat where
  "header_max_size = 14"

definition header_len :: "frame_header \<Rightarrow> nat \<Rightarrow> nat" where
  "header_len h len = 2 + extra_bytes (for_length len)
     + (if is_some (hdr_mask h) then 4 else 0)"

fun mask_bytes :: "mask4 \<Rightarrow> bytes" where
  "mask_bytes (m0, m1, m2, m3) = [m0, m1, m2, m3]"

definition first_byte :: "frame_header \<Rightarrow> u8" where
  "first_byte h = u8_from_opcode (hdr_opcode h) OR (if is_final h then 0x80 else 0)
     OR (if rsv1 h then 0x40 else 0) OR (if rsv2 h then 0x20 else 0) OR (if rsv3 h then 0x10 else 0)"

definition second_byte :: "frame_header \<Rightarrow> nat \<Rightarrow> u8" where
  "second_byte h len =
     length_byte (for_length len) OR (if is_some (hdr_mask h) then 0x80 else 0)"

definition header_format :: "frame_header \<Rightarrow> nat \<Rightarrow> bytes \<Rightarrow> bytes" where
  "header_format h len output =
     output @ [first_byte h, second_byte h len]
     @ (case for_length len of
          LengthU8 _ \<Rightarrow> []
        | LengthU16 \<Rightarrow> be_bytes 2 (len mod 2 ^ 16)
        | LengthU64 \<Rightarrow> be_bytes 8 len)
     @ (case hdr_mask h of Some m \<Rightarrow> mask_bytes m | None \<Rightarrow> [])"

definition header_set_random_mask :: "mask4 \<Rightarrow> frame_header \<Rightarrow> frame_header" where
  "header_set_random_mask m h = h\<lparr>hdr_mask := Some m\<rparr>"

text \<open>
  The parser reads from a cursor; its result comes with the number of bytes it consumed.
  \<open>Ok None\<close> is \<open>insufficient data\<close>. The \<open>assert!\<close> on the length's length and the panic
  of \<open>OpCode::from\<close> are branches.
\<close>

fun read_mask :: "bool \<Rightarrow> bytes \<Rightarrow> (mask4 option \<times> bytes) option" where
  "read_mask False bs = Some (None, bs)"
| "read_mask True (m0 # m1 # m2 # m3 # bs) = Some (Some (m0, m1, m2, m3), bs)"
| "read_mask True bs = None"

definition read_length :: "u8 \<Rightarrow> bytes \<Rightarrow> (nat \<times> bytes) option result" where
  "read_length second bs =
     (let length_byte = second AND 0x7F;
          length_length = extra_bytes (for_byte length_byte)
      in if length_length > 0 then
           (if length_length \<le> 8 then
              (if length bs < length_length then Ok None
               else Ok (Some (be_nat (replicate (8 - length_length) 0 @ take length_length bs),
                              drop length_length bs)))
            else Panic)
         else Ok (Some (unat length_byte, bs)))"

definition parse_internal :: "bytes \<Rightarrow> (frame_header \<times> nat) option result \<times> nat" where
  "parse_internal bs =
     (case bs of
        first # second # rest \<Rightarrow>
          (case (opcode_from_u8 (first AND 0x0F) :: opcode result, read_length second rest) of
             (Ok op, Ok (Some (len, rest1))) \<Rightarrow>
               (case read_mask (second AND 0x80 \<noteq> 0) rest1 of
                  Some (m, rest2) \<Rightarrow>
                    (if defined_opcode op
                     then (Ok (Some (\<lparr>is_final = first AND 0x80 \<noteq> 0, rsv1 = first AND 0x40 \<noteq> 0,
                                      rsv2 = first AND 0x20 \<noteq> 0, rsv3 = first AND 0x10 \<noteq> 0,
                                      hdr_opcode = op, hdr_mask = m\<rparr>, len)),
                           length bs - length rest2)
                     else (Err (Protocol (InvalidOpcode (first AND 0x0F))), length bs - length rest2))
                | None \<Rightarrow> (Ok None, length bs))
           | (Ok op, Ok None) \<Rightarrow> (Ok None, length bs)
           | (Ok op, Err e) \<Rightarrow> (Err e, length bs)
           | _ \<Rightarrow> (Panic, 2))
      | _ \<Rightarrow> (Ok None, length bs))"

text \<open>\<open>FrameHeader::parse\<close>: on insufficient data the cursor goes back to where it was.\<close>

definition header_parse :: "bytes \<times> nat \<Rightarrow> (frame_header \<times> nat) option result \<times> (bytes \<times> nat)" where
  "header_parse cursor =
     (let (data, initial) = cursor
      in case parse_internal (drop initial data) of
          (Ok None, _) \<Rightarrow> (Ok None, (data, initial))
        | (ret, consumed) \<Rightarrow> (ret, (data, initial + consumed)))"

section \<open>Frames\<close>

definition frame_len :: "frame \<Rightarrow> nat" where
  "frame_len f = header_len (header f) (length (payload f)) + length (payload f)"

definition frame_is_empty :: "frame \<Rightarrow> bool" where
  "frame_is_empty f \<longleftrightarrow> frame_len f = 0"

text \<open>What the caller of \<open>header_mut\<close> does to the header.\<close>

definition frame_header_mut :: "(frame_header \<Rightarrow> frame_header) \<Rightarrow> frame \<Rightarrow> frame" where
  "frame_header_mut g f = f\<lparr>header := g (header f)\<rparr>"

declare frame_header_mut_def [simp]

definition is_masked :: "frame \<Rightarrow> bool" where
  "is_masked f \<longleftrightarrow> is_some (hdr_mask (header f))"

definition set_random_mask :: "mask4 \<Rightarrow> frame \<Rightarrow> frame" where
  "set_random_mask m f = f\<lparr>header := header_set_random_mask m (header f)\<rparr>"

definition frame_into_text :: "frame \<Rightarrow> bytes result" where
  "frame_into_text f = utf8_try_from (payload f)"

definition frame_into_close :: "frame \<Rightarrow> close_frame option result" where
  "frame_into_close f =
     (case payload f of
        [] \<Rightarrow> Ok None
      | [_] \<Rightarrow> Err (Protocol InvalidCloseSequence)
      | b0 # b1 # rest \<Rightarrow>
          bind_out (utf8_try_from rest) (\<lambda>reason.
            Ok (Some \<lparr>cf_code = close_code_from_u16 (word_of_nat (be_nat [b0, b1])),
                      cf_reason = reason\<rparr>)))"

definition frame_message :: "bytes \<Rightarrow> opcode \<Rightarrow> bool \<Rightarrow> frame" where
  "frame_message data op fin =
     \<lparr>header = default_header\<lparr>is_final := fin, hdr_opcode := op\<rparr>, payload = data\<rparr>"

definition frame_pong :: "bytes \<Rightarrow> frame" where
  "frame_pong data = \<lparr>header = default_header\<lparr>hdr_opcode := ControlOp PongOp\<rparr>, payload = data\<rparr>"

definition frame_ping :: "bytes \<Rightarrow> frame" where
  "frame_ping data = \<lparr>header = default_header\<lparr>hdr_opcode := ControlOp PingOp\<rparr>, payload = data\<rparr>"

definition frame_close :: "close_frame option \<Rightarrow> frame" where
  "frame_close msg =
     (let p = (case msg of
                 Some cf \<Rightarrow> be_bytes 2 (unat (u16_from_close_code (cf_code cf))) @ cf_reason cf
               | None \<Rightarrow> [])
      in \<lparr>header = default_header, payload = p\<rparr>)"

definition frame_from_payload :: "frame_header \<Rightarrow> bytes \<Rightarrow> frame" where
  "frame_from_payload h p = \<lparr>header = h, payload = p\<rparr>"

definition frame_format :: "frame \<Rightarrow> bytes \<Rightarrow> bytes" where
  "frame_format f output =
     (let output1 = header_format (header f) (length (payload f)) output
      in case hdr_mask (header f) of
           Some m \<Rightarrow> output1 @ apply_mask m (payload f)
         | None \<Rightarrow> output1 @ payload f)"

text \<open>The payload is copied behind the header first and masked there.\<close>

definition format_into_buf :: "frame \<Rightarrow> bytes \<Rightarrow> bytes" where
  "format_into_buf f buf =
     (let buf1 = header_format (header f) (length (payload f)) buf;
          len = length buf1;
          buf2 = buf1 @ payload f
      in case hdr_mask (header f) of
           Some m \<Rightarrow> take len buf2 @ apply_mask m (drop len buf2)
         | None \<Rightarrow> buf2)"

section \<open>The wire form of a frame\<close>

definition wire_payload :: "frame \<Rightarrow> bytes" where
  "wire_payload f = (case hdr_mask (header f) of Some m \<Rightarrow> apply_mask m (payload f) | None \<Rightarrow> payload f)"

section \<open>Frames as text\<close>

definition frame_to_text :: "frame \<Rightarrow> utf8_check" where
  "frame_to_text f = from_utf8 (payload f)"

definition close_frame_display :: "close_frame \<Rightarrow> bytes" where
  "close_frame_display cf = cf_reason cf @ ascii '' ('' @ close_code_display (cf_code cf) @ ascii '')''"

definition bool_display :: "bool \<Rightarrow> bytes" where
  "bool_display b = (if b then ascii ''true'' else ascii ''false'')"

text \<open>The format \<open>{byte:02x}\<close>.\<close>

definition hex_digit :: "nat \<Rightarrow> u8" where
  "hex_digit n = (if n < 10 then 48 + word_of_nat n else 87 + word_of_nat n)"

definition hex_byte :: "u8 \<Rightarrow> bytes" where
  "hex_byte b = [hex_digit (unat b div 16), hex_digit (unat b mod 16)]"

definition frame_display :: "frame \<Rightarrow> bytes" where
  "frame_display f =
     [10] @ ascii ''<FRAME>'' @ [10]
     @ ascii ''final: '' @ bool_display (is_final (header f)) @ [10]
     @ ascii ''reserved: '' @ bool_display (rsv1 (header f)) @ [32] @ bool_display (rsv2 (header f)) @ [32]
     @ bool_display (rsv3 (header f)) @ [10]
     @ ascii ''opcode: '' @ opcode_display (hdr_opcode (header f)) @ [10]
     @ ascii ''length: '' @ decimal (frame_len f) @ [10]
     @ ascii ''payload length: '' @ decimal (length (payload f)) @ [10]
     @ ascii ''payload: 0x'' @ concat (map hex_byte (payload f)) @ [10]
     @ ascii ''            ''"

section \<open>The wire form\<close>

definition wire :: "frame \<Rightarrow> bytes" where
  "wire f = header_format (header f) (length (payload f)) [] @ wire_payload f"

lemma length_mask_bytes [simp]: "length (mask_bytes m) = 4"
  by (cases m) simp

lemma length_wire_payload [simp]: "length (wire_payload f) = length (payload f)"
  by (simp add: wire_payload_def split: option.split)

lemma header_format_append: "header_format h n out = out @ header_format h n []"
  by (simp add: header_format_def)

lemma format_into_buf_wire: "format_into_buf f buf = buf @ wire f"
  by (simp add: format_into_buf_def wire_def wire_payload_def Let_def
      header_format_append [of _ _ buf] split: option.split)

lemma frame_format_wire: "frame_format f buf = buf @ wire f"
  by (simp add: frame_format_def wire_def wire_payload_def Let_def
      header_format_append [of _ _ buf] split: option.split)

lemma length_header_format: "length (header_format h n []) = header_len h n"
  by (simp add: header_format_def header_len_def split: option.split length_format.split)

lemma length_wire: "length (wire f) = frame_len f"
  by (simp add: wire_def frame_len_def length_header_format)

lemma header_len_bounds: "2 \<le> header_len h n \<and> header_len h n \<le> header_max_size"
  by (simp add: header_len_def header_max_size_def for_length_def)

end
