(* ===== verification/Message.thy ===== *)
theory Message
  imports Frame
begin

text \<open>
  Messages, \<open>src/src/protocol/message.rs\<close>: the string collector that decodes text whose
  fragments may split a character, the collector of an incomplete message with its size
  limit, and the conversions of complete messages.
\<close>

section \<open>The string collector\<close>

record string_collector =
  sc_data :: bytes
  sc_incomplete :: "incomplete option"

definition sc_new :: string_collector where
  "sc_new = \<lparr>sc_data = [], sc_incomplete = None\<rparr>"

definition sc_len :: "string_collector \<Rightarrow> nat" where
  "sc_len c = sat_add (length (sc_data c))
     (case sc_incomplete c of Some i \<Rightarrow> ibuf_len i | None \<Rightarrow> 0)"

text \<open>The second half of \<open>extend\<close>: decode what is left of the input.\<close>

definition sc_extend_rest :: "string_collector \<Rightarrow> bytes \<Rightarrow> unit result \<times> string_collector" where
  "sc_extend_rest c input =
     (if input \<noteq> [] then
        (case decode input of
           Ok text \<Rightarrow> (Ok (), c\<lparr>sc_data := sc_data c @ text\<rparr>)
         | Err (DecodeIncomplete valid_prefix incomplete_suffix) \<Rightarrow>
             (Ok (), c\<lparr>sc_data := sc_data c @ valid_prefix, sc_incomplete := Some incomplete_suffix\<rparr>)
         | Err (DecodeInvalid valid_prefix invalid_sequence _) \<Rightarrow>
             (Err (Utf8 (FromLossy invalid_sequence)), c\<lparr>sc_data := sc_data c @ valid_prefix\<rparr>)
         | Panic \<Rightarrow> (Panic, c))
      else (Ok (), c))"

definition sc_extend :: "string_collector \<Rightarrow> bytes \<Rightarrow> unit result \<times> string_collector" where
  "sc_extend c tail =
     (case sc_incomplete c of
        None \<Rightarrow> sc_extend_rest c tail
      | Some i \<Rightarrow>
          (let c1 = c\<lparr>sc_incomplete := None\<rparr> in
           case try_complete i tail :: completed option result \<times> incomplete of
             (Ok (Some done), _) \<Rightarrow>
               (case cresult done of
                  Inr text \<Rightarrow> sc_extend_rest (c1\<lparr>sc_data := sc_data c1 @ text\<rparr>) (cremaining done)
                | Inl result_bytes \<Rightarrow> (Err (Utf8 (FromLossy result_bytes)), c1))
           | (Ok None, i') \<Rightarrow> sc_extend_rest (c1\<lparr>sc_incomplete := Some i'\<rparr>) []
           | (Err e, _) \<Rightarrow> (Err e, c1)
           | (Panic, _) \<Rightarrow> (Panic, c1)))"

definition sc_into_string :: "string_collector \<Rightarrow> bytes result" where
  "sc_into_string c =
     (case sc_incomplete c of
        Some i \<Rightarrow> Err (Utf8 (IncompleteString (take (ibuf_len i) (ibuf i))))
      | None \<Rightarrow> Ok (sc_data c))"

section \<open>Incomplete messages\<close>

datatype collector = TextCollector string_collector | BinaryCollector bytes

record incomplete_message =
  im_collector :: collector

datatype message_type = MessageText | MessageBinary

definition im_new :: "message_type \<Rightarrow> incomplete_message" where
  "im_new t = \<lparr>im_collector = (case t of MessageBinary \<Rightarrow> BinaryCollector []
                                | MessageText \<Rightarrow> TextCollector sc_new)\<rparr>"

definition im_len :: "incomplete_message \<Rightarrow> nat" where
  "im_len m = (case im_collector m of TextCollector t \<Rightarrow> sc_len t | BinaryCollector b \<Rightarrow> length b)"

text \<open>
  The addition in the error cannot overflow: both operands are sizes of live allocations.
\<close>

definition im_extend ::
  "incomplete_message \<Rightarrow> bytes \<Rightarrow> nat option \<Rightarrow> unit result \<times> incomplete_message" where
  "im_extend m tail size_limit =
     (let max_size = (case size_limit of Some n \<Rightarrow> n | None \<Rightarrow> usize_max);
          my_size = im_len m;
          portion_size = length tail
      in if my_size > max_size \<or> portion_size > max_size - my_size
         then (Err (Capacity (MessageTooLong (my_size + portion_size) max_size)), m)
         else case im_collector m of
             BinaryCollector v \<Rightarrow> (Ok (), m\<lparr>im_collector := BinaryCollector (v @ tail)\<rparr>)
           | TextCollector t \<Rightarrow>
               (case sc_extend t tail of (r, t') \<Rightarrow> (r, m\<lparr>im_collector := TextCollector t'\<rparr>)))"

definition im_complete :: "incomplete_message \<Rightarrow> message result" where
  "im_complete m =
     (case im_collector m of
        BinaryCollector v \<Rightarrow> Ok (Binary v)
      | TextCollector t \<Rightarrow> bind_out (sc_into_string t) (\<lambda>text. Ok (Text text)))"

section \<open>Complete messages\<close>

definition message_text :: "bytes \<Rightarrow> message" where
  "message_text s = Text s"

definition message_binary :: "bytes \<Rightarrow> message" where
  "message_binary data = Binary data"

fun is_text :: "message \<Rightarrow> bool" where
  "is_text (Text _) \<longleftrightarrow> True" | "is_text _ \<longleftrightarrow> False"

fun is_binary :: "message \<Rightarrow> bool" where
  "is_binary (Binary _) \<longleftrightarrow> True" | "is_binary _ \<longleftrightarrow> False"

fun is_ping :: "message \<Rightarrow> bool" where
  "is_ping (Ping _) \<longleftrightarrow> True" | "is_ping _ \<longleftrightarrow> False"

fun is_pong :: "message \<Rightarrow> bool" where
  "is_pong (Pong _) \<longleftrightarrow> True" | "is_pong _ \<longleftrightarrow> False"

fun is_close :: "message \<Rightarrow> bool" where
  "is_close (Close _) \<longleftrightarrow> True" | "is_close _ \<longleftrightarrow> False"

fun message_len :: "message \<Rightarrow> nat" where
  "message_len (Text string) = length string"
| "message_len (Binary data) = length data"
| "message_len (Ping data) = length data"
| "message_len (Pong data) = length data"
| "message_len (Close data) = (case data of Some d \<Rightarrow> length (cf_reason d) | None \<Rightarrow> 0)"
| "message_len (RawFrame f) = frame_len f"

definition message_is_empty :: "message \<Rightarrow> bool" where
  "message_is_empty m \<longleftrightarrow> message_len m = 0"

fun into_data :: "message \<Rightarrow> bytes" where
  "into_data (Text utf8) = utf8"
| "into_data (Binary data) = data"
| "into_data (Ping data) = data"
| "into_data (Pong data) = data"
| "into_data (Close None) = []"
| "into_data (Close (Some f)) = cf_reason f"
| "into_data (RawFrame f) = payload f"

fun into_text :: "message \<Rightarrow> bytes result" where
  "into_text (Text txt) = Ok txt"
| "into_text (Binary data) = utf8_try_from data"
| "into_text (Ping data) = utf8_try_from data"
| "into_text (Pong data) = utf8_try_from data"
| "into_text (Close None) = Ok []"
| "into_text (Close (Some f)) = Ok (cf_reason f)"
| "into_text (RawFrame f) = frame_into_text f"

fun to_text :: "message \<Rightarrow> bytes result" where
  "to_text (Text string) = Ok string"
| "to_text (Binary data) = utf8_try_from data"
| "to_text (Ping data) = utf8_try_from data"
| "to_text (Pong data) = utf8_try_from data"
| "to_text (Close None) = Ok []"
| "to_text (Close (Some f)) = Ok (cf_reason f)"
| "to_text (RawFrame f) = utf8_try_from (payload f)"

definition message_display :: "message \<Rightarrow> bytes" where
  "message_display m =
     (case to_text m of
        Ok string \<Rightarrow> string
      | _ \<Rightarrow> ascii ''Binary Data<length='' @ decimal (message_len m) @ ascii ''>'')"

lemma into_text_to_text: "into_text m = to_text m"
  by (cases m rule: into_text.cases) (simp_all add: frame_into_text_def)

section \<open>Contract of a collector\<close>

text \<open>
  A collector receives a message in fragments. \<open>contents\<close> is what it has received;
  \<open>hopeless\<close> says that some bytes cannot be the beginning of a message. The laws speak of
  one \<open>ext\<close>; the lemmas of the locale lift them to any sequence of fragments.
\<close>

fun extend_all :: "('c \<Rightarrow> bytes \<Rightarrow> unit result \<times> 'c) \<Rightarrow> 'c \<Rightarrow> bytes list \<Rightarrow> unit result \<times> 'c" where
  "extend_all ext c [] = (Ok (), c)"
| "extend_all ext c (t # ts) = and_then (ext c t) (\<lambda>_ c'. extend_all ext c' ts)"

locale fragment_collector =
  fixes inv :: "'c \<Rightarrow> bool"
    and contents :: "'c \<Rightarrow> bytes"
    and hopeless :: "bytes \<Rightarrow> bool"
    and ext :: "'c \<Rightarrow> bytes \<Rightarrow> unit result \<times> 'c"
  assumes ext_Ok: "inv c \<Longrightarrow> ext c t = (Ok (), c') \<Longrightarrow>
      inv c' \<and> contents c' = contents c @ t \<and> \<not> hopeless (contents c @ t)"
    and ext_Err: "inv c \<Longrightarrow> ext c t = (Err e, c') \<Longrightarrow> hopeless (contents c @ t)"
    and ext_no_panic: "inv c \<Longrightarrow> fst (ext c t) \<noteq> Panic"
    and hopeless_append: "hopeless bs \<Longrightarrow> hopeless (bs @ cs)"
begin

lemma ext_cases:
  assumes "inv c"
  obtains c' where "ext c t = (Ok (), c')" "inv c'" "contents c' = contents c @ t"
      "\<not> hopeless (contents c @ t)"
  | e c' where "ext c t = (Err e, c')" "hopeless (contents c @ t)"
proof -
  obtain r c' where r: "ext c t = (r, c')" by fastforce
  show thesis
  proof (cases r)
    case (Ok u)
    then have "ext c t = (Ok (), c')" using r by simp
    with ext_Ok [OF assms this] show thesis using that(1) by blast
  next
    case (Err e)
    with r ext_Err [OF assms] show thesis using that(2) by blast
  next
    case Panic
    with r ext_no_panic [OF assms, of t] show thesis by simp
  qed
qed

lemma extend_all_spec:
  assumes "inv c"
  shows "case extend_all ext c ts of
      (Ok u, c') \<Rightarrow> inv c' \<and> contents c' = contents c @ concat ts
    | (Err e, c') \<Rightarrow> hopeless (contents c @ concat ts)
    | (Panic, c') \<Rightarrow> False"
  using assms
proof (induction ts arbitrary: c)
  case Nil
  then show ?case by simp
next
  case (Cons t ts)
  show ?case
  proof (cases rule: ext_cases [OF Cons.prems, of t])
    case (1 c')
    then show ?thesis
      using Cons.IH [OF 1(2)] by (simp split: prod.splits outcome.splits)
  next
    case (2 e c')
    then show ?thesis using hopeless_append [OF 2(2)] by simp
  qed
qed

lemma extend_all_Ok_iff:
  assumes "inv c" and "\<not> hopeless (contents c)"
  shows "(\<exists>c'. extend_all ext c ts = (Ok (), c')) \<longleftrightarrow> \<not> hopeless (contents c @ concat ts)"
  using assms
proof (induction ts arbitrary: c)
  case Nil
  then show ?case by simp
next
  case (Cons t ts)
  show ?case
  proof (cases rule: ext_cases [OF Cons.prems(1), of t])
    case (1 c')
    then show ?thesis using Cons.IH [OF 1(2)] by simp
  next
    case (2 e c')
    then show ?thesis using hopeless_append [OF 2(2)] by simp
  qed
qed

end

section \<open>The string collector meets the contract\<close>

definition pending :: "incomplete \<Rightarrow> bytes" where
  "pending i = take (ibuf_len i) (ibuf i)"

definition incomplete_inv :: "incomplete \<Rightarrow> bool" where
  "incomplete_inv i \<longleftrightarrow> length (ibuf i) = 4 \<and> 0 < ibuf_len i \<and> ibuf_len i \<le> 3 \<and>
     utf8_head (pending i) = Truncated"

definition sc_contents :: "string_collector \<Rightarrow> bytes" where
  "sc_contents c = sc_data c @ (case sc_incomplete c of Some i \<Rightarrow> pending i | None \<Rightarrow> [])"

definition sc_inv :: "string_collector \<Rightarrow> bool" where
  "sc_inv c \<longleftrightarrow> valid_utf8 (sc_data c) \<and>
     (case sc_incomplete c of Some i \<Rightarrow> incomplete_inv i | None \<Rightarrow> True)"

definition hopeless_utf8 :: "bytes \<Rightarrow> bool" where
  "hopeless_utf8 bs \<longleftrightarrow> (\<exists>v w k. bs = v @ w \<and> valid_utf8 v \<and> utf8_head w = BadLen k)"

lemma hopeless_utf8I: "valid_utf8 v \<Longrightarrow> utf8_head w = BadLen k \<Longrightarrow> hopeless_utf8 (v @ w)"
  by (auto simp: hopeless_utf8_def)

lemma hopeless_utf8_append: "hopeless_utf8 bs \<Longrightarrow> hopeless_utf8 (bs @ cs)"
  unfolding hopeless_utf8_def by (metis append_assoc utf8_head_BadLen_append)

lemma hopeless_not_valid: "hopeless_utf8 bs \<Longrightarrow> \<not> valid_utf8 bs"
  unfolding hopeless_utf8_def using valid_utf8_BadLen [of _ _ _ "[]"] by auto

lemma from_utf8_hopeless:
  "hopeless_utf8 bs \<longleftrightarrow> (\<exists>n k. from_utf8 bs = Invalid n (Some k))"
proof
  assume "hopeless_utf8 bs"
  then obtain v w k where bs: "bs = v @ w" "valid_utf8 v" "utf8_head w = BadLen k"
    by (auto simp: hopeless_utf8_def)
  then have "w \<noteq> []" by (auto simp: utf8_head_def)
  then have "from_utf8 w = Invalid 0 (Some k)" using bs(3) by (simp add: from_utf8_unfold)
  then show "\<exists>n k. from_utf8 bs = Invalid n (Some k)"
    using bs by (simp add: from_utf8_valid_append)
next
  assume "\<exists>n k. from_utf8 bs = Invalid n (Some k)"
  then obtain n k where "from_utf8 bs = Invalid n (Some k)" by blast
  from from_utf8_InvalidD [OF this] show "hopeless_utf8 bs"
    using hopeless_utf8I [of "take n bs" "drop n bs" k] by simp
qed

lemma incomplete_pending:
  assumes "incomplete_inv i"
  shows "pending i \<noteq> []" "utf8_head (pending i) = Truncated" "from_utf8 (pending i) = Invalid 0 None"
proof -
  show ne: "pending i \<noteq> []" and tr: "utf8_head (pending i) = Truncated"
    using assms by (auto simp: incomplete_inv_def pending_def)
  show "from_utf8 (pending i) = Invalid 0 None" by (simp add: from_utf8_unfold ne tr)
qed

lemma incomplete_new_ok:
  assumes "utf8_head bs = Truncated" "bs \<noteq> []"
  obtains i where "incomplete_new bs = (Ok i :: ('e, incomplete) outcome)" "incomplete_inv i" "pending i = bs"
proof -
  have "length bs \<le> 3" using utf8_head_Truncated_length [OF assms(1)] .
  then show ?thesis
    using that assms by (simp add: incomplete_new_def incomplete_inv_def pending_def)
qed

text \<open>The tail of \<open>extend\<close> when no character is pending.\<close>

lemma sc_extend_rest_spec:
  assumes inv: "sc_inv c" and none: "sc_incomplete c = None"
  shows "case sc_extend_rest c input of
      (Ok u, c') \<Rightarrow> sc_inv c' \<and> sc_contents c' = sc_contents c @ input \<and> \<not> hopeless_utf8 (sc_contents c @ input)
    | (Err e, c') \<Rightarrow> hopeless_utf8 (sc_contents c @ input)
    | (Panic, c') \<Rightarrow> False"
proof (cases "input = []")
  case True
  then show ?thesis
    using inv none by (auto simp: sc_extend_rest_def sc_contents_def sc_inv_def dest: hopeless_not_valid)
next
  case False
  have v: "valid_utf8 (sc_data c)" and cont: "sc_contents c = sc_data c"
    using inv none by (simp_all add: sc_inv_def sc_contents_def)
  have hope: "hopeless_utf8 (sc_contents c @ input) \<longleftrightarrow> hopeless_utf8 input"
  proof -
    have "from_utf8 (sc_data c @ input) = shift_check (length (sc_data c)) (from_utf8 input)"
      by (rule from_utf8_valid_append) (fact v)
    then show ?thesis by (cases "from_utf8 input") (simp_all add: from_utf8_hopeless cont)
  qed
  show ?thesis
  proof (cases "from_utf8 input")
    case Valid
    then have "valid_utf8 input" by (simp add: valid_utf8_def)
    then show ?thesis
      using False none v Valid hope hopeless_not_valid
      by (auto simp: sc_extend_rest_def decode_def sc_inv_def sc_contents_def valid_utf8_append cont)
  next
    case (Invalid n e)
    note d = from_utf8_InvalidD [OF Invalid]
    show ?thesis
    proof (cases e)
      case (Some k)
      then have "hopeless_utf8 input" using Invalid from_utf8_hopeless by blast
      then show ?thesis
        using False Invalid Some hope by (simp add: sc_extend_rest_def decode_def)
    next
      case None
      then obtain i where i: "incomplete_new (drop n input) = (Ok i :: (decode_error, incomplete) outcome)"
          "incomplete_inv i" "pending i = drop n input"
        using d incomplete_new_ok [of "drop n input"] by auto
      have "\<not> hopeless_utf8 input" using Invalid None from_utf8_hopeless by auto
      then show ?thesis
        using False Invalid None i d v hope
        by (simp add: sc_extend_rest_def decode_def sc_inv_def sc_contents_def cont valid_utf8_append none)
    qed
  qed
qed

text \<open>Resuming a pending character.\<close>

lemma valid_take_head:
  assumes "valid_utf8 (take n xs)" "0 < n" "xs \<noteq> []"
  obtains k where "utf8_head xs = CharLen k" "k \<le> n"
proof -
  have "take n xs \<noteq> []" using assms by simp
  then obtain k where k: "utf8_head (take n xs) = CharLen k"
    using assms(1) by (auto simp: valid_utf8_cons)
  have "utf8_head (take n xs @ drop n xs) = CharLen k" by (rule utf8_head_CharLen_append) (fact k)
  then show thesis using that [of k] utf8_head_CharLen [OF k] by simp
qed

definition spliced :: "incomplete \<Rightarrow> bytes \<Rightarrow> bytes" where
  "spliced i input = pending i @ take (4 - ibuf_len i) input"

definition splice_into :: "incomplete \<Rightarrow> bytes \<Rightarrow> nat \<Rightarrow> incomplete" where
  "splice_into i input n = i\<lparr>ibuf := spliced i input @ drop (length (spliced i input)) (ibuf i), ibuf_len := n\<rparr>"

lemma splice_into_simps [simp]:
  "ibuf_len (splice_into i input n) = n"
  "ibuf (splice_into i input n) = spliced i input @ drop (length (spliced i input)) (ibuf i)"
  by (simp_all add: splice_into_def)

lemma pending_splice_into:
  "n \<le> length (spliced i input) \<Longrightarrow> pending (splice_into i input n) = take n (spliced i input)"
  by (simp add: pending_def)

lemma try_complete_offsets_eq:
  assumes "length (ibuf i) = 4" "ibuf_len i \<le> 4"
  shows "try_complete_offsets i input =
     (case from_utf8 (spliced i input) of
        Valid \<Rightarrow> (Ok (min (4 - ibuf_len i) (length input), Some True),
                  splice_into i input (length (spliced i input)))
      | Invalid n e \<Rightarrow>
          (if 0 < n then
             (if ibuf_len i \<le> n then (Ok (n - ibuf_len i, Some True), splice_into i input n)
              else (Panic, splice_into i input (ibuf_len i)))
           else (case e of
               Some k \<Rightarrow> (if ibuf_len i \<le> k then (Ok (k - ibuf_len i, Some False), splice_into i input k)
                  else (Panic, splice_into i input (ibuf_len i)))
             | None \<Rightarrow> (Ok (min (4 - ibuf_len i) (length input), None),
                 splice_into i input (length (spliced i input))))))"
proof -
  have s: "take (ibuf_len i) (ibuf i) @
      take (min (length (ibuf i) - ibuf_len i) (length input)) input = spliced i input"
    using assms by (simp add: spliced_def pending_def min_def)
  show ?thesis
    unfolding try_complete_offsets_def Let_def s
    using assms by (simp add: splice_into_def split: utf8_check.split option.split)
qed

lemma try_complete_spec:
  assumes inv: "incomplete_inv i"
  shows "case (try_complete i input :: ('e, completed option) outcome \<times> incomplete) of
      (Ok (Some d), i') \<Rightarrow>
        (case cresult d of
           Inr text \<Rightarrow> valid_utf8 text \<and> text @ cremaining d = pending i @ input
         | Inl bad \<Rightarrow> hopeless_utf8 (pending i @ input))
    | (Ok None, i') \<Rightarrow> incomplete_inv i' \<and> pending i' = pending i @ input
    | (Err e, i') \<Rightarrow> False
    | (Panic, i') \<Rightarrow> False"
proof -
  let ?len = "ibuf_len i" and ?s = "spliced i input"
  have len: "0 < ?len" "?len \<le> 3" "length (ibuf i) = 4" "length (pending i) = ?len"
    and trunc: "utf8_head (pending i) = Truncated" and ne: "pending i \<noteq> []"
    using inv by (auto simp: incomplete_inv_def pending_def)
  have splen: "length ?s = ?len + min (4 - ?len) (length input)" "?s \<noteq> []"
    using len ne by (simp_all add: spliced_def)
  have split: "pending i @ input = ?s @ drop (4 - ?len) input" by (simp add: spliced_def)
  note offs = try_complete_offsets_eq [OF len(3) order_trans [OF len(2)], simplified, of input]
  show ?thesis
  proof (cases "from_utf8 ?s")
    case Valid
    then have "?s @ drop (4 - ?len) input = pending i @ input" "valid_utf8 ?s"
      using split by (simp_all add: valid_utf8_def)
    moreover have "(try_complete_offsets i input :: ('e, _) outcome \<times> _) =
        (Ok (min (4 - ?len) (length input), Some True), splice_into i input (length ?s))"
      by (simp add: offs Valid)
    ultimately show ?thesis
      using len splen by (auto simp: try_complete_def take_buffer_def min_def)
  next
    case (Invalid n e)
    note d = from_utf8_InvalidD [OF Invalid]
    show ?thesis
    proof (cases "0 < n")
      case True
      have "valid_utf8 (take n ?s)" using d by simp
      then obtain k where "utf8_head ?s = CharLen k" "k \<le> n"
        using True splen(2) by (rule valid_take_head)
      then have n: "?len < n" "n < length ?s"
        using utf8_head_Truncated_CharLen [OF trunc, of "take (4 - ?len) input" k] d len(4)
        by (simp_all add: spliced_def)
      have "take n ?s @ drop (n - ?len) input = pending i @ input"
        using n len(4) splen(1)
        by (simp add: spliced_def)
      then show ?thesis
        using n len splen d True by (auto simp: try_complete_def offs Invalid take_buffer_def)
    next
      case False
      then have n0: "n = 0" by simp
      show ?thesis
      proof (cases e)
        case (Some k)
        then have bad: "utf8_head ?s = BadLen k" using d n0 by simp
        then have k: "?len \<le> k" "k \<le> length ?s"
          using utf8_head_Truncated_BadLen [OF ne trunc, of "take (4 - ?len) input" k]
            utf8_head_BadLen_le [OF bad] len(4) by (simp_all add: spliced_def)
        have "hopeless_utf8 (pending i @ input)"
          using hopeless_utf8I [of "[]" "?s @ drop (4 - ?len) input" k] utf8_head_BadLen_append [OF bad]
          by (simp add: split)
        then show ?thesis
          using Some n0 k splen by (simp add: try_complete_def offs Invalid take_buffer_def)
      next
        case None
        then have tr: "utf8_head ?s = Truncated" using d n0 by simp
        then have three: "length ?s \<le> 3" by (rule utf8_head_Truncated_length)
        then have "?s = pending i @ input" using splen(1) len(2) by (simp add: spliced_def min_def split: if_splits)
        moreover have "(try_complete_offsets i input :: ('e, _) outcome \<times> _) =
            (Ok (min (4 - ?len) (length input), None), splice_into i input (length ?s))"
          by (simp add: offs Invalid None n0)
        moreover have "incomplete_inv (splice_into i input (length ?s))"
          using tr three splen len by (simp add: incomplete_inv_def pending_splice_into)
        ultimately show ?thesis
          by (simp add: try_complete_def pending_splice_into)
      qed
    qed
  qed
qed

text \<open>\<open>extend\<close> as a whole.\<close>

lemma sc_extend_spec:
  assumes inv: "sc_inv c"
  shows "case sc_extend c input of
      (Ok u, c') \<Rightarrow> sc_inv c' \<and> sc_contents c' = sc_contents c @ input \<and> \<not> hopeless_utf8 (sc_contents c @ input)
    | (Err e, c') \<Rightarrow> hopeless_utf8 (sc_contents c @ input)
    | (Panic, c') \<Rightarrow> False"
proof (cases "sc_incomplete c")
  case None
  then show ?thesis using sc_extend_rest_spec [OF inv None, of input] by (simp add: sc_extend_def)
next
  case (Some i)
  then have v: "valid_utf8 (sc_data c)" and i: "incomplete_inv i"
    and cont: "sc_contents c = sc_data c @ pending i"
    using inv by (simp_all add: sc_inv_def sc_contents_def)
  note spec = try_complete_spec [OF i, of input, where ?'e = error]
  obtain r i' where t: "(try_complete i input :: completed option result \<times> incomplete) = (r, i')"
    by fastforce
  show ?thesis
  proof (cases r)
    case (Ok opt)
    show ?thesis
    proof (cases opt)
      case None
      then have i': "incomplete_inv i'" "pending i' = pending i @ input"
        using spec t Ok by simp_all
      have "\<not> hopeless_utf8 (sc_data c @ pending i @ input)"
      proof -
        have "from_utf8 (pending i') = Invalid 0 None" by (rule incomplete_pending(3)) (fact i'(1))
        then have "from_utf8 (sc_data c @ pending i') = Invalid (length (sc_data c)) None"
          using v by (simp add: from_utf8_valid_append)
        then show ?thesis by (simp add: from_utf8_hopeless i'(2))
      qed
      then show ?thesis
        using t Ok None Some i' v cont
        by (simp add: sc_extend_def sc_extend_rest_def sc_inv_def sc_contents_def)
    next
      case (Some d)
      show ?thesis
      proof (cases "cresult d")
        case (Inr good)
        then have good: "valid_utf8 good" "good @ cremaining d = pending i @ input"
          using spec t Ok Some by simp_all
        let ?c = "c\<lparr>sc_incomplete := None, sc_data := sc_data c @ good\<rparr>"
        have "sc_inv ?c" using v good(1) by (simp add: sc_inv_def valid_utf8_append)
        moreover have "sc_contents ?c @ cremaining d = sc_contents c @ input"
          using good(2) by (simp add: cont) (simp add: sc_contents_def)
        ultimately show ?thesis
          using sc_extend_rest_spec [of ?c "cremaining d"] t Ok Some Inr \<open>sc_incomplete c = Some i\<close>
          by (simp add: sc_extend_def split: prod.splits outcome.splits)
      next
        case (Inl bad)
        then have "hopeless_utf8 (pending i @ input)" using spec t Ok Some by simp
        then obtain n k where "from_utf8 (pending i @ input) = Invalid n (Some k)"
          by (auto simp: from_utf8_hopeless)
        then have "hopeless_utf8 (sc_contents c @ input)"
          using v by (simp add: from_utf8_hopeless cont from_utf8_valid_append)
        then show ?thesis
          using t Ok Some Inl \<open>sc_incomplete c = Some i\<close> by (simp add: sc_extend_def)
      qed
    qed
  qed (use spec t in simp_all)
qed

interpretation sc: fragment_collector sc_inv sc_contents hopeless_utf8 sc_extend
proof unfold_locales
  show "sc_inv c' \<and> sc_contents c' = sc_contents c @ t \<and> \<not> hopeless_utf8 (sc_contents c @ t)"
    if "sc_inv c" "sc_extend c t = (Ok (), c')" for c t c'
    using sc_extend_spec [OF that(1), of t] that(2) by simp
  show "hopeless_utf8 (sc_contents c @ t)" if "sc_inv c" "sc_extend c t = (Err e, c')" for c t e c'
    using sc_extend_spec [OF that(1), of t] that(2) by simp
  show "fst (sc_extend c t) \<noteq> Panic" if "sc_inv c" for c t
    using sc_extend_spec [OF that, of t] by (auto split: prod.splits)
qed (rule hopeless_utf8_append)

lemma sc_new_inv [simp]: "sc_inv sc_new" "sc_contents sc_new = []"
  by (simp_all add: sc_inv_def sc_new_def sc_contents_def)

lemma sc_into_string_spec:
  assumes "sc_inv c"
  shows "sc_into_string c =
    (if valid_utf8 (sc_contents c) then Ok (sc_contents c)
     else Err (Utf8 (IncompleteString (case sc_incomplete c of Some i \<Rightarrow> pending i | None \<Rightarrow> []))))"
proof (cases "sc_incomplete c")
  case None
  then show ?thesis using assms by (simp add: sc_into_string_def sc_inv_def sc_contents_def)
next
  case (Some i)
  then have "\<not> valid_utf8 (pending i)" "valid_utf8 (sc_data c)"
    using assms incomplete_pending [of i] by (auto simp: sc_inv_def valid_utf8_def)
  then show ?thesis
    using Some by (simp add: sc_into_string_def sc_contents_def valid_utf8_append pending_def)
qed

lemma sc_len_le: "sc_inv c \<Longrightarrow> sc_len c = min (length (sc_contents c)) usize_max"
  by (auto simp: sc_len_def sc_contents_def sc_inv_def incomplete_inv_def pending_def sat_add_def
      split: option.split)

section \<open>Incomplete messages meet the contract\<close>

text \<open>
  With a size limit in force, a beginning is hopeless when it is longer than the limit or,
  for text, when it holds an invalid sequence.
\<close>

definition im_contents :: "incomplete_message \<Rightarrow> bytes" where
  "im_contents m = (case im_collector m of TextCollector t \<Rightarrow> sc_contents t | BinaryCollector b \<Rightarrow> b)"

definition im_is_text :: "incomplete_message \<Rightarrow> bool" where
  "im_is_text m = (case im_collector m of TextCollector t \<Rightarrow> True | BinaryCollector b \<Rightarrow> False)"

definition im_max :: "nat option \<Rightarrow> nat" where
  "im_max size_limit = (case size_limit of Some n \<Rightarrow> n | None \<Rightarrow> usize_max)"

definition im_inv :: "bool \<Rightarrow> nat option \<Rightarrow> incomplete_message \<Rightarrow> bool" where
  "im_inv is_txt size_limit m \<longleftrightarrow> im_is_text m = is_txt \<and> length (im_contents m) \<le> im_max size_limit \<and>
     (case im_collector m of TextCollector t \<Rightarrow> sc_inv t | BinaryCollector b \<Rightarrow> True)"

definition im_hopeless :: "bool \<Rightarrow> nat option \<Rightarrow> bytes \<Rightarrow> bool" where
  "im_hopeless is_txt size_limit bs \<longleftrightarrow> length bs > im_max size_limit \<or> (is_txt \<and> hopeless_utf8 bs)"

lemma im_extend_spec:
  assumes inv: "im_inv is_txt size_limit m" and fits: "im_max size_limit \<le> usize_max"
  shows "case im_extend m tail size_limit of
      (Ok u, m') \<Rightarrow> im_inv is_txt size_limit m' \<and> im_contents m' = im_contents m @ tail \<and>
        \<not> im_hopeless is_txt size_limit (im_contents m @ tail)
    | (Err e, m') \<Rightarrow> im_hopeless is_txt size_limit (im_contents m @ tail)
    | (Panic, m') \<Rightarrow> False"
proof (cases "im_collector m")
  case (BinaryCollector v)
  then show ?thesis
    using inv by (auto simp: im_inv_def im_extend_def im_hopeless_def im_contents_def im_is_text_def
        im_len_def im_max_def [symmetric] Let_def)
next
  case (TextCollector t)
  have t: "sc_inv t" "is_txt" "length (sc_contents t) \<le> im_max size_limit" "im_contents m = sc_contents t"
    using inv TextCollector by (auto simp: im_inv_def im_is_text_def im_contents_def)
  have l: "im_len m = length (sc_contents t)"
    using t fits TextCollector by (simp add: im_len_def sc_len_le)
  show ?thesis
  proof (cases "length tail > im_max size_limit - length (sc_contents t)")
    case True
    then show ?thesis
      using t by (auto simp: im_extend_def im_hopeless_def im_max_def [symmetric] l Let_def)
  next
    case False
    obtain r t' where e: "sc_extend t tail = (r, t')" by fastforce
    from sc_extend_spec [OF t(1), of tail] show ?thesis
      using False t e TextCollector
      by (cases r)
        (auto simp: im_extend_def im_hopeless_def im_max_def [symmetric] l Let_def im_inv_def
          im_is_text_def im_contents_def)
  qed
qed

definition limit_ok :: "nat option \<Rightarrow> bool" where
  "limit_ok size_limit \<longleftrightarrow> im_max size_limit \<le> usize_max"

interpretation im: fragment_collector
  "\<lambda>m. im_inv is_txt size_limit m \<and> limit_ok size_limit" im_contents "im_hopeless is_txt size_limit"
  "\<lambda>m tail. im_extend m tail size_limit" for is_txt size_limit
proof unfold_locales
  note spec = im_extend_spec [of is_txt size_limit]
  show "(im_inv is_txt size_limit m' \<and> limit_ok size_limit) \<and> im_contents m' = im_contents m @ t \<and>
      \<not> im_hopeless is_txt size_limit (im_contents m @ t)"
    if "im_inv is_txt size_limit m \<and> limit_ok size_limit" "im_extend m t size_limit = (Ok (), m')" for m t m'
    using spec [of m t] that by (simp add: limit_ok_def)
  show "im_hopeless is_txt size_limit (im_contents m @ t)"
    if "im_inv is_txt size_limit m \<and> limit_ok size_limit" "im_extend m t size_limit = (Err e, m')" for m t e m'
    using spec [of m t] that by (simp add: limit_ok_def)
  show "fst (im_extend m t size_limit) \<noteq> Panic"
    if "im_inv is_txt size_limit m \<and> limit_ok size_limit" for m t
    using spec [of m t] that by (auto simp: limit_ok_def split: prod.splits)
  show "im_hopeless is_txt size_limit (bs @ cs)" if "im_hopeless is_txt size_limit bs" for bs cs
    using that hopeless_utf8_append by (auto simp: im_hopeless_def)
qed

section \<open>Properties\<close>

lemma im_new_inv:
  "im_inv True size_limit (im_new MessageText)" "im_inv False size_limit (im_new MessageBinary)"
  "im_contents (im_new t) = []"
  by (simp_all add: im_inv_def im_new_def im_is_text_def im_contents_def split: message_type.split)

lemma im_complete_spec:
  assumes "im_inv is_txt size_limit m"
  shows "im_complete m = Ok msg \<longleftrightarrow>
    (if is_txt then valid_utf8 (im_contents m) \<and> msg = Text (im_contents m)
     else msg = Binary (im_contents m))"
  using assms
  by (auto simp: im_complete_def im_inv_def im_is_text_def im_contents_def sc_into_string_spec
      split: collector.splits)

lemma im_complete_no_panic: "im_complete m \<noteq> Panic"
  by (auto simp: im_complete_def sc_into_string_def split: collector.split option.split)

lemma im_inv_limit: "im_inv is_txt size_limit m \<Longrightarrow> length (im_contents m) \<le> im_max size_limit"
  by (simp add: im_inv_def)

lemma not_im_hopeless_valid:
  "valid_utf8 bs \<Longrightarrow> length bs \<le> im_max size_limit \<Longrightarrow> \<not> im_hopeless is_txt size_limit bs"
  using hopeless_not_valid by (auto simp: im_hopeless_def)

text \<open>
  Claim C20. A text message arrives exactly when it should: feeding its fragments to an
  \<open>IncompleteMessage\<close> and completing it gives a message iff the fragments together are valid
  UTF-8 within the size limit, and then the message is their concatenation, however the
  fragments cut the characters.
\<close>

theorem text_message_iff:
  assumes "limit_ok size_limit"
  shows "(\<exists>m. extend_all (\<lambda>m t. im_extend m t size_limit) (im_new MessageText) ts = (Ok (), m)
            \<and> im_complete m = Ok msg) \<longleftrightarrow>
    valid_utf8 (concat ts) \<and> length (concat ts) \<le> im_max size_limit \<and> msg = Text (concat ts)"
    (is "?collected \<longleftrightarrow> ?good")
proof
  note spec = im.extend_all_spec [of True size_limit "im_new MessageText" ts]
  assume ?collected
  then obtain m where "extend_all (\<lambda>m t. im_extend m t size_limit) (im_new MessageText) ts = (Ok (), m)"
      "im_complete m = Ok msg" by blast
  then show ?good
    using spec assms im_complete_spec [of True size_limit m msg]
    by (auto simp: im_new_inv dest: im_inv_limit)
next
  note iff = im.extend_all_Ok_iff [of True size_limit "im_new MessageText" ts]
  note spec = im.extend_all_spec [of True size_limit "im_new MessageText" ts]
  assume ?good
  then obtain m where m: "extend_all (\<lambda>m t. im_extend m t size_limit) (im_new MessageText) ts = (Ok (), m)"
    using iff assms not_im_hopeless_valid [of "[]"] not_im_hopeless_valid [of "concat ts"]
    by (auto simp: im_new_inv)
  with spec assms \<open>?good\<close> im_complete_spec [of True size_limit m msg] show ?collected
    by (auto simp: im_new_inv)
qed

text \<open>The euro sign, cut after its first byte.\<close>

theorem text_message_iff_witness:
  "limit_ok (Some 16) \<and>
   (\<exists>m. extend_all (\<lambda>m t. im_extend m t (Some 16)) (im_new MessageText) [[0xE2], [0x82, 0xAC]] = (Ok (), m)
      \<and> im_complete m = Ok (Text [0xE2, 0x82, 0xAC]))"
proof -
  have l: "limit_ok (Some 16)" by (simp add: limit_ok_def im_max_def usize_max_eq)
  have v: "valid_utf8 [0xE2, 0x82, 0xAC]"
    by (simp add: valid_utf8_cons utf8_head_def expect_cont_def second_of_three_def cont_byte_def)
  show ?thesis
    using l text_message_iff [OF l, of "[[0xE2], [0x82, 0xAC]]" "Text [0xE2, 0x82, 0xAC]"] v
    by (simp add: im_max_def)
qed

text \<open>
  Collecting never panics, and it fails as early as possible: the fragments are
  refused exactly when what has arrived is over the size limit or, for text, holds an
  invalid sequence that no continuation can repair.
\<close>

theorem fragments_refused_iff:
  assumes "limit_ok size_limit"
  shows "fst (extend_all (\<lambda>m t. im_extend m t size_limit) (im_new ty) ts) \<noteq> Panic \<and>
    (fst (extend_all (\<lambda>m t. im_extend m t size_limit) (im_new ty) ts) = Ok () \<longleftrightarrow>
      length (concat ts) \<le> im_max size_limit \<and>
      (ty = MessageText \<longrightarrow> (\<nexists>v w k u. concat ts = v @ w @ u \<and> valid_utf8 v \<and> utf8_head w = BadLen k)))"
proof -
  let ?txt = "ty = MessageText"
  have inv: "im_inv ?txt size_limit (im_new ty) \<and> limit_ok size_limit"
    using im_new_inv(1,2) assms by (cases ty) simp_all
  have start: "\<not> im_hopeless ?txt size_limit (im_contents (im_new ty))"
    using not_im_hopeless_valid [of "[]"] by (simp add: im_new_inv)
  have hope: "hopeless_utf8 bs \<longleftrightarrow> (\<exists>v w k u. bs = v @ w @ u \<and> valid_utf8 v \<and> utf8_head w = BadLen k)" for bs
    unfolding hopeless_utf8_def by (metis append_Nil2 utf8_head_BadLen_append)
  obtain r m where r: "extend_all (\<lambda>m t. im_extend m t size_limit) (im_new ty) ts = (r, m)" by fastforce
  show ?thesis
    unfolding hope [symmetric]
    using im.extend_all_spec [OF inv, of ts] im.extend_all_Ok_iff [OF inv start, of ts] r
    by (cases r) (auto simp: im_new_inv im_hopeless_def not_less)
qed

text \<open>
  Decoding a chunk loses no byte: \<open>decode\<close> accepts exactly valid UTF-8, otherwise
  it splits the chunk into its longest valid beginning and either at most three bytes of an
  unfinished character or an invalid sequence with what follows it, which no continuation of
  the input can make valid. It never panics.
\<close>

theorem decode_splits:
  "case decode input of
     Ok s \<Rightarrow> s = input \<and> valid_utf8 input
   | Err (DecodeIncomplete v i) \<Rightarrow>
       input = v @ take (ibuf_len i) (ibuf i) \<and> valid_utf8 v \<and> 1 \<le> ibuf_len i \<and> ibuf_len i \<le> 3
   | Err (DecodeInvalid v bad rest) \<Rightarrow>
       input = v @ bad @ rest \<and> valid_utf8 v \<and> 1 \<le> length bad \<and> length bad \<le> 3 \<and>
       (\<forall>more. \<not> valid_utf8 (input @ more))
   | Panic \<Rightarrow> False"
proof (cases "from_utf8 input")
  case Valid
  then show ?thesis by (simp add: decode_def valid_utf8_def)
next
  case (Invalid n e)
  note d = from_utf8_InvalidD [OF Invalid]
  show ?thesis
  proof (cases e)
    case None
    then obtain i where i: "incomplete_new (drop n input) = (Ok i :: (decode_error, incomplete) outcome)"
        "incomplete_inv i" "pending i = drop n input"
      using d incomplete_new_ok [of "drop n input"] by auto
    then have "take (ibuf_len i) (ibuf i) = drop n input" by (simp add: pending_def)
    then show ?thesis using Invalid None i(1,2) d by (simp add: decode_def incomplete_inv_def)
  next
    case (Some k)
    then have bad: "utf8_head (drop n input) = BadLen k" using d by simp
    have "\<not> valid_utf8 (take n input @ drop n input @ more)" for more
      using valid_utf8_BadLen [OF _ bad] d by blast
    then have "\<not> valid_utf8 (input @ more)" for more by (metis append.assoc append_take_drop_id)
    moreover have "input = take n input @ take k (drop n input) @ drop k (drop n input)"
      by (simp only: append_take_drop_id)
    ultimately show ?thesis
      using Invalid Some d utf8_head_BadLen_le [OF bad] by (simp add: decode_def)
  qed
qed

end
