(* ===== verification/Frame_Wire.thy ===== *)
theory Frame_Wire
  imports Frame
begin

text \<open>
  The wire format: the header parser inverts the header formatter, needs every byte the
  formatter wrote, and never panics; whole frames inherit this. The contract between the
  formatter and the parser is the locale \<open>wire_format\<close>, interpreted for headers and for
  frames, whose consequences (an encoding determines its value, also in a sequence) are
  proved once.
\<close>

unbundle bit_operations_syntax

section \<open>The contract of an encoder and a streaming decoder\<close>

locale wire_format =
  fixes ok :: "'a \<Rightarrow> bool"
    and enc :: "'a \<Rightarrow> bytes"
    and dec :: "bytes \<Rightarrow> ('a \<times> nat) option"
  assumes dec_enc: "ok a \<Longrightarrow> dec (enc a @ rest) = Some (a, length (enc a))"
    and dec_short: "ok a \<Longrightarrow> enc a = xs @ ys \<Longrightarrow> ys \<noteq> [] \<Longrightarrow> dec xs = None"
    and dec_Nil: "dec [] = None"
begin

lemma enc_not_Nil: "ok a \<Longrightarrow> enc a \<noteq> []"
  using dec_enc [of a "[]"] dec_Nil by auto

lemma enc_unique: "ok a \<Longrightarrow> ok b \<Longrightarrow> enc a @ xs = enc b @ ys \<Longrightarrow> a = b \<and> xs = ys"
  using dec_enc [of a xs] dec_enc [of b ys] by auto

text \<open>A sequence whose encoding begins another encoding begins that sequence.\<close>

lemma enc_seq_prefix:
  assumes "list_all ok as" "list_all ok bs"
    and "concat (map enc as) @ zs = concat (map enc bs)"
  shows "\<exists>cs. bs = as @ cs \<and> zs = concat (map enc cs)"
  using assms
proof (induction as arbitrary: bs)
  case Nil
  then show ?case by simp
next
  case (Cons a as)
  then obtain b bs' where bs: "bs = b # bs'"
    using enc_not_Nil [of a] by (cases bs) auto
  have "enc a @ concat (map enc as) @ zs = enc b @ concat (map enc bs')"
    using Cons.prems(3) bs by simp
  then have "a = b" "concat (map enc as) @ zs = concat (map enc bs')"
    using enc_unique Cons.prems(1,2) bs by (auto dest: enc_unique)
  moreover obtain cs where "bs' = as @ cs" "zs = concat (map enc cs)"
    using Cons.IH [of bs'] Cons.prems(1,2) bs calculation(2) by auto
  ultimately show ?case using bs by simp
qed

lemma enc_seq_unique:
  assumes "list_all ok as" "list_all ok bs"
    and "concat (map enc as) = concat (map enc bs)"
  shows "as = bs"
proof -
  obtain cs where cs: "bs = as @ cs" "[] = concat (map enc cs)"
    using enc_seq_prefix [of as bs "[]"] assms by auto
  then have "cs = []" using assms(2) enc_not_Nil by (cases cs) auto
  with cs show ?thesis by simp
qed

lemma dec_seq:
  assumes "list_all ok as" "as \<noteq> []"
  shows "dec (concat (map enc as) @ rest) = Some (hd as, length (enc (hd as)))"
  using assms by (cases as) (simp_all add: dec_enc)

end

section \<open>Bits of the two fixed bytes\<close>

lemma low7_id:
  assumes "unat (x :: u8) < 128"
  shows "x AND 0x7F = x" "x AND 0x80 = 0"
proof -
  from assms have "take_bit 7 (unat x) = unat x" by (simp add: take_bit_nat_eq_self_iff)
  then have "take_bit 7 x = x" by (metis unsigned_take_bit_eq unsigned_word_eqI)
  moreover have "(0x7F :: u8) = mask 7" by (simp add: mask_numeral)
  ultimately show eq: "x AND 0x7F = x" by (simp add: take_bit_eq_mask)
  have "x AND 0x80 = (x AND 0x7F) AND 0x80" by (simp add: eq)
  then show "x AND 0x80 = 0" by (simp only: and.assoc) simp
qed

lemma nibble_bits:
  "op \<le> 15 \<Longrightarrow> op AND 0x0F = op \<and> op AND 0x80 = 0 \<and> op AND 0x40 = 0 \<and> op AND 0x20 = 0
     \<and> op AND 0x10 = (0 :: u8)"
  by (drule u8_nibble_cases) auto

lemma first_byte_bits:
  assumes "canonical_opcode (hdr_opcode h)"
  shows "first_byte h AND 0x0F = u8_from_opcode (hdr_opcode h)"
    "first_byte h AND 0x80 \<noteq> 0 \<longleftrightarrow> is_final h"
    "first_byte h AND 0x40 \<noteq> 0 \<longleftrightarrow> rsv1 h"
    "first_byte h AND 0x20 \<noteq> 0 \<longleftrightarrow> rsv2 h"
    "first_byte h AND 0x10 \<noteq> 0 \<longleftrightarrow> rsv3 h"
  using nibble_bits [OF canonical_opcode_le [OF assms]]
  by (simp_all add: first_byte_def bit.conj_disj_distrib2)

lemma length_byte_small: "unat (length_byte (for_length len)) < 128"
  by (auto simp: for_length_def)

lemma second_byte_bits:
  "second_byte h len AND 0x7F = length_byte (for_length len)"
  "second_byte h len AND 0x80 \<noteq> 0 \<longleftrightarrow> is_some (hdr_mask h)"
  using low7_id [OF length_byte_small [of len]]
  by (simp_all add: second_byte_def bit.conj_disj_distrib2)

lemma for_byte_length_byte: "extra_bytes (for_byte (length_byte (for_length len))) = extra_bytes (for_length len)"
proof (cases "len < 126")
  case True
  let ?b = "word_of_nat len :: u8"
  have u: "unat ?b = len" using True by simp
  have "?b \<noteq> 126" "?b \<noteq> 127"
  proof -
    have "unat ?b \<noteq> unat (126 :: u8)" "unat ?b \<noteq> unat (127 :: u8)" using u True by simp_all
    then show "?b \<noteq> 126" "?b \<noteq> 127" by metis+
  qed
  then show ?thesis using True low7_id(1) [of ?b] u by (simp add: for_length_def for_byte_def)
qed (simp add: for_length_def for_byte_def)

section \<open>The parser\<close>

text \<open>The parser without its panics: what it decides about the bytes at the cursor.\<close>

lemma extra_bytes_le: "extra_bytes f \<le> 8"
  by (cases f) simp_all

lemma nibble_le: "(b :: u8) AND 0x0F \<le> 15"
  by (rule word_and_le1)

lemma read_length_cases:
  "read_length second bs =
     (let n = extra_bytes (for_byte (second AND 0x7F)) in
      if n = 0 then Ok (Some (unat (second AND 0x7F), bs))
      else if length bs < n then Ok None
      else Ok (Some (be_nat (replicate (8 - n) 0 @ take n bs), drop n bs)))"
  using extra_bytes_le [of "for_byte (second AND 0x7F)"]
  by (simp add: read_length_def Let_def)

lemma parse_internal_no_panic: "fst (parse_internal bs) \<noteq> Panic"
proof (cases bs rule: remdups_adj.cases)
  case (3 first second rest)
  obtain op where "opcode_from_u8 (first AND 0x0F) = (Ok op :: opcode result)"
    using opcode_from_u8_Ok [OF nibble_le] by blast
  then show ?thesis
    using 3 by (auto simp: parse_internal_def read_length_cases Let_def split: option.split)
qed (simp_all add: parse_internal_def)

lemma read_mask_bytes [simp]:
  "read_mask (is_some m) ((case m of Some k \<Rightarrow> mask_bytes k | None \<Rightarrow> []) @ rest) = Some (m, rest)"
  by (cases m) (auto split: prod.split)

lemma be_nat_zeros: "be_nat (replicate k 0 @ bs) = be_nat bs"
proof (induction bs rule: rev_induct)
  case Nil
  have "be_nat (replicate k 0) = 0"
  proof (induction k)
    case (Suc k)
    have "replicate (Suc k) (0 :: u8) = replicate k 0 @ [0]" by (simp add: replicate_append_same)
    then show ?case using Suc by (simp only: be_nat_snoc) simp
  qed simp
  then show ?case by simp
next
  case (snoc b bs)
  then show ?case by (simp add: be_nat_snoc flip: append_assoc)
qed

definition length_field :: "nat \<Rightarrow> bytes" where
  "length_field len = (case for_length len of
     LengthU8 _ \<Rightarrow> [] | LengthU16 \<Rightarrow> be_bytes 2 (len mod 2 ^ 16) | LengthU64 \<Rightarrow> be_bytes 8 len)"

definition mask_field :: "mask4 option \<Rightarrow> bytes" where
  "mask_field m = (case m of Some k \<Rightarrow> mask_bytes k | None \<Rightarrow> [])"

lemma header_format_fields:
  "header_format h len [] =
     first_byte h # second_byte h len # length_field len @ mask_field (hdr_mask h)"
  by (simp add: header_format_def length_field_def mask_field_def)

lemma length_length_field: "length (length_field len) = extra_bytes (for_length len)"
  by (simp add: length_field_def split: length_format.split)

lemma length_mask_field: "length (mask_field m) = (if is_some m then 4 else 0)"
  by (simp add: mask_field_def split: option.split)

lemma read_length_field:
  assumes "len < 2 ^ 64"
  shows "read_length (second_byte h len) (length_field len @ rest) = Ok (Some (len, rest))"
proof -
  have n: "extra_bytes (for_byte (second_byte h len AND 0x7F)) = extra_bytes (for_length len)"
    by (simp only: second_byte_bits for_byte_length_byte)
  show ?thesis
    unfolding read_length_cases Let_def n
    using assms
    by (auto simp: second_byte_bits length_field_def for_length_def be_nat_zeros be_nat_be_bytes)
qed

lemma read_length_short:
  assumes "length_field len = xs @ ys" "ys \<noteq> []"
  shows "read_length (second_byte h len) xs = Ok None"
proof -
  have n: "extra_bytes (for_byte (second_byte h len AND 0x7F)) = extra_bytes (for_length len)"
    by (simp only: second_byte_bits for_byte_length_byte)
  have "length xs < extra_bytes (for_length len)"
    using assms length_length_field [of len] by (metis length_append length_greater_0_conv less_add_same_cancel1)
  then show ?thesis unfolding read_length_cases Let_def n by auto
qed

lemma read_mask_short:
  assumes "mask_field m = xs @ ys" "ys \<noteq> []"
  shows "read_mask (is_some m) xs = None"
proof -
  have "is_some m" using assms by (cases m) (auto simp: mask_field_def)
  moreover have "length xs < 4"
    using assms length_mask_field [of m] \<open>is_some m\<close>
    by (metis length_append length_greater_0_conv less_add_same_cancel1)
  ultimately show ?thesis
    by (cases "(True, xs)" rule: read_mask.cases) auto
qed

text \<open>Headers that \<open>header_format\<close> can write and \<open>header_parse\<close> accepts.\<close>

definition wire_header :: "frame_header \<times> nat \<Rightarrow> bool" where
  "wire_header p \<longleftrightarrow> defined_opcode (hdr_opcode (fst p)) \<and> snd p < 2 ^ 64"

lemma parse_internal_format:
  assumes "wire_header (h, len)"
  shows "parse_internal (header_format h len [] @ rest) = (Ok (Some (h, len)), header_len h len)"
proof -
  from assms have op: "defined_opcode (hdr_opcode h)" "canonical_opcode (hdr_opcode h)"
    and len: "len < 2 ^ 64"
    by (simp_all add: wire_header_def defined_canonical)
  have op2: "opcode_from_u8 (u8_from_opcode (hdr_opcode h)) = (Ok (hdr_opcode h) :: opcode result)"
    by (rule opcode_from_u8_inverse) (fact op)
  have mask: "read_mask (is_some (hdr_mask h)) (mask_field (hdr_mask h) @ rest) = Some (hdr_mask h, rest)"
    by (simp only: mask_field_def read_mask_bytes)
  show ?thesis
    unfolding parse_internal_def header_format_fields
    using op(1) op2 read_length_field [OF len, of h "mask_field (hdr_mask h) @ rest"] mask
    by (simp add: first_byte_bits [OF op(2)] second_byte_bits length_length_field length_mask_field
        header_len_def)
qed

lemma parse_internal_short:
  assumes "canonical_opcode (hdr_opcode h)" "len < 2 ^ 64"
    and "header_format h len [] = xs @ ys" "ys \<noteq> []"
  shows "fst (parse_internal xs) = Ok None"
proof (cases xs rule: remdups_adj.cases)
  case (3 b0 b1 zs)
  have b: "b0 = first_byte h" "b1 = second_byte h len"
    and zs: "length_field len @ mask_field (hdr_mask h) = zs @ ys"
    using assms(3) 3 by (simp_all add: header_format_fields)
  have op: "opcode_from_u8 (b0 AND 0x0F) = (Ok (hdr_opcode h) :: opcode result)"
    using assms(1) by (simp add: b first_byte_bits opcode_from_u8_inverse)
  from zs obtain us where
    "length_field len = zs @ us \<and> us @ mask_field (hdr_mask h) = ys \<or>
     length_field len @ us = zs \<and> mask_field (hdr_mask h) = us @ ys"
    by (auto simp: append_eq_append_conv2)
  then consider
      (len) us where "length_field len = zs @ us" "us \<noteq> []"
    | (mask) us where "zs = length_field len @ us" "mask_field (hdr_mask h) = us @ ys"
    using zs by (cases "us = []") auto
  then show ?thesis
  proof cases
    case len
    then show ?thesis
      using 3 op read_length_short [OF len] by (simp add: parse_internal_def b)
  next
    case mask
    then have "read_mask (b1 AND 0x80 \<noteq> 0) us = None"
      using read_mask_short [OF mask(2) assms(4)] by (simp only: b second_byte_bits)
    then show ?thesis
      using 3 op mask(1) read_length_field [OF assms(2), of h us] by (simp add: parse_internal_def b)
  qed
qed (simp_all add: parse_internal_def)

text \<open>What the parser reports as consumed is what it looked at, and at most 14 bytes.\<close>

lemma read_mask_length: "read_mask b xs = Some (m, ys) \<Longrightarrow> length xs = length ys + (if is_some m then 4 else 0)"
  by (cases "(b, xs)" rule: read_mask.cases) auto

lemma parse_internal_consumed:
  assumes "parse_internal bs = (Ok (Some (h, len)), n)"
  shows "2 \<le> n \<and> n \<le> header_max_size \<and> n \<le> length bs \<and> defined_opcode (hdr_opcode h)"
proof (cases bs rule: remdups_adj.cases)
  case (3 b0 b1 rest)
  obtain op where op: "opcode_from_u8 (b0 AND 0x0F) = (Ok op :: opcode result)"
    using opcode_from_u8_Ok [OF nibble_le] by blast
  obtain rest1 where r1: "read_length b1 rest = Ok (Some (len, rest1))"
    using assms 3 op by (auto simp: parse_internal_def split: outcome.splits option.splits prod.splits if_splits)
  obtain m rest2 where r2: "read_mask (b1 AND 0x80 \<noteq> 0) rest1 = Some (m, rest2)"
    using assms 3 op r1 by (auto simp: parse_internal_def split: option.splits prod.splits if_splits)
  have "length rest1 \<le> length rest \<and> length rest \<le> length rest1 + 8"
    using r1 extra_bytes_le [of "for_byte (b1 AND 0x7F)"]
    by (auto simp: read_length_cases Let_def split: if_splits)
  then show ?thesis
    using assms 3 op r1 r2 read_mask_length [OF r2]
    by (auto simp: parse_internal_def header_max_size_def split: if_splits)
qed (use assms in \<open>simp_all add: parse_internal_def\<close>)

section \<open>Headers and frames as wire formats\<close>

definition header_enc :: "frame_header \<times> nat \<Rightarrow> bytes" where
  "header_enc p = header_format (fst p) (snd p) []"

definition header_dec :: "bytes \<Rightarrow> ((frame_header \<times> nat) \<times> nat) option" where
  "header_dec bs = (case parse_internal bs of (Ok (Some r), n) \<Rightarrow> Some (r, n) | _ \<Rightarrow> None)"

interpretation hw: wire_format wire_header header_enc header_dec
proof unfold_locales
  fix p :: "frame_header \<times> nat" and rest assume "wire_header p"
  then show "header_dec (header_enc p @ rest) = Some (p, length (header_enc p))"
    using parse_internal_format [of "fst p" "snd p" rest]
    by (simp add: header_dec_def header_enc_def length_header_format)
next
  fix p :: "frame_header \<times> nat" and xs ys
  assume "wire_header p" "header_enc p = xs @ ys" "ys \<noteq> []"
  then have "fst (parse_internal xs) = Ok None"
    using parse_internal_short [of "fst p" "snd p" xs ys]
    by (simp add: header_enc_def wire_header_def defined_canonical)
  then show "header_dec xs = None"
    by (cases "parse_internal xs") (simp add: header_dec_def)
qed (simp add: header_dec_def parse_internal_def)

text \<open>
  A whole frame: the payload follows its header and is unmasked with the header's mask.
  This is the specification that the frame codec is checked against.
\<close>

definition unmask :: "mask4 option \<Rightarrow> bytes \<Rightarrow> bytes" where
  "unmask m p = (case m of Some k \<Rightarrow> apply_mask k p | None \<Rightarrow> p)"

lemma unmask_wire_payload [simp]: "unmask (hdr_mask (header f)) (wire_payload f) = payload f"
  by (simp add: unmask_def wire_payload_def split: option.split)

definition wire_frame :: "frame \<Rightarrow> bool" where
  "wire_frame f \<longleftrightarrow> wire_header (header f, length (payload f))"

definition frame_dec :: "bytes \<Rightarrow> (frame \<times> nat) option" where
  "frame_dec bs =
     (case header_dec bs of
        None \<Rightarrow> None
      | Some ((h, len), n) \<Rightarrow>
          (if n + len \<le> length bs
           then Some (\<lparr>header = h, payload = unmask (hdr_mask h) (take len (drop n bs))\<rparr>, n + len)
           else None))"

lemma wire_enc: "wire f = header_enc (header f, length (payload f)) @ wire_payload f"
  by (simp add: wire_def header_enc_def)

interpretation fw: wire_format wire_frame wire frame_dec
proof unfold_locales
  fix f rest assume "wire_frame f"
  then show "frame_dec (wire f @ rest) = Some (f, length (wire f))"
    using hw.dec_enc [of "(header f, length (payload f))" "wire_payload f @ rest"]
    by (simp add: frame_dec_def wire_enc wire_frame_def)
next
  fix f xs ys assume f: "wire_frame f" and xy: "wire f = xs @ ys" "ys \<noteq> []"
  let ?h = "header_enc (header f, length (payload f))"
  from xy(1) obtain us where "?h = xs @ us \<and> us @ wire_payload f = ys \<or>
      ?h @ us = xs \<and> wire_payload f = us @ ys"
    by (auto simp: wire_enc append_eq_append_conv2)
  then show "frame_dec xs = None"
  proof (elim disjE conjE)
    assume "?h = xs @ us" "us @ wire_payload f = ys"
    show ?thesis
    proof (cases "us = []")
      case True
      then have "frame_dec xs = None \<or> length (payload f) \<le> 0"
        using hw.dec_enc [of "(header f, length (payload f))" "[]"] \<open>?h = xs @ us\<close> f
        by (simp add: frame_dec_def wire_frame_def)
      then show ?thesis using True \<open>us @ wire_payload f = ys\<close> xy(2)
        by (metis append_Nil le_zero_eq length_0_conv length_wire_payload)
    next
      case False
      then show ?thesis
        using hw.dec_short [OF _ \<open>?h = xs @ us\<close>] f by (simp add: frame_dec_def wire_frame_def)
    qed
  next
    assume "?h @ us = xs" "wire_payload f = us @ ys"
    moreover from this(2) xy(2) have "length us < length (payload f)"
      by (metis length_append length_greater_0_conv length_wire_payload less_add_same_cancel1)
    ultimately show ?thesis
      using hw.dec_enc [of "(header f, length (payload f))" us] f
      by (auto simp: frame_dec_def wire_frame_def)
  qed
qed (simp add: frame_dec_def header_dec_def parse_internal_def)

section \<open>Properties\<close>

text \<open>
  Claim C25. Every header that the library writes is read back: parsing the bytes of
  \<open>FrameHeader::format\<close>, whatever precedes and follows them in the buffer, gives the same
  header and payload length and leaves the cursor right behind them.
\<close>

theorem header_parse_format:
  assumes "wire_header (h, len)"
  shows "header_parse (pre @ header_format h len [] @ rest, length pre) =
    (Ok (Some (h, len)), (pre @ header_format h len [] @ rest, length pre + header_len h len))"
  using parse_internal_format [OF assms, of rest] by (simp add: header_parse_def)

definition sample_header :: frame_header where
  "sample_header = default_header\<lparr>hdr_opcode := DataOp BinaryOp, hdr_mask := Some (1, 2, 3, 4)\<rparr>"

theorem header_parse_format_witness:
  "header_parse ([9] @ header_format sample_header 70000 [] @ [7], 1) =
     (Ok (Some (sample_header, 70000)), ([9] @ header_format sample_header 70000 [] @ [7], 15))"
  using header_parse_format [of sample_header 70000 "[9]" "[7]"]
  by (simp add: wire_header_def sample_header_def header_len_def for_length_def)

text \<open>
  A header that has not arrived in full is never misread: on any proper prefix of
  a written header the parser reports insufficient data and leaves the cursor where it was,
  even when the opcode in it is one it will refuse later.
\<close>

theorem header_parse_incomplete:
  assumes "canonical_opcode (hdr_opcode h)" "len < 2 ^ 64"
    and "header_format h len [] = part @ missing" "missing \<noteq> []"
  shows "header_parse (pre @ part, length pre) = (Ok None, (pre @ part, length pre))"
  using parse_internal_short [OF assms] by (auto simp: header_parse_def split: prod.split)

text \<open>
  Whatever bytes the peer sends, header parsing does not panic; the only error is
  a reserved opcode, and an accepted header has a defined opcode and took at most 14 bytes.
\<close>

theorem header_parse_total:
  "case header_parse (data, pos) of
     (Ok None, c) \<Rightarrow> c = (data, pos)
   | (Ok (Some (h, len)), (d, p)) \<Rightarrow>
       d = data \<and> pos + 2 \<le> p \<and> p \<le> pos + header_max_size \<and> defined_opcode (hdr_opcode h)
   | (Err e, _) \<Rightarrow> (\<exists>op. e = Protocol (InvalidOpcode op))
   | (Panic, _) \<Rightarrow> False"
proof -
  obtain r n where p: "parse_internal (drop pos data) = (r, n)" by fastforce
  have np: "r \<noteq> Panic" using parse_internal_no_panic [of "drop pos data"] p by simp
  have e: "\<exists>op. e = Protocol (InvalidOpcode op)" if "r = Err e" for e
    using p that
    by (auto simp: parse_internal_def read_length_cases Let_def
        split: list.splits outcome.splits option.splits prod.splits if_splits)
  show ?thesis
  proof (cases r)
    case (Ok v)
    then show ?thesis
      using p parse_internal_consumed [of "drop pos data"]
      by (auto simp: header_parse_def split: option.split prod.split)
  qed (use p np e in \<open>auto simp: header_parse_def\<close>)
qed

text \<open>
  Claim C26. The bytes on the wire determine the frames, at every moment: when the bytes of
  some frames are the beginning of the bytes of others, the frames are the beginning of the
  others, and what is left of the bytes is the encoding of the frames that are left. So two
  sequences with the same bytes are the same sequence, and no frame can be read in a different
  way once more bytes have come.
\<close>

theorem wire_sequence_unique:
  assumes "list_all wire_frame fs" "list_all wire_frame gs"
    and "concat (map wire fs) @ zs = concat (map wire gs)"
  shows "\<exists>hs. gs = fs @ hs \<and> zs = concat (map wire hs) \<and> (zs = [] \<longrightarrow> gs = fs)"
proof -
  obtain hs where hs: "gs = fs @ hs" "zs = concat (map wire hs)"
    using fw.enc_seq_prefix [OF assms] by blast
  then have "gs = fs" if "zs = []"
    using that fw.enc_seq_unique [OF assms(2,1)] assms(3) by simp
  with hs show ?thesis by blast
qed

text \<open>The bytes of a ping and an unfinished text message, and of the ping alone.\<close>

theorem wire_sequence_unique_witness:
  "\<exists>hs. [frame_ping [1, 2], frame_message [104, 105] (DataOp TextOp) False] = [frame_ping [1, 2]] @ hs \<and>
     [0x01, 2, 104, 105] = concat (map wire hs)"
proof -
  have bytes: "concat (map wire [frame_ping [1, 2]]) @ [0x01, 2, 104, 105] =
      concat (map wire [frame_ping [1, 2], frame_message [104, 105] (DataOp TextOp) False])"
    by code_simp
  have ok: "list_all wire_frame [frame_ping [1, 2], frame_message [104, 105] (DataOp TextOp) False]"
    "list_all wire_frame [frame_ping [1, 2]]"
    by (simp_all add: wire_frame_def wire_header_def frame_ping_def frame_message_def default_header_def)
  from wire_sequence_unique [OF ok(2,1) bytes] show ?thesis by blast
qed

text \<open>
  \<open>Frame::len\<close>, by which the write buffer is accounted, is exactly the number of
  bytes that \<open>format_into_buf\<close> appends, and the two formatters agree.
\<close>

theorem format_into_buf_length:
  "format_into_buf f buf = frame_format f buf \<and>
   length (format_into_buf f buf) = length buf + frame_len f \<and>
   take (length buf) (format_into_buf f buf) = buf"
  by (simp add: format_into_buf_wire frame_format_wire length_wire)

text \<open>
  The payload of a close frame survives: reading back the frame that
  \<open>Frame::close\<close> builds gives the same code and reason, for every code that comes from a
  \<open>u16\<close> and every valid UTF-8 reason.
\<close>

theorem close_frame_roundtrip:
  assumes "close_code_from_u16 (u16_from_close_code (cf_code cf)) = cf_code cf"
    and "valid_utf8 (cf_reason cf)"
  shows "frame_into_close (frame_close (Some cf)) = Ok (Some cf)"
proof -
  let ?n = "unat (u16_from_close_code (cf_code cf))"
  have lt: "?n < 65536"
    by (rule order_less_le_trans [OF unsigned_less]) simp
  obtain b0 b1 where b: "be_bytes 2 ?n = [b0, b1]"
    by (simp add: numeral_2_eq_2)
  have "be_nat [b0, b1] = ?n"
    using be_nat_be_bytes [of 2 ?n] lt b by simp
  then show ?thesis
    using assms b
    by (simp add: frame_into_close_def frame_close_def utf8_try_from_def valid_utf8_def)
qed

end
