(* ===== verification/Stream.thy ===== *)
theory Stream
  imports Errors
begin

text \<open>
  The outside world as the crate sees it: a stream that implements \<open>Read\<close> and \<open>Write\<close>, the
  random generator that masks come from, and the allocator's choice of capacities. Each is
  a finite script, so that every behaviour of a real stream during a finite run (short reads
  and writes, \<open>WouldBlock\<close> at any point, other errors, end of file) is some world.

  A stream keeps the documented contracts of \<open>Read::read\<close> and \<open>Write::write\<close>: it fills a prefix
  of the buffer it is given and reports its length; it accepts a prefix of the data.
  Once its script has run out it is at end of file, and it accepts everything.
\<close>

section \<open>Scripts\<close>

datatype read_event = RdBytes bytes | RdErr io_kind
datatype write_event = WrAccept nat | WrErr io_kind
datatype flush_event = FlOk | FlErr io_kind

record world =
  reads :: "read_event list"
  writes :: "write_event list"
  flushes :: "flush_event list"
  sent :: bytes                 \<comment> \<open>what the peer has been given\<close>
  masks :: "nat \<Rightarrow> mask4"       \<comment> \<open>\<open>rand::random\<close>, draw by draw\<close>
  draws :: nat
  slack :: "nat list"           \<comment> \<open>what each reallocation grants beyond the request\<close>

definition stream_read :: "nat \<Rightarrow> world \<Rightarrow> (io_kind, bytes) outcome \<times> world" where
  "stream_read room w =
     (if room = 0 then (Ok [], w)
      else case reads w of
          [] \<Rightarrow> (Ok [], w)
        | RdErr k # rs \<Rightarrow> (Err k, w\<lparr>reads := rs\<rparr>)
        | RdBytes bs # rs \<Rightarrow>
            (if length bs \<le> room then (Ok bs, w\<lparr>reads := rs\<rparr>)
             else (Ok (take room bs), w\<lparr>reads := RdBytes (drop room bs) # rs\<rparr>)))"

definition stream_write :: "bytes \<Rightarrow> world \<Rightarrow> (io_kind, nat) outcome \<times> world" where
  "stream_write data w =
     (case writes w of
        [] \<Rightarrow> (Ok (length data), w\<lparr>sent := sent w @ data\<rparr>)
      | WrErr k # ws \<Rightarrow> (Err k, w\<lparr>writes := ws\<rparr>)
      | WrAccept n # ws \<Rightarrow>
          (Ok (min n (length data)), w\<lparr>writes := ws, sent := sent w @ take n data\<rparr>))"

definition stream_flush :: "world \<Rightarrow> (io_kind, unit) outcome \<times> world" where
  "stream_flush w =
     (case flushes w of
        [] \<Rightarrow> (Ok (), w)
      | FlOk # fs \<Rightarrow> (Ok (), w\<lparr>flushes := fs\<rparr>)
      | FlErr k # fs \<Rightarrow> (Err k, w\<lparr>flushes := fs\<rparr>))"

definition generate_mask :: "world \<Rightarrow> mask4 \<times> world" where
  "generate_mask w = (masks w (draws w), w\<lparr>draws := Suc (draws w)\<rparr>)"

definition next_slack :: "world \<Rightarrow> nat \<times> world" where
  "next_slack w = (case slack w of [] \<Rightarrow> (0, w) | n # ns \<Rightarrow> (n, w\<lparr>slack := ns\<rparr>))"

text \<open>\<open>impl From<io::Error> for Error\<close>, for a result that comes with the state.\<close>

fun lift_io :: "(io_kind, 'a) outcome \<times> 's \<Rightarrow> 'a result \<times> 's" where
  "lift_io (Ok a, s) = (Ok a, s)"
| "lift_io (Err k, s) = (Err (Io k), s)"
| "lift_io (Panic, s) = (Panic, s)"

declare lift_io.simps [outcome_simps]

section \<open>How far a script can go\<close>

text \<open>The bytes a script holds, and a measure that every successful read decreases.\<close>

fun script_bytes :: "read_event list \<Rightarrow> bytes" where
  "script_bytes [] = []"
| "script_bytes (RdBytes bs # rs) = bs @ script_bytes rs"
| "script_bytes (RdErr k # rs) = script_bytes rs"

definition reads_left :: "world \<Rightarrow> nat" where
  "reads_left w = length (reads w) + length (script_bytes (reads w))"

lemma stream_read_left:
  "stream_read room w = (Ok bs, w') \<Longrightarrow> bs \<noteq> [] \<Longrightarrow> reads_left w' < reads_left w"
  by (auto simp: stream_read_def reads_left_def split: if_splits list.splits read_event.splits)

lemma stream_read_bytes:
  "stream_read room w = (Ok bs, w') \<Longrightarrow>
     script_bytes (reads w) = bs @ script_bytes (reads w') \<and> length bs \<le> room"
  by (auto simp: stream_read_def split: if_splits list.splits read_event.splits)

lemma stream_read_Err:
  "stream_read room w = (Err k, w') \<Longrightarrow> w' = w\<lparr>reads := tl (reads w)\<rparr> \<and> reads w = RdErr k # reads w'"
  by (auto simp: stream_read_def split: if_splits list.splits read_event.splits)

lemma stream_read_no_panic [simp]: "stream_read room w \<noteq> (Panic, w')"
  by (auto simp: stream_read_def split: list.splits read_event.splits)

lemma stream_write_no_panic [simp]: "stream_write d w \<noteq> (Panic, w')"
  by (auto simp: stream_write_def split: list.splits write_event.splits)

lemma stream_flush_no_panic [simp]: "stream_flush w \<noteq> (Panic, w')"
  by (auto simp: stream_flush_def split: list.splits flush_event.splits)

lemma stream_write_Ok:
  "stream_write d w = (Ok n, w') \<Longrightarrow> n \<le> length d \<and> sent w' = sent w @ take n d"
  by (auto simp: stream_write_def min_def split: list.splits write_event.splits)

lemma stream_write_Err: "stream_write d w = (Err k, w') \<Longrightarrow> sent w' = sent w"
  by (auto simp: stream_write_def split: list.splits write_event.splits)

section \<open>What an operation leaves alone\<close>

lemma stream_read_frame [frame_rules]:
  "stream_read room w = (r, w') \<Longrightarrow> sent w' = sent w \<and> writes w' = writes w \<and> flushes w' = flushes w \<and>
     masks w' = masks w \<and> draws w' = draws w \<and> slack w' = slack w"
  by (auto simp: stream_read_def split: if_splits list.splits read_event.splits)

lemma stream_write_frame [frame_rules]:
  "stream_write d w = (r, w') \<Longrightarrow> reads w' = reads w \<and> flushes w' = flushes w \<and>
     masks w' = masks w \<and> draws w' = draws w \<and> slack w' = slack w"
  by (auto simp: stream_write_def split: list.splits write_event.splits)

lemma stream_flush_frame [frame_rules]:
  "stream_flush w = (r, w') \<Longrightarrow> reads w' = reads w \<and> writes w' = writes w \<and> sent w' = sent w \<and>
     masks w' = masks w \<and> draws w' = draws w \<and> slack w' = slack w"
  by (auto simp: stream_flush_def split: list.splits flush_event.splits)

lemma next_slack_frame [frame_rules]:
  "next_slack w = (n, w') \<Longrightarrow> reads w' = reads w \<and> writes w' = writes w \<and> flushes w' = flushes w \<and>
     sent w' = sent w \<and> masks w' = masks w \<and> draws w' = draws w"
  by (auto simp: next_slack_def split: list.splits)

end
