(* ===== verification/Frame_Codec.thy ===== *)
theory Frame_Codec
  imports Frame_Wire Stream
begin

text \<open>
  The frame codec and the frame socket, \<open>src/src/protocol/frame/mod.rs\<close>: reading frames from
  a stream through \<open>in_buffer\<close>, writing them through \<open>out_buffer\<close>.

  A state of an operation is the codec together with the world. \<open>BytesMut\<close> is its content
  and its capacity: \<open>advance\<close> and \<open>split_to\<close> take bytes and capacity from the front,
  \<open>reserve\<close> reallocates when the capacity does not suffice, by an amount the world chooses,
  and panics when more than \<open>isize::MAX\<close> bytes are asked for. The build is a release build:
  \<open>debug_assert!\<close> is not executed. That memory for \<open>out_buffer\<close> is available is assumed: it
  holds copies of payloads that the caller has already allocated.
\<close>

section \<open>State\<close>

record codec =
  in_buffer :: bytes
  in_cap :: nat
  in_buf_max_read :: nat
  out_buffer :: bytes
  max_out_buffer_len :: nat
  out_buffer_write_len :: nat
  codec_header :: "(frame_header \<times> nat) option"

type_synonym codec_state = "codec \<times> world"

definition READ_BUF_LEN :: nat where
  "READ_BUF_LEN = 128 * 1024"

definition codec_new :: "nat \<Rightarrow> codec" where
  "codec_new in_buf_len = \<lparr>in_buffer = [], in_cap = in_buf_len,
     in_buf_max_read = max in_buf_len header_max_size, out_buffer = [],
     max_out_buffer_len = usize_max, out_buffer_write_len = 0, codec_header = None\<rparr>"

text \<open>\<open>FrameCodec::new\<close>: \<open>BytesMut::with_capacity\<close> panics beyond \<open>isize::MAX\<close> bytes.\<close>

definition codec_with_capacity :: "nat \<Rightarrow> codec result" where
  "codec_with_capacity in_buf_len = (if in_buf_len \<le> isize_max then Ok (codec_new in_buf_len) else Panic)"

text \<open>\<open>BytesMut::reserve\<close> on \<open>in_buffer\<close>.\<close>

definition reserve_in :: "nat \<Rightarrow> codec \<Rightarrow> world \<Rightarrow> unit result \<times> codec_state" where
  "reserve_in additional c w =
     (let needed = length (in_buffer c) + additional in
      if needed \<le> in_cap c then (Ok (), c, w)
      else if needed \<le> isize_max then
        (case next_slack w of (extra, w1) \<Rightarrow> (Ok (), c\<lparr>in_cap := min isize_max (needed + extra)\<rparr>, w1))
      else (Panic, c, w))"

text \<open>\<open>BytesMut::from_iter\<close> gives a buffer of some capacity \<open>cap\<close> that holds the part.\<close>

definition codec_from_partially_read ::
  "bytes \<Rightarrow> nat \<Rightarrow> nat \<Rightarrow> world \<Rightarrow> unit result \<times> codec_state" where
  "codec_from_partially_read part cap min_in_buf_len w =
     reserve_in (min_in_buf_len - length part)
       \<lparr>in_buffer = part, in_cap = max cap (length part),
        in_buf_max_read = max min_in_buf_len header_max_size, out_buffer = [],
        max_out_buffer_len = usize_max, out_buffer_write_len = 0, codec_header = None\<rparr> w"

definition set_max_out_buffer_len :: "nat \<Rightarrow> codec \<Rightarrow> codec" where
  "set_max_out_buffer_len n c = c\<lparr>max_out_buffer_len := n\<rparr>"

definition set_out_buffer_write_len :: "nat \<Rightarrow> codec \<Rightarrow> codec" where
  "set_out_buffer_write_len n c = c\<lparr>out_buffer_write_len := n\<rparr>"

definition can_buffer :: "codec \<Rightarrow> nat \<Rightarrow> bool" where
  "can_buffer c wire_size \<longleftrightarrow> sat_add wire_size (length (out_buffer c)) \<le> max_out_buffer_len c"

section \<open>Reading\<close>

definition read_in :: "codec_state \<Rightarrow> (io_kind, nat) outcome \<times> codec_state" where
  "read_in s =
     (case s of (c, w) \<Rightarrow>
       (let len = length (in_buffer c);
            room = min (in_cap c) (len + in_buf_max_read c) - len
        in case stream_read room w of
             (Ok bs, w1) \<Rightarrow> (Ok (length bs), c\<lparr>in_buffer := in_buffer c @ bs\<rparr>, w1)
           | (Err k, w1) \<Rightarrow> (Err k, c, w1)
           | (Panic, w1) \<Rightarrow> (Panic, c, w1)))"

definition advance_in :: "nat \<Rightarrow> codec \<Rightarrow> codec" where
  "advance_in n c = c\<lparr>in_buffer := drop n (in_buffer c), in_cap := in_cap c - n\<rparr>"

text \<open>The first \<open>if\<close> of the loop: get hold of a header.\<close>

definition parse_step :: "nat \<Rightarrow> codec_state \<Rightarrow> unit result \<times> codec_state" where
  "parse_step max_size s =
     (case s of (c, w) \<Rightarrow>
       (case codec_header c of
          Some _ \<Rightarrow> (Ok (), c, w)
        | None \<Rightarrow>
            (case header_parse (in_buffer c, 0) of
               (Err e, _) \<Rightarrow> (Err e, c, w)
             | (Panic, _) \<Rightarrow> (Panic, c, w)
             | (Ok hdr, _, advanced) \<Rightarrow>
                 (let c1 = advance_in advanced (c\<lparr>codec_header := hdr\<rparr>) in
                  case hdr of
                    Some (_, len) \<Rightarrow>
                      (if len > max_size
                       then (Err (Capacity (MessageTooLong (as_usize len) max_size)), c1, w)
                       else reserve_in (as_usize len) c1 w)
                  | None \<Rightarrow> reserve_in header_max_size c1 w))))"

text \<open>The second: is the payload there? Then it is split off.\<close>

definition split_payload :: "codec \<Rightarrow> (bytes \<times> codec) option" where
  "split_payload c =
     (case codec_header c of
        Some (_, len) \<Rightarrow>
          (let len = as_usize len in
           if len \<le> length (in_buffer c) then Some (take len (in_buffer c), advance_in len c) else None)
      | None \<Rightarrow> None)"

lemma reserve_in_reads: "reserve_in n c w = (r, c', w') \<Longrightarrow> reads w' = reads w"
  by (auto simp: reserve_in_def Let_def dest: next_slack_frame split: if_splits prod.splits)

lemma parse_step_reads: "parse_step m (c, w) = (r, c', w') \<Longrightarrow> reads w' = reads w"
  by (auto simp: parse_step_def Let_def dest: reserve_in_reads
      split: option.splits outcome.splits prod.splits if_splits)

lemma read_in_left:
  "read_in (c, w) = (Ok n, c', w') \<Longrightarrow> n \<noteq> 0 \<Longrightarrow> reads_left w' < reads_left w"
  by (auto simp: read_in_def Let_def dest: stream_read_left split: prod.splits outcome.splits)

text \<open>The loop; its value is the payload, or \<open>None\<close> at the end of the stream.\<close>

function read_loop :: "nat \<Rightarrow> codec_state \<Rightarrow> bytes option result \<times> codec_state" where
  "read_loop max_size s =
     (case parse_step max_size s of
        (Err e, s1) \<Rightarrow> (Err e, s1)
      | (Panic, s1) \<Rightarrow> (Panic, s1)
      | (Ok _, c1, w1) \<Rightarrow>
          (case split_payload c1 of
             Some (data, c2) \<Rightarrow> (Ok (Some data), c2, w1)
           | None \<Rightarrow>
               (case read_in (c1, w1) of
                  (Err k, s2) \<Rightarrow> (Err (Io k), s2)
                | (Panic, s2) \<Rightarrow> (Panic, s2)
                | (Ok n, s2) \<Rightarrow> if n = 0 then (Ok None, s2) else read_loop max_size s2)))"
  by pat_completeness auto
termination
proof (relation "measure (\<lambda>(m, c, w). reads_left w)", goal_cases)
  case 1
  show ?case by simp
next
  case 2
  then show ?case
    by (auto simp: reads_left_def dest!: parse_step_reads [OF sym] read_in_left [OF sym] split: prod.splits)
qed

declare read_loop.simps [simp del]

definition read_frame ::
  "nat option \<Rightarrow> bool \<Rightarrow> bool \<Rightarrow> codec_state \<Rightarrow> frame option result \<times> codec_state" where
  "read_frame max_size do_unmask accept_unmasked s =
     (let max_size = (case max_size of Some n \<Rightarrow> n | None \<Rightarrow> usize_max) in
      case read_loop max_size s of
        (Err e, s1) \<Rightarrow> (Err e, s1)
      | (Panic, s1) \<Rightarrow> (Panic, s1)
      | (Ok None, s1) \<Rightarrow> (Ok None, s1)
      | (Ok (Some data), c1, w1) \<Rightarrow>
          (let c2 = c1\<lparr>codec_header := None\<rparr> in
           case codec_header c1 of
             None \<Rightarrow> (Panic, c2, w1)
           | Some (h, _) \<Rightarrow>
               (if do_unmask then
                  (case hdr_mask h of
                     Some m \<Rightarrow>
                       (Ok (Some (frame_from_payload (h\<lparr>hdr_mask := None\<rparr>) (apply_mask m data))), c2, w1)
                   | None \<Rightarrow>
                       (if accept_unmasked then (Ok (Some (frame_from_payload h data)), c2, w1)
                        else (Err (Protocol UnmaskedFrameFromClient), c2, w1)))
                else (Ok (Some (frame_from_payload h data)), c2, w1))))"

section \<open>Writing\<close>

function write_out_buffer :: "codec_state \<Rightarrow> unit result \<times> codec_state" where
  "write_out_buffer (c, w) =
     (if out_buffer c = [] then (Ok (), c, w)
      else case stream_write (out_buffer c) w of
          (Err k, w1) \<Rightarrow> (Err (Io k), c, w1)
        | (Panic, w1) \<Rightarrow> (Panic, c, w1)
        | (Ok n, w1) \<Rightarrow>
            (if n = 0 then (Err (Io ConnectionReset), c, w1)
             else write_out_buffer (c\<lparr>out_buffer := drop n (out_buffer c)\<rparr>, w1)))"
  by pat_completeness auto
termination
  by (relation "measure (\<lambda>(c, w). length (out_buffer c))") auto

declare write_out_buffer.simps [simp del]

definition buffer_frame :: "frame \<Rightarrow> codec_state \<Rightarrow> unit result \<times> codec_state" where
  "buffer_frame f s =
     (case s of (c, w) \<Rightarrow>
       (if \<not> can_buffer c (frame_len f) then (Err (WriteBufferFull (RawFrame f)), c, w)
        else
          (let c1 = c\<lparr>out_buffer := format_into_buf f (out_buffer c)\<rparr> in
           if length (out_buffer c1) > out_buffer_write_len c1 then write_out_buffer (c1, w)
           else (Ok (), c1, w))))"

section \<open>The frame socket\<close>

definition frame_socket_new :: "world \<Rightarrow> codec_state result" where
  "frame_socket_new stream = bind_out (codec_with_capacity READ_BUF_LEN) (\<lambda>fc. Ok (fc, stream))"

definition frame_socket_from_partially_read :: "world \<Rightarrow> bytes \<Rightarrow> nat \<Rightarrow> unit result \<times> codec_state" where
  "frame_socket_from_partially_read stream part cap =
     codec_from_partially_read part cap READ_BUF_LEN stream"

definition frame_socket_into_inner :: "codec_state \<Rightarrow> world \<times> bytes" where
  "frame_socket_into_inner s = (snd s, in_buffer (fst s))"

definition frame_socket_get_ref :: "codec_state \<Rightarrow> world" where
  "frame_socket_get_ref s = snd s"

text \<open>What the caller of \<open>get_mut\<close> does to the stream.\<close>

definition frame_socket_get_mut :: "(world \<Rightarrow> world) \<Rightarrow> codec_state \<Rightarrow> codec_state" where
  "frame_socket_get_mut f s = (fst s, f (snd s))"

definition frame_socket_read :: "nat option \<Rightarrow> codec_state \<Rightarrow> frame option result \<times> codec_state" where
  "frame_socket_read max_size s = read_frame max_size False True s"

definition frame_socket_write :: "frame \<Rightarrow> codec_state \<Rightarrow> unit result \<times> codec_state" where
  "frame_socket_write f s = buffer_frame f s"

definition frame_socket_flush :: "codec_state \<Rightarrow> unit result \<times> codec_state" where
  "frame_socket_flush s =
     and_then (write_out_buffer s) (\<lambda>_ (c, w).
       lift_io (case stream_flush w of (r, w1) \<Rightarrow> (r, c, w1)))"

definition frame_socket_send :: "frame \<Rightarrow> codec_state \<Rightarrow> unit result \<times> codec_state" where
  "frame_socket_send f s = and_then (frame_socket_write f s) (\<lambda>_ s1. frame_socket_flush s1)"

end
