(* ===== verification/Codec_Props.thy ===== *)
theory Codec_Props
  imports Frame_Codec
begin

text \<open>
  What the frame codec promises. The writing half conserves bytes: what has been sent
  followed by what is buffered only ever grows by the wire form of the frames accepted. The
  reading half refines \<open>next_frame\<close>, a decoder of the byte stream that knows nothing of
  reads, capacities and chunks.
\<close>

section \<open>Writing\<close>

definition stream_so_far :: "codec_state \<Rightarrow> bytes" where
  "stream_so_far s = sent (snd s) @ out_buffer (fst s)"

lemma write_out_buffer_spec:
  "write_out_buffer (c, w) = (r, c', w') \<Longrightarrow>
     sent w' @ out_buffer c' = sent w @ out_buffer c \<and>
     length (out_buffer c') \<le> length (out_buffer c) \<and>
     c' = c\<lparr>out_buffer := out_buffer c'\<rparr> \<and>
     reads w' = reads w \<and> flushes w' = flushes w \<and> masks w' = masks w \<and> draws w' = draws w \<and>
     slack w' = slack w \<and>
     (case r of Ok u \<Rightarrow> out_buffer c' = [] | Err e \<Rightarrow> (\<exists>k. e = Io k) \<and> out_buffer c' \<noteq> [] | Panic \<Rightarrow> False)"
proof (induction "(c, w)" arbitrary: c w r c' w' rule: write_out_buffer.induct)
  case (1 c w)
  show ?case
  proof (cases "out_buffer c = []")
    case True
    then show ?thesis using "1.prems" by (auto simp: write_out_buffer.simps)
  next
    case False
    obtain r1 w1 where s: "stream_write (out_buffer c) w = (r1, w1)" by fastforce
    note fr = stream_write_frame [OF s]
    show ?thesis
    proof (cases r1)
      case (Ok n)
      note ok = stream_write_Ok [OF s [unfolded Ok]]
      show ?thesis
      proof (cases "n = 0")
        case True
        then show ?thesis
          using "1.prems" False s Ok ok fr by (auto simp: write_out_buffer.simps [of c])
      next
        case n: False
        let ?c1 = "c\<lparr>out_buffer := drop n (out_buffer c)\<rparr>"
        have "write_out_buffer (?c1, w1) = (r, c', w')"
          using "1.prems" False s Ok n by (simp add: write_out_buffer.simps [of c])
        from "1.hyps" [OF False s [symmetric] Ok n this] show ?thesis
          using ok fr by (cases r) auto
      qed
    next
      case (Err k)
      then show ?thesis
        using "1.prems" False s fr stream_write_Err [of "out_buffer c" w k w1]
        by (auto simp: write_out_buffer.simps [of c])
    next
      case Panic
      then show ?thesis using s by simp
    qed
  qed
qed

lemma stream_so_far_format:
  "stream_so_far (c\<lparr>out_buffer := format_into_buf f (out_buffer c)\<rparr>, w) = stream_so_far (c, w) @ wire f"
  by (simp add: stream_so_far_def format_into_buf_wire)

lemma can_buffer_length:
  "can_buffer c n \<Longrightarrow> max_out_buffer_len c < usize_max \<Longrightarrow> length (out_buffer c) + n \<le> max_out_buffer_len c"
  by (auto simp: can_buffer_def sat_add_def)

text \<open>Everything \<open>buffer_frame\<close> does when the frame fits.\<close>

lemma buffer_frame_fits:
  assumes "buffer_frame f (c, w) = (r, c', w')" "can_buffer c (frame_len f)"
  shows "stream_so_far (c', w') = stream_so_far (c, w) @ wire f \<and>
    length (out_buffer c') \<le> length (out_buffer c) + frame_len f \<and>
    c' = c\<lparr>out_buffer := out_buffer c'\<rparr> \<and>
    reads w' = reads w \<and> flushes w' = flushes w \<and> masks w' = masks w \<and> draws w' = draws w \<and>
    slack w' = slack w \<and>
    (case r of Ok u \<Rightarrow> length (out_buffer c') \<le> out_buffer_write_len c | Err e \<Rightarrow> \<exists>k. e = Io k | Panic \<Rightarrow> False)"
proof -
  let ?c1 = "c\<lparr>out_buffer := format_into_buf f (out_buffer c)\<rparr>"
  have len: "length (format_into_buf f (out_buffer c)) = length (out_buffer c) + frame_len f"
    by (simp add: format_into_buf_wire length_wire)
  show ?thesis
  proof (cases "length (out_buffer ?c1) > out_buffer_write_len c")
    case True
    then have "write_out_buffer (?c1, w) = (r, c', w')"
      using assms by (simp add: buffer_frame_def)
    note spec = write_out_buffer_spec [OF this]
    have so_far: "stream_so_far (c', w') = stream_so_far (?c1, w)"
      using spec by (simp add: stream_so_far_def)
    show ?thesis
      using spec len by (auto simp: so_far stream_so_far_format split: outcome.splits)
  next
    case False
    then have "(r, c', w') = (Ok (), ?c1, w)" using assms by (simp add: buffer_frame_def)
    then show ?thesis using len False by (simp add: stream_so_far_format)
  qed
qed

lemma buffer_frame_full:
  "\<not> can_buffer c (frame_len f) \<Longrightarrow> buffer_frame f (c, w) = (Err (WriteBufferFull (RawFrame f)), c, w)"
  by (simp add: buffer_frame_def)

section \<open>Reading: a decoder of the byte stream\<close>

datatype decoded =
    NeedMore "(frame_header \<times> nat) option" bytes
  | GotFrame frame_header bytes bytes  \<comment> \<open>header, payload as sent, what follows\<close>
  | Refused error

definition take_payload :: "frame_header \<Rightarrow> nat \<Rightarrow> bytes \<Rightarrow> decoded" where
  "take_payload h len bs =
     (if len \<le> length bs then GotFrame h (take len bs) (drop len bs) else NeedMore (Some (h, len)) bs)"

definition next_frame :: "nat \<Rightarrow> (frame_header \<times> nat) option \<Rightarrow> bytes \<Rightarrow> decoded" where
  "next_frame max_size hdr bs =
     (case hdr of
        Some (h, len) \<Rightarrow> take_payload h len bs
      | None \<Rightarrow>
          (case parse_internal bs of
             (Ok (Some (h, len)), n) \<Rightarrow>
               (if len > max_size then Refused (Capacity (MessageTooLong (as_usize len) max_size))
                else take_payload h len (drop n bs))
           | (Err e, n) \<Rightarrow> Refused e
           | _ \<Rightarrow> NeedMore None bs))"

text \<open>More bytes do not change what the parser has decided.\<close>

lemma read_length_append:
  "read_length b bs = Ok (Some (n, rest)) \<Longrightarrow> read_length b (bs @ zs) = Ok (Some (n, rest @ zs))"
  by (auto simp: read_length_def Let_def split: if_splits)

lemma read_mask_append: "read_mask b bs = Some (m, rest) \<Longrightarrow> read_mask b (bs @ zs) = Some (m, rest @ zs)"
  by (cases "(b, bs)" rule: read_mask.cases) auto

lemma parse_internal_append:
  assumes "parse_internal bs = (r, n)" "r \<noteq> Ok None"
  shows "parse_internal (bs @ zs) = (r, n)"
proof -
  obtain first second rest where bs: "bs = first # second # rest"
    using assms by (auto simp: parse_internal_def split: list.splits)
  obtain op where op: "opcode_from_u8 (first AND 0x0F) = (Ok op :: opcode result)"
    using assms parse_internal_no_panic [of bs]
    by (auto simp: parse_internal_def bs split: outcome.splits option.splits prod.splits)
  obtain len rest1 where l: "read_length second rest = Ok (Some (len, rest1))"
    using assms
    by (auto simp: parse_internal_def bs op read_length_cases Let_def split: outcome.splits option.splits prod.splits if_splits)
  obtain m rest2 where m: "read_mask (second AND 0x80 \<noteq> 0) rest1 = Some (m, rest2)"
    using assms by (auto simp: parse_internal_def bs op l split: option.splits)
  show ?thesis
    using assms read_length_append [OF l, of zs] read_mask_append [OF m, of zs]
    by (auto simp: parse_internal_def bs op l m split: if_splits)
qed

lemma next_frame_None_append:
  "parse_internal bs = (r, n) \<Longrightarrow> r \<noteq> Ok None \<Longrightarrow> next_frame m None (bs @ zs) =
     (case r of
        Ok (Some (h, len)) \<Rightarrow>
          (if len > m then Refused (Capacity (MessageTooLong (as_usize len) m))
           else take_payload h len (drop n bs @ zs))
      | Err e \<Rightarrow> Refused e
      | _ \<Rightarrow> NeedMore None (bs @ zs))"
  using parse_internal_consumed [of bs] parse_internal_append [of bs r n zs]
  by (auto simp: next_frame_def split: outcome.splits option.splits)

text \<open>The capacity is enough to read on.\<close>

definition in_ok :: "nat \<Rightarrow> codec \<Rightarrow> world \<Rightarrow> bool" where
  "in_ok max_size c w \<longleftrightarrow>
     length (in_buffer c) \<le> in_cap c \<and> header_max_size \<le> in_buf_max_read c \<and>
     (case codec_header c of Some (h, len) \<Rightarrow> len \<le> max_size \<and> len \<le> in_cap c | None \<Rightarrow> True) \<and>
     length (in_buffer c) + length (script_bytes (reads w)) + max_size + header_max_size \<le> isize_max"

lemma isize_less_usize: "isize_max < usize_max"
  by (simp add: isize_max_def usize_max_def usize_bits_def)

definition room_of :: "codec \<Rightarrow> nat" where
  "room_of c = min (in_cap c) (length (in_buffer c) + in_buf_max_read c) - length (in_buffer c)"

lemma read_in_room:
  "read_in (c, w) =
     (case stream_read (room_of c) w of
        (Ok bs, w1) \<Rightarrow> (Ok (length bs), c\<lparr>in_buffer := in_buffer c @ bs\<rparr>, w1)
      | (Err k, w1) \<Rightarrow> (Err k, c, w1)
      | (Panic, w1) \<Rightarrow> (Panic, c, w1))"
  by (simp add: read_in_def room_of_def Let_def)

lemma in_ok_room:
  assumes "in_ok m c w" "split_payload c = None"
    and "codec_header c = None \<Longrightarrow> length (in_buffer c) < in_cap c"
  shows "0 < room_of c"
proof -
  have "0 < in_buf_max_read c" using assms by (simp add: in_ok_def header_max_size_def)
  moreover have "length (in_buffer c) < in_cap c"
  proof (cases "codec_header c")
    case None
    then show ?thesis by (rule assms(3))
  next
    case (Some hl)
    then have "as_usize (snd hl) = snd hl" "snd hl \<le> in_cap c"
      using assms(1) isize_less_usize by (auto simp: in_ok_def intro: as_usize_id)
    then show ?thesis
      using assms(2) Some by (cases hl) (simp add: split_payload_def Let_def split: if_splits)
  qed
  ultimately show ?thesis by (simp add: room_of_def)
qed

lemma reserve_in_spec:
  assumes "length (in_buffer c) + n \<le> isize_max"
  obtains cap w' where "reserve_in n c w = (Ok (), c\<lparr>in_cap := cap\<rparr>, w')" "in_cap c \<le> cap"
    "length (in_buffer c) + n \<le> cap" "reads w' = reads w" "sent w' = sent w"
    "writes w' = writes w" "flushes w' = flushes w" "masks w' = masks w" "draws w' = draws w"
proof (cases "length (in_buffer c) + n \<le> in_cap c")
  case True
  then show thesis using that [of "in_cap c" w] by (simp add: reserve_in_def)
next
  case False
  obtain extra w' where s: "next_slack w = (extra, w')" by fastforce
  then show thesis
    using that [of "min isize_max (length (in_buffer c) + n + extra)" w'] False assms next_slack_frame [OF s]
    by (simp add: reserve_in_def)
qed

text \<open>One pass over the first \<open>if\<close> of the loop.\<close>

lemma parse_step_spec:
  assumes ok: "in_ok m c w"
  shows "case parse_step m (c, w) of
      (Ok u, c1, w1) \<Rightarrow> in_ok m c1 w1 \<and> reads w1 = reads w \<and>
        (codec_header c1 = None \<longrightarrow> length (in_buffer c1) < in_cap c1 \<and>
           next_frame m None (in_buffer c1) = NeedMore None (in_buffer c1)) \<and>
        (\<forall>zs. next_frame m (codec_header c) (in_buffer c @ zs) = next_frame m (codec_header c1) (in_buffer c1 @ zs))
    | (Err e, c1, w1) \<Rightarrow> \<forall>zs. next_frame m (codec_header c) (in_buffer c @ zs) = Refused e
    | (Panic, c1, w1) \<Rightarrow> False"
proof (cases "codec_header c")
  case (Some hl)
  then show ?thesis using ok by (simp add: parse_step_def)
next
  case None
  obtain r n where p: "parse_internal (in_buffer c) = (r, n)" by fastforce
  show ?thesis
  proof (cases r)
    case Panic
    then show ?thesis using p parse_internal_no_panic [of "in_buffer c"] by simp
  next
    case (Err e)
    then show ?thesis
      using p None next_frame_None_append [OF p] by (simp add: parse_step_def header_parse_def)
  next
    case (Ok opt)
    show ?thesis
    proof (cases opt)
      case None': None
      have "length (in_buffer (c\<lparr>codec_header := None\<rparr>)) + header_max_size \<le> isize_max"
        using ok by (simp add: in_ok_def)
      then obtain cap w' where r: "reserve_in header_max_size (c\<lparr>codec_header := None\<rparr>) w =
            (Ok (), (c\<lparr>codec_header := None\<rparr>)\<lparr>in_cap := cap\<rparr>, w')"
          "in_cap c \<le> cap" "length (in_buffer c) + header_max_size \<le> cap" "reads w' = reads w"
        by (rule reserve_in_spec [of "c\<lparr>codec_header := None\<rparr>" header_max_size w]) simp_all
      moreover have "next_frame m None (in_buffer c) = NeedMore None (in_buffer c)"
        using p None' Ok by (simp add: next_frame_def)
      ultimately show ?thesis
        using ok p None None' Ok
        by (simp add: parse_step_def header_parse_def advance_in_def in_ok_def header_max_size_def)
    next
      case (Some hl)
      obtain h len where hl: "hl = (h, len)" by fastforce
      note cons = parse_internal_consumed [of "in_buffer c" h len n]
      let ?c1 = "advance_in n (c\<lparr>codec_header := Some (h, len)\<rparr>)"
      show ?thesis
      proof (cases "len > m")
        case True
        then show ?thesis
          using p None Ok Some hl next_frame_None_append [OF p]
          by (simp add: parse_step_def header_parse_def)
      next
        case False
        then have us: "as_usize len = len"
          using ok isize_less_usize by (intro as_usize_id) (simp add: in_ok_def)
        have "length (in_buffer ?c1) + len \<le> isize_max"
          using ok False unfolding in_ok_def advance_in_def by simp linarith
        then obtain cap w' where r: "reserve_in len ?c1 w = (Ok (), ?c1\<lparr>in_cap := cap\<rparr>, w')"
            "in_cap ?c1 \<le> cap" "length (in_buffer ?c1) + len \<le> cap" "reads w' = reads w"
          by (rule reserve_in_spec [of ?c1 len w]) simp_all
        have "in_ok m (?c1\<lparr>in_cap := cap\<rparr>) w'"
          using ok r False unfolding in_ok_def advance_in_def by simp linarith
        moreover have "next_frame m None (in_buffer c @ zs) = next_frame m (Some (h, len)) (in_buffer ?c1 @ zs)" for zs
          using next_frame_None_append [OF p, of m zs] Ok Some hl False
          by (simp add: next_frame_def advance_in_def)
        ultimately show ?thesis
          using p None Ok Some hl False r(1,4) us
          by (simp add: parse_step_def header_parse_def advance_in_def)
      qed
    qed
  qed
qed

lemma split_payload_Some:
  assumes "in_ok m c w" "split_payload c = Some (data, c2)"
  obtains h where "codec_header c = Some (h, length data)" "codec_header c2 = codec_header c"
    "next_frame m (codec_header c) (in_buffer c @ zs) = GotFrame h data (in_buffer c2 @ zs)"
    "in_ok m (c2\<lparr>codec_header := None\<rparr>) w"
proof -
  obtain h len where h: "codec_header c = Some (h, len)"
    using assms(2) by (auto simp: split_payload_def split: option.splits)
  have "as_usize len = len"
    using assms(1) h isize_less_usize by (intro as_usize_id) (simp add: in_ok_def)
  then have "len \<le> length (in_buffer c)" "data = take len (in_buffer c)" "c2 = advance_in len c"
    using assms(2) h by (auto simp: split_payload_def Let_def split: if_splits)
  moreover from this have "in_ok m (c2\<lparr>codec_header := None\<rparr>) w"
    using assms(1) by (simp add: advance_in_def in_ok_def diff_le_mono le_diff_conv)
  ultimately show thesis
    using that [of h] h by (simp add: advance_in_def next_frame_def take_payload_def)
qed

lemma split_payload_None:
  assumes "in_ok m c w" "split_payload c = None" "codec_header c \<noteq> None"
  shows "next_frame m (codec_header c) (in_buffer c) = NeedMore (codec_header c) (in_buffer c)"
proof -
  obtain h len where h: "codec_header c = Some (h, len)" using assms(3) by auto
  have "as_usize len = len"
    using assms(1) h isize_less_usize by (intro as_usize_id) (simp add: in_ok_def)
  then show ?thesis
    using assms(2) h by (auto simp: split_payload_def next_frame_def take_payload_def Let_def split: if_splits)
qed

text \<open>
  What ends a series of nonempty chunks: the end of the script, an error of the stream, or
  an empty read, which stands for the end of the file.
\<close>

fun stop_result :: "read_event list \<Rightarrow> 'a option result option" where
  "stop_result [] = Some (Ok None)"
| "stop_result (RdErr k # rs) = Some (Err (Io k))"
| "stop_result (RdBytes bs # rs) = (if bs = [] then Some (Ok None) else None)"

definition chunked :: "bytes list \<Rightarrow> read_event list \<Rightarrow> world \<Rightarrow> bool" where
  "chunked chunks tail w \<longleftrightarrow> reads w = map RdBytes chunks @ tail \<and> [] \<notin> set chunks \<and>
     stop_result tail \<noteq> (None :: unit option result option)"

lemma stop_result_cases:
  assumes "stop_result tail \<noteq> (None :: unit option result option)"
  obtains "tail = []" | k rs where "tail = RdErr k # rs" | rs where "tail = RdBytes [] # rs"
  using assms by (cases tail rule: stop_result.cases) (auto split: if_splits)

text \<open>A read with room: it takes bytes from the first chunk, or meets the end.\<close>

lemma read_in_chunk:
  assumes ok: "in_ok m c w" and ch: "chunked (b # bs) tail w"
    and room: "0 < room_of c"
  obtains n c' w' chunks' where "read_in (c, w) = (Ok n, c', w')" "n \<noteq> 0" "in_ok m c' w'"
    "chunked chunks' tail w'" "in_buffer c' @ concat chunks' = in_buffer c @ b @ concat bs"
    "codec_header c' = codec_header c"
proof -
  let ?room = "room_of c"
  have b: "reads w = RdBytes b # map RdBytes bs @ tail" "b \<noteq> []" "[] \<notin> set bs"
    using ch by (auto simp: chunked_def)
  have le: "length (in_buffer c) + ?room \<le> in_cap c" using ok by (auto simp: in_ok_def room_of_def)
  show thesis
  proof (cases "length b \<le> ?room")
    case True
    let ?c = "c\<lparr>in_buffer := in_buffer c @ b\<rparr>" and ?w = "w\<lparr>reads := map RdBytes bs @ tail\<rparr>"
    have "read_in (c, w) = (Ok (length b), ?c, ?w)"
      using True room b by (simp add: read_in_room stream_read_def)
    moreover have "in_ok m ?c ?w" using ok le True b(1) by (auto simp: in_ok_def split: option.splits)
    moreover have "chunked bs tail ?w" using ch by (simp add: chunked_def)
    ultimately show thesis using that [of "length b" ?c ?w bs] b(2) by simp
  next
    case False
    let ?c = "c\<lparr>in_buffer := in_buffer c @ take ?room b\<rparr>"
      and ?w = "w\<lparr>reads := RdBytes (drop ?room b) # map RdBytes bs @ tail\<rparr>"
    have "read_in (c, w) = (Ok ?room, ?c, ?w)"
      using False room b by (simp add: read_in_room stream_read_def)
    moreover have "in_ok m ?c ?w"
      using ok le False b(1) by (auto simp: in_ok_def split: option.splits)
    moreover have "chunked (drop ?room b # bs) tail ?w" using ch False by (auto simp: chunked_def)
    ultimately show thesis using that [of ?room ?c ?w "drop ?room b # bs"] room by simp
  qed
qed

lemma read_in_stop:
  assumes ch: "chunked [] tail w"
    and room: "0 < room_of c"
  obtains r w' where "read_in (c, w) = (r, c, w')" "reads w' = tl tail"
    "(stop_result tail :: 'a option result option) = Some (case r of Ok n \<Rightarrow> Ok None | Err k \<Rightarrow> Err (Io k) | Panic \<Rightarrow> Panic)"
    "r = Ok 0 \<or> (\<exists>k. r = Err k)"
proof -
  have t: "reads w = tail" "stop_result tail \<noteq> (None :: unit option result option)"
    using ch by (simp_all add: chunked_def)
  from t(2) show thesis
  proof (cases rule: stop_result_cases)
    case 1
    then show thesis using t(1) room that [of "Ok 0" w] by (simp add: read_in_room stream_read_def)
  next
    case (2 k rs)
    then show thesis
      using t(1) room that [of "Err k" "w\<lparr>reads := rs\<rparr>"] by (simp add: read_in_room stream_read_def)
  next
    case (3 rs)
    then show thesis
      using t(1) room that [of "Ok 0" "w\<lparr>reads := rs\<rparr>"] by (simp add: read_in_room stream_read_def)
  qed
qed

text \<open>The loop computes \<open>next_frame\<close> of everything that is buffered and still to come.\<close>

lemma read_loop_spec:
  assumes "in_ok m c w" "chunked chunks tail w"
  shows "case next_frame m (codec_header c) (in_buffer c @ concat chunks) of
      GotFrame h data rest \<Rightarrow>
        (\<exists>c' w' chunks'. read_loop m (c, w) = (Ok (Some data), c', w') \<and>
           codec_header c' = Some (h, length data) \<and> in_ok m (c'\<lparr>codec_header := None\<rparr>) w' \<and>
           chunked chunks' tail w' \<and> in_buffer c' @ concat chunks' = rest)
    | NeedMore hdr rest \<Rightarrow>
        (\<exists>r c' w'. read_loop m (c, w) = (r, c', w') \<and> stop_result tail = Some r \<and>
           codec_header c' = hdr \<and> in_buffer c' = rest \<and> reads w' = tl tail)
    | Refused e \<Rightarrow> fst (read_loop m (c, w)) = Err e"
  using assms
proof (induction m "(c, w)" arbitrary: c w chunks rule: read_loop.induct)
  case (1 m)
  note ok = "1.prems"(1) and ch = "1.prems"(2)
  note step = parse_step_spec [OF ok]
  obtain r c1 w1 where p: "parse_step m (c, w) = (r, c1, w1)" by (metis prod.exhaust)
  show ?case
  proof (cases r)
    case Panic
    then show ?thesis using step p by simp
  next
    case (Err e)
    then have "next_frame m (codec_header c) (in_buffer c @ concat chunks) = Refused e"
      using step p by simp
    then show ?thesis using p Err by (simp add: read_loop.simps)
  next
    case (Ok u)
    then have ok1: "in_ok m c1 w1" and ch1: "chunked chunks tail w1"
      and none: "codec_header c1 = None \<Longrightarrow> length (in_buffer c1) < in_cap c1 \<and>
        next_frame m None (in_buffer c1) = NeedMore None (in_buffer c1)"
      and nf: "\<And>zs. next_frame m (codec_header c) (in_buffer c @ zs) = next_frame m (codec_header c1) (in_buffer c1 @ zs)"
      using step p ch by (auto simp: chunked_def)
    show ?thesis
    proof (cases "split_payload c1")
      case (Some dc)
      obtain data c2 where dc: "dc = (data, c2)" by fastforce
      obtain h where "codec_header c1 = Some (h, length data)" "codec_header c2 = codec_header c1"
          "next_frame m (codec_header c1) (in_buffer c1 @ concat chunks) = GotFrame h data (in_buffer c2 @ concat chunks)"
          "in_ok m (c2\<lparr>codec_header := None\<rparr>) w1"
        by (rule split_payload_Some [OF ok1 Some [unfolded dc]])
      then show ?thesis
        using p Ok Some dc nf ch1 by (auto simp: read_loop.simps)
    next
      case None
      have room: "0 < room_of c1" using in_ok_room [OF ok1 None] none by blast
      have need: "next_frame m (codec_header c1) (in_buffer c1) = NeedMore (codec_header c1) (in_buffer c1)"
        using none split_payload_None [OF ok1 None] by (cases "codec_header c1") auto
      show ?thesis
      proof (cases chunks)
        case Nil
        then obtain r' w' where "read_in (c1, w1) = (r', c1, w')" "reads w' = tl tail"
            "(stop_result tail :: bytes option result option) =
               Some (case r' of Ok n \<Rightarrow> Ok None | Err k \<Rightarrow> Err (Io k) | Panic \<Rightarrow> Panic)"
            "r' = Ok 0 \<or> (\<exists>k. r' = Err k)"
          using read_in_stop [of tail w1 c1] ch1 room by blast
        then show ?thesis
          using p Ok None nf [of "[]"] need Nil by (auto simp: read_loop.simps)
      next
        case (Cons b bs)
        then obtain n c2 w2 chunks2 where rd: "read_in (c1, w1) = (Ok n, c2, w2)" "n \<noteq> 0" "in_ok m c2 w2"
            "chunked chunks2 tail w2" "in_buffer c2 @ concat chunks2 = in_buffer c1 @ b @ concat bs"
            "codec_header c2 = codec_header c1"
          using read_in_chunk [OF ok1 _ room, of b bs tail] ch1 by blast
        have eq: "read_loop m (c, w) = read_loop m (c2, w2)"
          using p Ok None rd by (simp add: read_loop.simps [of m "(c, w)"])
        have same: "next_frame m (codec_header c) (in_buffer c @ concat chunks) =
            next_frame m (codec_header c2) (in_buffer c2 @ concat chunks2)"
          using nf [of "concat chunks"] rd Cons by simp
        show ?thesis
          unfolding eq same
          by (rule "1.hyps" [OF p [symmetric] Ok refl None rd(1) [symmetric] refl rd(2) rd(3,4)])
      qed
    qed
  qed
qed

section \<open>Frames read\<close>

definition read_limit :: "nat option \<Rightarrow> nat" where
  "read_limit max_size = (case max_size of Some n \<Rightarrow> n | None \<Rightarrow> usize_max)"

text \<open>What a frame on the wire becomes, depending on the two flags of \<open>read_frame\<close>.\<close>

definition deliver :: "bool \<Rightarrow> bool \<Rightarrow> frame_header \<Rightarrow> bytes \<Rightarrow> frame result" where
  "deliver do_unmask accept_unmasked h data =
     (if \<not> do_unmask then Ok \<lparr>header = h, payload = data\<rparr>
      else if is_some (hdr_mask h)
           then Ok \<lparr>header = h\<lparr>hdr_mask := None\<rparr>, payload = unmask (hdr_mask h) data\<rparr>
           else if accept_unmasked then Ok \<lparr>header = h, payload = data\<rparr>
                else Err (Protocol UnmaskedFrameFromClient))"

fun to_option :: "'a result \<Rightarrow> 'a option result" where
  "to_option (Ok a) = Ok (Some a)" | "to_option (Err e) = Err e" | "to_option Panic = Panic"

lemma read_frame_of_loop:
  assumes "read_loop (read_limit max_size) s = (Ok (Some data), c1, w1)" "codec_header c1 = Some (h, n)"
  shows "read_frame max_size u a s = (to_option (deliver u a h data), c1\<lparr>codec_header := None\<rparr>, w1)"
  using assms
  by (auto simp: read_frame_def read_limit_def deliver_def frame_from_payload_def unmask_def Let_def
      split: option.splits)

lemma read_frame_of_loop_other:
  assumes "read_loop (read_limit max_size) s = (r, s1)" "\<And>data. r \<noteq> Ok (Some data)"
  shows "read_frame max_size u a s = ((case r of Ok _ \<Rightarrow> Ok None | Err e \<Rightarrow> Err e | Panic \<Rightarrow> Panic), s1)"
  using assms
  by (auto simp: read_frame_def read_limit_def Let_def split: outcome.splits option.splits prod.splits)

text \<open>
  Claim C5. \<open>read_frame\<close> implements \<open>next_frame\<close>: whatever chunks the stream delivers and
  whatever capacities the buffer gets, the frame, the error or the wait is a function of the
  bytes alone, and what follows the frame is left for the next call. It never panics.
\<close>

theorem read_frame_refines:
  assumes "in_ok (read_limit max_size) c w" "chunked chunks tail w"
  shows "case next_frame (read_limit max_size) (codec_header c) (in_buffer c @ concat chunks) of
      GotFrame h data rest \<Rightarrow>
        (\<exists>c' w' chunks'. read_frame max_size u a (c, w) = (to_option (deliver u a h data), c', w') \<and>
           codec_header c' = None \<and> in_ok (read_limit max_size) c' w' \<and>
           chunked chunks' tail w' \<and> in_buffer c' @ concat chunks' = rest)
    | NeedMore hdr rest \<Rightarrow>
        (\<exists>r c' w'. read_frame max_size u a (c, w) = (r, c', w') \<and> stop_result tail = Some r \<and>
           codec_header c' = hdr \<and> in_buffer c' = rest \<and> reads w' = tl tail)
    | Refused e \<Rightarrow> fst (read_frame max_size u a (c, w)) = Err e"
proof (cases "next_frame (read_limit max_size) (codec_header c) (in_buffer c @ concat chunks)")
  case (GotFrame h data rest)
  then obtain c' w' chunks' where r: "read_loop (read_limit max_size) (c, w) = (Ok (Some data), c', w')"
      "codec_header c' = Some (h, length data)" "in_ok (read_limit max_size) (c'\<lparr>codec_header := None\<rparr>) w'"
      "chunked chunks' tail w'" "in_buffer c' @ concat chunks' = rest"
    using read_loop_spec [OF assms] by auto
  show ?thesis
    unfolding GotFrame decoded.case
    using read_frame_of_loop [OF r(1,2), of u a] r(3-5)
    by (intro exI [of _ "c'\<lparr>codec_header := None\<rparr>"] exI [of _ w'] exI [of _ chunks']) auto
next
  case (NeedMore hdr rest)
  then obtain r c' w' where r: "read_loop (read_limit max_size) (c, w) = (r, c', w')"
      "stop_result tail = Some r" "codec_header c' = hdr" "in_buffer c' = rest" "reads w' = tl tail"
    using read_loop_spec [OF assms] by auto
  have stop: "r = Ok None \<or> (\<exists>k. r = Err (Io k))"
    using r(2) by (cases tail rule: stop_result.cases) (auto split: if_splits)
  have "stop_result tail = Some (case r of Ok _ \<Rightarrow> Ok None | Err e \<Rightarrow> Err e | Panic \<Rightarrow> Panic)"
    using r(2) by (cases tail rule: stop_result.cases) (auto split: if_splits)
  then show ?thesis
    using read_frame_of_loop_other [OF r(1), of u a] r stop NeedMore by auto
next
  case (Refused e)
  then have "fst (read_loop (read_limit max_size) (c, w)) = Err e" using read_loop_spec [OF assms] by simp
  then obtain s1 where "read_loop (read_limit max_size) (c, w) = (Err e, s1)"
    by (cases "read_loop (read_limit max_size) (c, w)") simp
  from read_frame_of_loop_other [OF this, of u a] show ?thesis by (simp add: Refused)
qed

theorem read_frame_refines_witness:
  "\<exists>c' w'. read_frame (Some 16) True False
       (codec_new 4, \<lparr>reads = [RdBytes [0x81, 0x82, 1], RdBytes [1, 1, 1, 0x49, 0x68]], writes = [], flushes = [],
          sent = [], masks = (\<lambda>_. (0, 0, 0, 0)), draws = 0, slack = [3]\<rparr>) =
     (Ok (Some \<lparr>header = default_header\<lparr>hdr_opcode := DataOp TextOp\<rparr>, payload = [0x48, 0x69]\<rparr>), c', w')"
proof -
  let ?w = "\<lparr>reads = [RdBytes [0x81, 0x82, 1], RdBytes [1, 1, 1, 0x49, 0x68]], writes = [], flushes = [],
      sent = [], masks = (\<lambda>_. (0, 0, 0, 0)), draws = 0, slack = [3]\<rparr> :: world"
  let ?h = "default_header\<lparr>hdr_opcode := DataOp TextOp, hdr_mask := Some (1, 1, 1, 1)\<rparr>"
  have ok: "in_ok (read_limit (Some 16)) (codec_new 4) ?w"
    by (simp add: in_ok_def codec_new_def header_max_size_def read_limit_def isize_max_def usize_bits_def)
  have ch: "chunked [[0x81, 0x82, 1], [1, 1, 1, 0x49, 0x68]] [] ?w" by (simp add: chunked_def)
  have nf: "next_frame (read_limit (Some 16)) (codec_header (codec_new 4))
      (in_buffer (codec_new 4) @ concat [[0x81, 0x82, 1], [1, 1, 1, 0x49, 0x68]]) = GotFrame ?h [0x49, 0x68] []"
    by (simp add: codec_new_def next_frame_def parse_internal_def opcode_from_u8_def read_length_def
        for_byte_def read_limit_def take_payload_def default_header_def Let_def)
  have un: "unmask (Some (1, 1, 1, 1)) [0x49, 0x68] = [0x48, 0x69 :: u8]"
    by (simp add: unmask_def apply_mask_eq)
  have dl: "deliver True False ?h [0x49, 0x68] =
      Ok \<lparr>header = default_header\<lparr>hdr_opcode := DataOp TextOp\<rparr>, payload = [0x48, 0x69]\<rparr>"
    by (simp add: deliver_def un) (simp add: default_header_def)
  show ?thesis
    using read_frame_refines [OF ok ch, of True False] unfolding nf by (auto simp: dl)
qed

text \<open>
  \<open>write\<close> of a frame is all or nothing: a frame that fits into the write buffer is
  queued behind everything written before, even when the stream then fails; one that does
  not fit is handed back and nothing changes. The bytes sent plus the bytes buffered are
  exactly the wire forms of the frames accepted.
\<close>

theorem buffer_frame_queues:
  "case buffer_frame f (c, w) of (r, c', w') \<Rightarrow>
     if sat_add (frame_len f) (length (out_buffer c)) \<le> max_out_buffer_len c
     then sent w' @ out_buffer c' = sent w @ out_buffer c @ wire f \<and>
       (r = Ok () \<or> (\<exists>k. r = Err (Io k)))
     else r = Err (WriteBufferFull (RawFrame f)) \<and> (c', w') = (c, w)"
proof -
  obtain r c' w' where b: "buffer_frame f (c, w) = (r, c', w')" by (metis prod.exhaust)
  show ?thesis
  proof (cases "can_buffer c (frame_len f)")
    case True
    show ?thesis
      using buffer_frame_fits [OF b True] True b
      by (cases r) (auto simp: stream_so_far_def can_buffer_def)
  next
    case False
    then show ?thesis using buffer_frame_full [OF False, of w] by (simp add: can_buffer_def)
  qed
qed

text \<open>
  Flushing keeps the order and loses nothing: \<open>write_out_buffer\<close> moves a prefix of
  the buffer to the stream, all of it when it succeeds; when the stream fails, or accepts
  nothing, the rest stays buffered for the next call. It always returns.
\<close>

theorem write_out_buffer_moves:
  "case write_out_buffer (c, w) of (r, c', w') \<Rightarrow>
     sent w' @ out_buffer c' = sent w @ out_buffer c \<and> c' = c\<lparr>out_buffer := out_buffer c'\<rparr> \<and>
     (case r of Ok u \<Rightarrow> out_buffer c' = []
      | Err e \<Rightarrow> (\<exists>k. e = Io k) \<and> out_buffer c' \<noteq> []
      | Panic \<Rightarrow> False)"
proof -
  obtain r c' w' where b: "write_out_buffer (c, w) = (r, c', w')" by (metis prod.exhaust)
  show ?thesis using write_out_buffer_spec [OF b] b by simp
qed

lemma next_frame_wire:
  assumes "wire_frame f" "length (payload f) \<le> m"
  shows "next_frame m None (wire f @ zs) = GotFrame (header f) (wire_payload f) zs"
proof -
  have "wire_header (header f, length (payload f))" using assms(1) by (simp add: wire_frame_def)
  from parse_internal_format [OF this, of "wire_payload f @ zs"] show ?thesis
    using assms(2) length_header_format [of "header f" "length (payload f)"]
    by (simp add: next_frame_def wire_def take_payload_def)
qed

definition idle_world :: world where
  "idle_world = \<lparr>reads = [], writes = [], flushes = [], sent = [], masks = (\<lambda>_. (0, 0, 0, 0)), draws = 0, slack = []\<rparr>"

text \<open>Once a header is there, the limit is not looked at any more.\<close>

lemma read_loop_ignores_limit:
  "codec_header c = Some hdr \<Longrightarrow> read_loop m (c, w) = read_loop m' (c, w)"
proof (induction m "(c, w)" arbitrary: c w rule: read_loop.induct)
  case (1 m c w)
  have p: "parse_step k (c, w) = (Ok (), c, w)" for k using 1(2) by (simp add: parse_step_def)
  obtain r c2 w2 where rd: "read_in (c, w) = (r, c2, w2)" by (metis prod.exhaust)
  have "codec_header c2 = Some hdr"
    using rd 1(2) by (auto simp: read_in_def Let_def split: prod.splits outcome.splits)
  then have "read_loop m (c2, w2) = read_loop m' (c2, w2)" if "split_payload c = None" "r = Ok n" "n \<noteq> 0" for n
    using 1(1) [OF p [symmetric] refl refl that(1) rd [symmetric] that(2,3)] by simp
  then show ?case
    by (subst (1 2) read_loop.simps) (simp add: p rd split: option.split outcome.split)
qed

lemma read_frame_ignores_limit:
  "codec_header c = Some hdr \<Longrightarrow> read_frame lim u a (c, w) = read_frame lim' u a (c, w)"
  unfolding read_frame_def Let_def
  using read_loop_ignores_limit [of c hdr "case lim of Some n \<Rightarrow> n | None \<Rightarrow> usize_max" w
      "case lim' of Some n \<Rightarrow> n | None \<Rightarrow> usize_max"] by simp

text \<open>
  Claim C39. The limit on the size of a frame is checked once, when its header is parsed. The
  call that meets a header over the limit fails with \<open>MessageTooLong\<close>, but the header stays in
  the codec, and the next call does not look at any limit, whatever has happened to the stream
  in between. If the whole payload is in the buffer by then, that call delivers the oversized
  frame (unmasked as a frame within the limit would be). If it is not and the buffer is full,
  the call has no room to read into and reports the end of the stream.
\<close>

theorem oversized_frame_on_retry:
  assumes "codec_header c = None" "parse_internal (in_buffer c) = (Ok (Some (h, len)), n)"
    and "m < len" "len \<le> usize_max"
  shows "\<exists>c1. read_frame (Some m) u a (c, w) = (Err (Capacity (MessageTooLong len m)), c1, w) \<and>
    (\<forall>lim w1. read_frame lim u a (c1, w1) = read_frame None u a (c1, w1)) \<and>
    (if len \<le> length (in_buffer c) - n
     then \<forall>w1. \<exists>c2. read_frame (Some m) u a (c1, w1) =
            (to_option (deliver u a h (take len (drop n (in_buffer c)))), c2, w1) \<and> codec_header c2 = None
     else in_cap c = length (in_buffer c) \<longrightarrow>
            (\<forall>w1. read_frame (Some m) u a (c1, w1) = (Ok None, c1, w1)))"
proof -
  let ?c1 = "advance_in n (c\<lparr>codec_header := Some (h, len)\<rparr>)"
  have us: "as_usize len = len" by (rule as_usize_id) (fact assms(4))
  have "parse_step m (c, w) = (Err (Capacity (MessageTooLong len m)), ?c1, w)"
    using assms us by (simp add: parse_step_def header_parse_def)
  then have first: "read_frame (Some m) u a (c, w) = (Err (Capacity (MessageTooLong len m)), ?c1, w)"
    by (simp add: read_frame_def read_loop.simps)
  have hdr: "codec_header ?c1 = Some (h, len)" by (simp add: advance_in_def)
  have p: "parse_step m (?c1, w1) = (Ok (), ?c1, w1)" for w1 by (simp add: parse_step_def advance_in_def)
  have "\<exists>c2. read_frame (Some m) u a (?c1, w1) =
      (to_option (deliver u a h (take len (drop n (in_buffer c)))), c2, w1) \<and> codec_header c2 = None"
    if "len \<le> length (in_buffer c) - n" for w1
  proof -
    have sp: "split_payload ?c1 = Some (take len (drop n (in_buffer c)), advance_in len ?c1)"
      using that us by (simp add: split_payload_def advance_in_def)
    have "read_loop (read_limit (Some m)) (?c1, w1) = (Ok (Some (take len (drop n (in_buffer c)))), advance_in len ?c1, w1)"
      by (subst read_loop.simps) (simp add: read_limit_def p sp)
    from read_frame_of_loop [OF this, of h len u a] hdr show ?thesis by (simp add: advance_in_def)
  qed
  moreover have "read_frame (Some m) u a (?c1, w1) = (Ok None, ?c1, w1)"
    if "\<not> len \<le> length (in_buffer c) - n" "in_cap c = length (in_buffer c)" for w1
  proof -
    have "split_payload ?c1 = None" "read_in (?c1, w1) = (Ok 0, ?c1, w1)"
      using that us by (simp_all add: split_payload_def read_in_def stream_read_def advance_in_def)
    then show ?thesis by (simp add: read_frame_def read_loop.simps p)
  qed
  ultimately show ?thesis using first read_frame_ignores_limit [OF hdr, of _ u a _ None] by auto
qed

text \<open>A binary frame of three bytes against a limit of two, in the buffer as a whole.\<close>

theorem oversized_frame_on_retry_witness:
  "\<exists>c1 c2. read_frame (Some 2) False True ((codec_new 20)\<lparr>in_buffer := [0x82, 3, 7, 8, 9]\<rparr>, idle_world) =
       (Err (Capacity (MessageTooLong 3 2)), c1, idle_world) \<and>
     read_frame (Some 2) False True (c1, idle_world) =
       (Ok (Some \<lparr>header = default_header\<lparr>hdr_opcode := DataOp BinaryOp\<rparr>, payload = [7, 8, 9]\<rparr>), c2, idle_world)"
proof -
  let ?c = "(codec_new 20)\<lparr>in_buffer := [0x82, 3, 7, 8, 9]\<rparr>" and ?h = "default_header\<lparr>hdr_opcode := DataOp BinaryOp\<rparr>"
  have "parse_internal (in_buffer ?c) = (Ok (Some (?h, 3)), 2)"
    by (simp add: parse_internal_def opcode_from_u8_def read_length_def for_byte_def default_header_def Let_def)
  moreover have "deliver False True ?h [7, 8, 9] = Ok \<lparr>header = ?h, payload = [7, 8, 9]\<rparr>" by (simp add: deliver_def)
  ultimately show ?thesis
    using oversized_frame_on_retry [of ?c ?h 3 2 2 False True idle_world]
    by (fastforce simp: codec_new_def usize_max_eq)
qed

end
