(* ===== verification/Deflate_Settings.thy ===== *)
theory Deflate_Settings
  imports Utf8
begin

text \<open>
  The permessage-deflate settings and their negotiation, \<open>src/src/protocol/deflate/mod.rs\<close>
  and \<open>src/src/protocol/deflate/negotiate.rs\<close>: the offer a client makes, the parser of the
  extension header, what a server accepts and what a client accepts as the answer.

  A header value is its bytes, and a \<open>HeaderMap\<close> is given by the values that
  \<open>get_all("Sec-WebSocket-Extensions")\<close> yields. The conversion of a generated text into a
  \<open>HeaderValue\<close> belongs to the \<open>http\<close> crate and is the parameter \<open>from_str\<close>. The default
  compression level belongs to \<open>flate2\<close>: \<open>None\<close> stands for it.
\<close>

section \<open>Settings\<close>

datatype role = Server | Client

record settings =
  compression :: "nat option"
  server_no_context_takeover :: bool
  client_no_context_takeover :: bool
  server_max_window_bits :: nat  \<comment> \<open>\<open>u8\<close>\<close>
  client_max_window_bits :: nat  \<comment> \<open>\<open>u8\<close>\<close>

definition default_settings :: settings where
  "default_settings = \<lparr>compression = None, server_no_context_takeover = False,
     client_no_context_takeover = False, server_max_window_bits = 15, client_max_window_bits = 15\<rparr>"

definition max_window_bits :: "role \<Rightarrow> nat \<Rightarrow> settings \<Rightarrow> (error, settings) outcome" where
  "max_window_bits r bits s =
     (if 9 \<le> bits \<and> bits \<le> 15 then
        Ok (case r of Server \<Rightarrow> s\<lparr>server_max_window_bits := bits\<rparr>
                    | Client \<Rightarrow> s\<lparr>client_max_window_bits := bits\<rparr>)
      else Panic)"

definition no_context_takeover :: "role \<Rightarrow> bool \<Rightarrow> settings \<Rightarrow> settings" where
  "no_context_takeover r on s =
     (case r of Server \<Rightarrow> s\<lparr>server_no_context_takeover := on\<rparr>
              | Client \<Rightarrow> s\<lparr>client_no_context_takeover := on\<rparr>)"

definition compression_level :: "nat \<Rightarrow> settings \<Rightarrow> (error, settings) outcome" where
  "compression_level level s = (if level \<le> 9 then Ok (s\<lparr>compression := Some level\<rparr>) else Panic)"

section \<open>Bytes and tokens\<close>

definition DEFLATE_NAME :: bytes where
  "DEFLATE_NAME = ascii ''permessage-deflate''"

definition semicolon :: u8 where "semicolon = 0x3B"
definition comma :: u8 where "comma = 0x2C"
definition quote :: u8 where "quote = 0x22"
definition backslash :: u8 where "backslash = 0x5C"
definition equals_sign :: u8 where "equals_sign = 0x3D"

definition invalid_header :: error where
  "invalid_header = Protocol (InvalidHeader (ascii ''sec-websocket-extensions''))"

definition ascii_lower :: "u8 \<Rightarrow> u8" where
  "ascii_lower b = (if 65 \<le> b \<and> b \<le> 90 then b + 32 else b)"

definition eq_ignore_ascii_case :: "bytes \<Rightarrow> bytes \<Rightarrow> bool" where
  "eq_ignore_ascii_case xs ys \<longleftrightarrow> map ascii_lower xs = map ascii_lower ys"

text \<open>\<open>u8::is_ascii_whitespace\<close>, which leaves out the vertical tab.\<close>

definition is_ascii_whitespace :: "u8 \<Rightarrow> bool" where
  "is_ascii_whitespace b \<longleftrightarrow> b = 32 \<or> b = 9 \<or> b = 10 \<or> b = 12 \<or> b = 13"

definition trim_ascii :: "bytes \<Rightarrow> bytes" where
  "trim_ascii xs = rev (dropWhile is_ascii_whitespace (rev (dropWhile is_ascii_whitespace xs)))"

text \<open>\<open>str::trim\<close>: the UTF-8 forms of the characters with the property \<open>White_Space\<close>.\<close>

definition unicode_whitespace :: "bytes list" where
  "unicode_whitespace =
     [[9], [10], [11], [12], [13], [32], [0xC2, 0x85], [0xC2, 0xA0], [0xE1, 0x9A, 0x80],
      [0xE2, 0x80, 0x80], [0xE2, 0x80, 0x81], [0xE2, 0x80, 0x82], [0xE2, 0x80, 0x83],
      [0xE2, 0x80, 0x84], [0xE2, 0x80, 0x85], [0xE2, 0x80, 0x86], [0xE2, 0x80, 0x87],
      [0xE2, 0x80, 0x88], [0xE2, 0x80, 0x89], [0xE2, 0x80, 0x8A], [0xE2, 0x80, 0xA8],
      [0xE2, 0x80, 0xA9], [0xE2, 0x80, 0xAF], [0xE2, 0x81, 0x9F], [0xE3, 0x80, 0x80]]"

fun strip_by :: "bytes list \<Rightarrow> nat \<Rightarrow> bytes \<Rightarrow> bytes" where
  "strip_by ws 0 xs = xs"
| "strip_by ws (Suc fuel) xs =
     (case find (\<lambda>w. take (length w) xs = w) ws of
        Some w \<Rightarrow> strip_by ws fuel (drop (length w) xs)
      | None \<Rightarrow> xs)"

definition trim_str :: "bytes \<Rightarrow> bytes" where
  "trim_str xs =
     (let ys = strip_by unicode_whitespace (length xs) xs
      in rev (strip_by (map rev unicode_whitespace) (length ys) (rev ys)))"

text \<open>\<open>slice::split(..).next()\<close> and \<open>str::split_once\<close>.\<close>

definition first_part :: "u8 \<Rightarrow> bytes \<Rightarrow> bytes" where
  "first_part d xs = takeWhile (\<lambda>b. b \<noteq> d) xs"

definition split_once :: "u8 \<Rightarrow> bytes \<Rightarrow> (bytes \<times> bytes) option" where
  "split_once d xs =
     (case dropWhile (\<lambda>b. b \<noteq> d) xs of [] \<Rightarrow> None | _ # after \<Rightarrow> Some (takeWhile (\<lambda>b. b \<noteq> d) xs, after))"

text \<open>
  The scanner of \<open>split_header\<close>: \<open>current\<close> is the part since \<open>start\<close>.
\<close>

fun split_scan :: "u8 \<Rightarrow> bool \<Rightarrow> bool \<Rightarrow> bytes \<Rightarrow> bytes list \<Rightarrow> bytes \<Rightarrow> bytes list result" where
  "split_scan d quoted escaped current parts [] =
     (if quoted \<or> escaped then Err invalid_header else Ok (parts @ [current]))"
| "split_scan d quoted escaped current parts (b # bs) =
     (if quoted then
        (if escaped then split_scan d quoted False (current @ [b]) parts bs
         else if b = backslash then split_scan d quoted True (current @ [b]) parts bs
         else if b = quote then split_scan d False escaped (current @ [b]) parts bs
         else split_scan d quoted escaped (current @ [b]) parts bs)
      else if b = quote then split_scan d True escaped (current @ [b]) parts bs
      else if b = d then split_scan d quoted escaped [] (parts @ [current]) bs
      else split_scan d quoted escaped (current @ [b]) parts bs)"

definition split_header :: "bytes \<Rightarrow> u8 \<Rightarrow> bytes list result" where
  "split_header value delimiter = split_scan delimiter False False [] [] value"

fun check_utf8_parts :: "bytes list \<Rightarrow> bytes list result" where
  "check_utf8_parts [] = Ok []"
| "check_utf8_parts (p # ps) =
     (if valid_utf8 p then bind_out (check_utf8_parts ps) (\<lambda>qs. Ok (p # qs)) else Err invalid_header)"

definition split_quoted :: "bytes \<Rightarrow> u8 \<Rightarrow> bytes list result" where
  "split_quoted value delimiter = bind_out (split_header value delimiter) check_utf8_parts"

fun unquote_rest :: "bytes \<Rightarrow> bytes \<Rightarrow> bytes result" where
  "unquote_rest out [] = Err invalid_header"
| "unquote_rest out (c # cs) =
     (if c = backslash then
        (case cs of [] \<Rightarrow> Err invalid_header | d # ds \<Rightarrow> unquote_rest (out @ [d]) ds)
      else if c = quote then (if cs = [] then Ok out else Err invalid_header)
      else unquote_rest (out @ [c]) cs)"

definition unquote :: "bytes \<Rightarrow> bytes result" where
  "unquote value =
     (case value of
        b # rest \<Rightarrow> if b = quote then unquote_rest [] rest
                    else if quote \<in> set value then Err invalid_header else Ok value
      | [] \<Rightarrow> Ok [])"

definition is_ascii_digit :: "u8 \<Rightarrow> bool" where
  "is_ascii_digit b \<longleftrightarrow> 48 \<le> b \<and> b \<le> 57"

text \<open>\<open>str::parse::<u8>\<close> on a text of digits.\<close>

definition parse_u8 :: "bytes \<Rightarrow> nat option" where
  "parse_u8 ds =
     (let n = foldl (\<lambda>n b. n * 10 + (unat b - 48)) 0 ds
      in if ds = [] \<or> n > 255 then None else Some n)"

definition parse_bits :: "bytes \<Rightarrow> nat result" where
  "parse_bits value =
     bind_out (unquote value) (\<lambda>value.
       if \<not> list_all is_ascii_digit value \<or> (length value > 1 \<and> hd value = 48) then Err invalid_header
       else case parse_u8 value of
           Some bits \<Rightarrow> if 8 \<le> bits \<and> bits \<le> 15 then Ok bits else Err invalid_header
         | None \<Rightarrow> Err invalid_header)"

section \<open>Extension parameters\<close>

datatype client_window = AbsentWindow | NoValue | Bits nat

record params =
  p_server_nct :: bool
  p_client_nct :: bool
  p_server_bits :: "nat option"
  p_client_window :: client_window
  p_seen :: u8

definition default_params :: params where
  "default_params = \<lparr>p_server_nct = False, p_client_nct = False, p_server_bits = None,
     p_client_window = AbsentWindow, p_seen = 0\<rparr>"

datatype extension = EmptyExtension | Deflate params | OtherExtension

definition parameter_bit :: "bytes \<Rightarrow> u8 option" where
  "parameter_bit name =
     (if eq_ignore_ascii_case name (ascii ''server_no_context_takeover'') then Some 1
      else if eq_ignore_ascii_case name (ascii ''client_no_context_takeover'') then Some 2
      else if eq_ignore_ascii_case name (ascii ''server_max_window_bits'') then Some 4
      else if eq_ignore_ascii_case name (ascii ''client_max_window_bits'') then Some 8
      else None)"

definition split_parameter :: "bytes \<Rightarrow> bytes \<times> bytes option" where
  "split_parameter parameter =
     (case split_once equals_sign (trim_str parameter) of
        Some (name, value) \<Rightarrow> (trim_str name, Some (trim_str value))
      | None \<Rightarrow> (trim_str parameter, None))"

definition parse_parameter :: "bytes \<Rightarrow> params \<Rightarrow> params result" where
  "parse_parameter parameter parsed =
     (case split_parameter parameter of (name, value) \<Rightarrow>
       (case parameter_bit name of
          None \<Rightarrow> Err invalid_header
        | Some flag \<Rightarrow>
            (if p_seen parsed AND flag \<noteq> 0 then Err invalid_header
             else
               (let parsed1 = parsed\<lparr>p_seen := p_seen parsed OR flag\<rparr> in
                if flag = 1 \<and> value = None then Ok (parsed1\<lparr>p_server_nct := True\<rparr>)
                else if flag = 2 \<and> value = None then Ok (parsed1\<lparr>p_client_nct := True\<rparr>)
                else if flag = 4 then
                  (case value of
                     None \<Rightarrow> Err invalid_header
                   | Some v \<Rightarrow> bind_out (parse_bits v) (\<lambda>n. Ok (parsed1\<lparr>p_server_bits := Some n\<rparr>)))
                else if flag = 8 then
                  (case value of
                     None \<Rightarrow> Ok (parsed1\<lparr>p_client_window := NoValue\<rparr>)
                   | Some v \<Rightarrow> bind_out (parse_bits v) (\<lambda>n. Ok (parsed1\<lparr>p_client_window := Bits n\<rparr>)))
                else Err invalid_header))))"

fun parse_parameters :: "bytes list \<Rightarrow> params \<Rightarrow> params result" where
  "parse_parameters [] parsed = Ok parsed"
| "parse_parameters (p # ps) parsed = bind_out (parse_parameter p parsed) (parse_parameters ps)"

definition parse_extension :: "bytes \<Rightarrow> extension result" where
  "parse_extension ext =
     (let name = trim_ascii (first_part semicolon ext) in
      if name = [] then
        (if trim_ascii ext = [] then Ok EmptyExtension else Err invalid_header)
      else if \<not> eq_ignore_ascii_case name DEFLATE_NAME then Ok OtherExtension
      else if \<not> valid_utf8 ext then Err invalid_header
      else bind_out (split_quoted ext semicolon) (\<lambda>parts.
        bind_out (parse_parameters (tl parts) default_params) (\<lambda>p. Ok (Deflate p))))"

definition extension_is_deflate :: "bytes \<Rightarrow> bool" where
  "extension_is_deflate ext \<longleftrightarrow> eq_ignore_ascii_case (trim_ascii (first_part semicolon ext)) DEFLATE_NAME"

fun headers_select_deflate :: "bytes list \<Rightarrow> bool result" where
  "headers_select_deflate [] = Ok False"
| "headers_select_deflate (value # values) =
     bind_out (split_header value comma) (\<lambda>exts.
       if list_ex extension_is_deflate exts then Ok True else headers_select_deflate values)"

section \<open>The offer\<close>

definition to_header :: "(bytes \<Rightarrow> bytes option) \<Rightarrow> bytes \<Rightarrow> bytes result" where
  "to_header from_str value = (case from_str value of Some v \<Rightarrow> Ok v | None \<Rightarrow> Panic)"

definition offer :: "(bytes \<Rightarrow> bytes option) \<Rightarrow> settings \<Rightarrow> bytes result" where
  "offer from_str s =
     to_header from_str
       (DEFLATE_NAME
        @ (if server_no_context_takeover s then ascii ''; server_no_context_takeover'' else [])
        @ (if client_no_context_takeover s then ascii ''; client_no_context_takeover'' else [])
        @ (if server_max_window_bits s < 15
           then ascii ''; server_max_window_bits='' @ decimal (server_max_window_bits s) else [])
        @ ascii ''; client_max_window_bits'')"

section \<open>What a client accepts\<close>

fun select_deflate :: "bytes list \<Rightarrow> params option \<Rightarrow> params option result" where
  "select_deflate [] selected = Ok selected"
| "select_deflate (e # es) selected =
     bind_out (parse_extension e) (\<lambda>ext.
       case ext of
         EmptyExtension \<Rightarrow> select_deflate es selected
       | Deflate p \<Rightarrow> (if selected = None then select_deflate es (Some p) else Err invalid_header)
       | OtherExtension \<Rightarrow> Err invalid_header)"

fun select_in_values :: "bytes list \<Rightarrow> params option \<Rightarrow> params option result" where
  "select_in_values [] selected = Ok selected"
| "select_in_values (v # vs) selected =
     bind_out (split_header v comma) (\<lambda>exts.
       bind_out (select_deflate exts selected) (select_in_values vs))"

definition accept_params :: "settings \<Rightarrow> params \<Rightarrow> settings result" where
  "accept_params s p =
     (if server_no_context_takeover s \<and> \<not> p_server_nct p then Err invalid_header
      else
        (let agreed = s\<lparr>server_no_context_takeover := p_server_nct p,
                        client_no_context_takeover := client_no_context_takeover s \<or> p_client_nct p\<rparr>
         in bind_out
              (case p_server_bits p of
                 Some bits \<Rightarrow>
                   (if bits > server_max_window_bits s then Err invalid_header
                    else Ok (agreed\<lparr>server_max_window_bits := bits\<rparr>))
               | None \<Rightarrow> if server_max_window_bits s < 15 then Err invalid_header else Ok agreed)
              (\<lambda>agreed.
                case p_client_window p of
                  Bits bits \<Rightarrow>
                    (if bits = 8 then Err invalid_header
                     else Ok (agreed\<lparr>client_max_window_bits := min bits (client_max_window_bits s)\<rparr>))
                | NoValue \<Rightarrow> Err invalid_header
                | AbsentWindow \<Rightarrow> Ok agreed)))"

definition accept_response :: "settings \<Rightarrow> bytes list \<Rightarrow> settings option result" where
  "accept_response s values =
     bind_out (select_in_values values None) (\<lambda>selected.
       case selected of
         None \<Rightarrow> Ok None
       | Some p \<Rightarrow> bind_out (accept_params s p) (\<lambda>agreed. Ok (Some agreed)))"

section \<open>What a server accepts\<close>

definition accept_offer ::
  "(bytes \<Rightarrow> bytes option) \<Rightarrow> settings \<Rightarrow> params \<Rightarrow> (settings \<times> bytes) option result" where
  "accept_offer from_str s p =
     (if p_server_bits p = Some 8 then Ok None
      else
        (let server_window =
               (case p_server_bits p of
                  Some bits \<Rightarrow> Some (min bits (server_max_window_bits s))
                | None \<Rightarrow> if server_max_window_bits s < 15 then Some (server_max_window_bits s) else None);
             client_window =
               (case p_client_window p of
                  AbsentWindow \<Rightarrow> 15
                | NoValue \<Rightarrow> client_max_window_bits s
                | Bits bits \<Rightarrow> min bits (client_max_window_bits s));
             agreed = s\<lparr>
               server_no_context_takeover := server_no_context_takeover s \<or> p_server_nct p,
               client_no_context_takeover := client_no_context_takeover s \<or> p_client_nct p,
               server_max_window_bits :=
                 (case server_window of Some bits \<Rightarrow> bits | None \<Rightarrow> server_max_window_bits s),
               client_max_window_bits := client_window\<rparr>
         in bind_out
              (to_header from_str
                (DEFLATE_NAME
                 @ (if server_no_context_takeover agreed then ascii ''; server_no_context_takeover'' else [])
                 @ (if client_no_context_takeover agreed then ascii ''; client_no_context_takeover'' else [])
                 @ (case server_window of
                      Some bits \<Rightarrow> ascii ''; server_max_window_bits='' @ decimal bits
                    | None \<Rightarrow> [])
                 @ (if client_window < 15
                    then ascii ''; client_max_window_bits='' @ decimal client_window else [])))
              (\<lambda>response. Ok (Some (agreed, response)))))"

definition offered_extensions :: "bytes list \<Rightarrow> bytes list" where
  "offered_extensions offers =
     concat (map (\<lambda>v. case split_header v comma of Ok exts \<Rightarrow> exts | _ \<Rightarrow> []) offers)"

fun choose_offer ::
  "(bytes \<Rightarrow> bytes option) \<Rightarrow> settings \<Rightarrow> bytes list \<Rightarrow> (settings \<times> bytes) option
     \<Rightarrow> (settings \<times> bytes) option result"
where
  "choose_offer from_str s [] fallback = Ok fallback"
| "choose_offer from_str s (e # es) fallback =
     (case parse_extension e of
        Ok (Deflate p) \<Rightarrow>
          bind_out (accept_offer from_str s p) (\<lambda>accepted.
            case accepted of
              None \<Rightarrow> choose_offer from_str s es fallback
            | Some a \<Rightarrow>
                (if client_max_window_bits s = 15 \<or> client_max_window_bits (fst a) < 15 then Ok (Some a)
                 else choose_offer from_str s es (case fallback of Some f \<Rightarrow> Some f | None \<Rightarrow> Some a)))
      | Panic \<Rightarrow> Panic
      | _ \<Rightarrow> choose_offer from_str s es fallback)"

definition accept_offers ::
  "(bytes \<Rightarrow> bytes option) \<Rightarrow> settings \<Rightarrow> bytes list \<Rightarrow> (settings \<times> bytes) option result" where
  "accept_offers from_str s offers = choose_offer from_str s (offered_extensions offers) None"

end
