(* ===== verification/Deflate_Codec.thy ===== *)
theory Deflate_Codec
  imports Deflate_Settings
begin

text \<open>
  The permessage-deflate codec of one connection, \<open>src/src/protocol/deflate/codec.rs\<close>.
  \<open>flate2\<close>'s compressor and decompressor are parameters: a record \<open>flate\<close> of their
  operations over states \<open>'c\<close> and \<open>'d\<close>. One call of \<open>compress_vec\<close> or \<open>decompress\<close> gives the
  status, the number of bytes consumed (the difference of \<open>total_in\<close>) and the bytes
  produced (those between the two values of \<open>total_out\<close>). How much spare capacity
  \<open>compress_vec\<close> finds beyond the 4096 bytes reserved is part of the compressor's choice.

  A vector cannot grow beyond \<open>isize::MAX\<close> bytes: growing it further panics. This is also
  what ends the loops, whatever the compressor does.
\<close>

section \<open>The interface to flate2\<close>

datatype status = StatusOk | BufError | StreamEnd

record ('c, 'd) flate =
  compress_new :: "nat option \<Rightarrow> nat \<Rightarrow> 'c"  \<comment> \<open>level, window bits\<close>
  compress_reset :: "'c \<Rightarrow> 'c"
  compress_call :: "'c \<Rightarrow> bytes \<Rightarrow> bool \<Rightarrow> (unit, status \<times> nat \<times> bytes) outcome \<times> 'c"  \<comment> \<open>\<open>True\<close>: sync flush\<close>
  decompress_new :: "nat \<Rightarrow> 'd"
  decompress_reset :: "'d \<Rightarrow> 'd"
  decompress_call :: "'d \<Rightarrow> bytes \<Rightarrow> nat \<Rightarrow> (unit, status \<times> nat \<times> bytes) outcome \<times> 'd"  \<comment> \<open>room for output\<close>

record 'd decoder =
  dec_stream :: 'd
  dec_window_bits :: nat

record ('c, 'd) deflate_context =
  encoder :: 'c
  decoder_of :: "'d decoder"
  reset_encoder_flag :: bool
  reset_decoder_flag :: bool

section \<open>The decoder\<close>

definition reconstructs_on_reset :: "nat \<Rightarrow> bool" where
  "reconstructs_on_reset window_bits \<longleftrightarrow> window_bits < 15"

text \<open>\<open>flate2\<close> asserts that a window has 9 to 15 bits.\<close>

definition window_in_range :: "nat \<Rightarrow> bool" where
  "window_in_range n \<longleftrightarrow> 9 \<le> n \<and> n \<le> 15"

definition decoder_new :: "('c, 'd) flate \<Rightarrow> role \<Rightarrow> settings \<Rightarrow> 'd decoder result" where
  "decoder_new fl r s =
     (let peer_window = (case r of Client \<Rightarrow> server_max_window_bits s | Server \<Rightarrow> client_max_window_bits s);
          window_bits = max peer_window 9
      in if window_in_range window_bits
         then Ok \<lparr>dec_stream = decompress_new fl window_bits, dec_window_bits = window_bits\<rparr>
         else Panic)"

definition decoder_decompress ::
  "('c, 'd) flate \<Rightarrow> 'd decoder \<Rightarrow> bytes \<Rightarrow> nat \<Rightarrow> (status \<times> nat \<times> bytes) result \<times> 'd decoder" where
  "decoder_decompress fl d input writable =
     (case decompress_call fl (dec_stream d) input writable of
        (Ok r, stream) \<Rightarrow> (Ok r, d\<lparr>dec_stream := stream\<rparr>)
      | (Err _, stream) \<Rightarrow> (Err (Protocol Compression), d\<lparr>dec_stream := stream\<rparr>)
      | (Panic, stream) \<Rightarrow> (Panic, d\<lparr>dec_stream := stream\<rparr>))"

definition decoder_reset :: "('c, 'd) flate \<Rightarrow> 'd decoder \<Rightarrow> 'd decoder" where
  "decoder_reset fl d =
     (if reconstructs_on_reset (dec_window_bits d)
      then d\<lparr>dec_stream := decompress_new fl (dec_window_bits d)\<rparr>
      else d\<lparr>dec_stream := decompress_reset fl (dec_stream d)\<rparr>)"

section \<open>The context\<close>

definition deflate_context_new :: "('c, 'd) flate \<Rightarrow> role \<Rightarrow> settings \<Rightarrow> ('c, 'd) deflate_context result" where
  "deflate_context_new fl r s =
     (let (own_window, re, rd) =
            (case r of
               Client \<Rightarrow> (client_max_window_bits s, client_no_context_takeover s, server_no_context_takeover s)
             | Server \<Rightarrow> (server_max_window_bits s, server_no_context_takeover s, client_no_context_takeover s))
      in if window_in_range own_window then
           bind_out (decoder_new fl r s) (\<lambda>d.
             Ok \<lparr>encoder = compress_new fl (compression s) own_window, decoder_of = d,
                 reset_encoder_flag = re, reset_decoder_flag = rd\<rparr>)
         else Panic)"

definition reset_encoder :: "('c, 'd) flate \<Rightarrow> ('c, 'd) deflate_context \<Rightarrow> ('c, 'd) deflate_context" where
  "reset_encoder fl c = c\<lparr>encoder := compress_reset fl (encoder c)\<rparr>"

fun made_progress :: "status \<Rightarrow> nat \<Rightarrow> nat \<Rightarrow> bool result" where
  "made_progress st consumed produced =
     (if consumed \<noteq> 0 \<or> produced \<noteq> 0 then Ok True
      else case st of StatusOk \<Rightarrow> Err (Protocol Compression) | _ \<Rightarrow> Ok False)"

declare made_progress.simps [simp del]

lemma made_progress_True: "made_progress st c p = Ok True \<Longrightarrow> c \<noteq> 0 \<or> p \<noteq> 0"
  by (auto simp: made_progress.simps split: if_splits status.splits)

lemma made_progress_no_panic [simp]: "made_progress st c p \<noteq> Panic"
  by (auto simp: made_progress.simps split: status.splits)

section \<open>Compressing\<close>

definition CHUNK :: nat where "CHUNK = 4096"
definition TRAILER :: bytes where "TRAILER = [0, 0, 0xFF, 0xFF]"

text \<open>One call of the compressor, and the growth of the output vector.\<close>

definition compress_step ::
  "('c, 'd) flate \<Rightarrow> bytes \<Rightarrow> bool \<Rightarrow> bytes \<Rightarrow> 'c \<Rightarrow> (bool \<times> bytes \<times> bytes) result \<times> 'c" where
  "compress_step fl input sync output c =
     (if length output + CHUNK > isize_max then (Panic, c)
      else case compress_call fl c input sync of
          (Err _, c1) \<Rightarrow> (Err (Protocol Compression), c1)
        | (Panic, c1) \<Rightarrow> (Panic, c1)
        | (Ok (st, consumed, out), c1) \<Rightarrow>
            (if consumed > length input then (Panic, c1)
             else (bind_out (made_progress st consumed (length out))
                     (\<lambda>go. Ok (go, drop consumed input, output @ out)), c1)))"

lemma progress_measure:
  fixes n x a b M :: nat
  shows "x \<le> n \<Longrightarrow> a < M \<or> b = 0 \<Longrightarrow> x \<noteq> 0 \<or> b \<noteq> 0 \<Longrightarrow> (n - x) + (M - (a + b)) < n + (M - a)"
  by linarith

lemma compress_step_True:
  "compress_step fl input sync output c = (Ok (True, input', output'), c') \<Longrightarrow>
     \<exists>x b. input' = drop x input \<and> output' = output @ b \<and> x \<le> length input \<and>
       length output < isize_max \<and> (x \<noteq> 0 \<or> b \<noteq> [])"
  by (auto simp: compress_step_def CHUNK_def bind_out_Ok_iff split: if_splits outcome.splits prod.splits
      dest!: made_progress_True)

lemma compress_step_progress:
  assumes "compress_step fl input sync output c = (Ok (True, input', output'), c')"
  shows "length input' + (isize_max - length output') < length input + (isize_max - length output)"
proof -
  obtain x b where "input' = drop x input" "output' = output @ b" "x \<le> length input"
      "length output < isize_max" "x \<noteq> 0 \<or> b \<noteq> []"
    using compress_step_True [OF assms] by blast
  then show ?thesis using progress_measure [of x "length input" "length output" isize_max "length b"] by simp
qed

text \<open>The first loop consumes the input, the second flushes.\<close>

function compress_input ::
  "('c, 'd) flate \<Rightarrow> bytes \<Rightarrow> bytes \<Rightarrow> 'c \<Rightarrow> bytes result \<times> 'c" where
  "compress_input fl input output c =
     (if input = [] then (Ok output, c)
      else case compress_step fl input False output c of
          (Err e, c1) \<Rightarrow> (Err e, c1)
        | (Panic, c1) \<Rightarrow> (Panic, c1)
        | (Ok (go, input1, output1), c1) \<Rightarrow>
            (if go then compress_input fl input1 output1 c1 else (Ok output1, c1)))"
  by pat_completeness auto
termination
  by (relation "measure (\<lambda>(fl, input, output, c). length input + (isize_max - length output))")
    (auto dest!: compress_step_progress [OF sym])

function compress_flush :: "('c, 'd) flate \<Rightarrow> bytes \<Rightarrow> 'c \<Rightarrow> bytes result \<times> 'c" where
  "compress_flush fl output c =
     (case compress_step fl [] True output c of
        (Err e, c1) \<Rightarrow> (Err e, c1)
      | (Panic, c1) \<Rightarrow> (Panic, c1)
      | (Ok (go, _, output1), c1) \<Rightarrow>
          (if go then compress_flush fl output1 c1 else (Ok output1, c1)))"
  by pat_completeness auto
termination
  by (relation "measure (\<lambda>(fl, output, c). isize_max - length output)")
    (auto dest!: compress_step_progress [OF sym])

declare compress_input.simps [simp del] compress_flush.simps [simp del]

definition ends_with :: "bytes \<Rightarrow> bytes \<Rightarrow> bool" where
  "ends_with xs suffix \<longleftrightarrow> length suffix \<le> length xs \<and> drop (length xs - length suffix) xs = suffix"

definition compress ::
  "('c, 'd) flate \<Rightarrow> bytes \<Rightarrow> ('c, 'd) deflate_context \<Rightarrow> bytes result \<times> ('c, 'd) deflate_context" where
  "compress fl input s =
     (if input = [] then (Ok [0], s)
      else case compress_input fl input [] (encoder s) of
          (Err e, c1) \<Rightarrow> (Err e, s\<lparr>encoder := c1\<rparr>)
        | (Panic, c1) \<Rightarrow> (Panic, s\<lparr>encoder := c1\<rparr>)
        | (Ok output, c1) \<Rightarrow>
            (case compress_flush fl output c1 of
               (Err e, c2) \<Rightarrow> (Err e, s\<lparr>encoder := c2\<rparr>)
             | (Panic, c2) \<Rightarrow> (Panic, s\<lparr>encoder := c2\<rparr>)
             | (Ok output1, c2) \<Rightarrow>
                 (if \<not> ends_with output1 TRAILER
                  then (Err (Protocol Compression), s\<lparr>encoder := compress_reset fl c2\<rparr>)
                  else (Ok (take (length output1 - length TRAILER) output1),
                        s\<lparr>encoder := (if reset_encoder_flag s then compress_reset fl c2 else c2)\<rparr>))))"

section \<open>Decompressing\<close>

text \<open>
  One pass of the loop: \<open>Inl\<close> the final output, \<open>Inr\<close> what the next pass works on. The bytes
  produced are cut out of the scratch buffer, which panics beyond its 4096 bytes.
\<close>

definition inflate_step ::
  "('c, 'd) flate \<Rightarrow> nat \<Rightarrow> nat \<Rightarrow> bytes \<Rightarrow> bytes \<Rightarrow> 'd decoder
     \<Rightarrow> (bytes + bytes \<times> bytes) result \<times> 'd decoder" where
  "inflate_step fl already max_size input output d =
     (let remaining = max_size - sat_add already (length output);
          writable = min (sat_add remaining 1) CHUNK
      in case decoder_decompress fl d input writable of
           (Err e, d1) \<Rightarrow> (Err e, d1)
         | (Panic, d1) \<Rightarrow> (Panic, d1)
         | (Ok (st, consumed, produced), d1) \<Rightarrow>
             (if length produced > CHUNK \<or> length output + length produced > isize_max then (Panic, d1)
              else
                (let output1 = output @ produced in
                 if sat_add already (length output1) > max_size
                 then (Err (Capacity (MessageTooLong (sat_add already (length output1)) max_size)), d1)
                 else if consumed > length input then (Panic, d1)
                 else
                   (let input1 = drop consumed input;
                        d2 = (if st = StreamEnd then decoder_reset fl d1 else d1)
                    in (bind_out (made_progress st consumed (length produced))
                          (\<lambda>go. Ok (if go then Inr (input1, output1) else Inl output1)), d2)))))"

lemma inflate_step_Inr:
  "inflate_step fl already m input output d = (Ok (Inr (input', output')), d') \<Longrightarrow>
     \<exists>x b. input' = drop x input \<and> output' = output @ b \<and> x \<le> length input \<and>
       length output + length b \<le> isize_max \<and> (x \<noteq> 0 \<or> b \<noteq> [])"
  by (auto simp: inflate_step_def Let_def bind_out_Ok_iff split: if_splits outcome.splits prod.splits
      dest!: made_progress_True)

lemma inflate_step_progress:
  assumes "inflate_step fl already m input output d = (Ok (Inr (input', output')), d')"
  shows "length input' + (isize_max - length output') < length input + (isize_max - length output)"
proof -
  obtain x b where "input' = drop x input" "output' = output @ b" "x \<le> length input"
      "length output + length b \<le> isize_max" "x \<noteq> 0 \<or> b \<noteq> []"
    using inflate_step_Inr [OF assms] by blast
  moreover from this have "length output < isize_max \<or> length b = 0" by (cases b) auto
  ultimately show ?thesis
    using progress_measure [of x "length input" "length output" isize_max "length b"] by simp
qed

function inflate ::
  "('c, 'd) flate \<Rightarrow> nat \<Rightarrow> nat \<Rightarrow> bytes \<Rightarrow> bytes \<Rightarrow> 'd decoder \<Rightarrow> bytes result \<times> 'd decoder" where
  "inflate fl already max_size input output d =
     (case inflate_step fl already max_size input output d of
        (Err e, d1) \<Rightarrow> (Err e, d1)
      | (Panic, d1) \<Rightarrow> (Panic, d1)
      | (Ok (Inl output1), d1) \<Rightarrow> (Ok output1, d1)
      | (Ok (Inr (input1, output1)), d1) \<Rightarrow> inflate fl already max_size input1 output1 d1)"
  by pat_completeness auto
termination
  by (relation "measure (\<lambda>(fl, already, m, input, output, d). length input + (isize_max - length output))")
    (auto dest!: inflate_step_progress [OF sym])

declare inflate.simps [simp del]

definition decompress ::
  "('c, 'd) flate \<Rightarrow> bytes \<Rightarrow> bool \<Rightarrow> nat \<Rightarrow> nat option \<Rightarrow> ('c, 'd) deflate_context
     \<Rightarrow> bytes result \<times> ('c, 'd) deflate_context" where
  "decompress fl input final_frame already max_size s =
     (let max_size = (case max_size of Some n \<Rightarrow> n | None \<Rightarrow> usize_max) in
      case inflate fl already max_size input [] (decoder_of s) of
        (Err e, d1) \<Rightarrow> (Err e, s\<lparr>decoder_of := d1\<rparr>)
      | (Panic, d1) \<Rightarrow> (Panic, s\<lparr>decoder_of := d1\<rparr>)
      | (Ok output, d1) \<Rightarrow>
          (if \<not> final_frame then (Ok output, s\<lparr>decoder_of := d1\<rparr>)
           else case inflate fl already max_size TRAILER output d1 of
               (Err e, d2) \<Rightarrow> (Err e, s\<lparr>decoder_of := d2\<rparr>)
             | (Panic, d2) \<Rightarrow> (Panic, s\<lparr>decoder_of := d2\<rparr>)
             | (Ok output1, d2) \<Rightarrow>
                 (Ok output1, s\<lparr>decoder_of := (if reset_decoder_flag s then decoder_reset fl d2 else d2)\<rparr>)))"

section \<open>Bounds\<close>

text \<open>The documented contract of \<open>Decompress::decompress\<close>: it writes into the space it is given.\<close>

definition decompress_fits :: "('c, 'd) flate \<Rightarrow> bool" where
  "decompress_fits fl \<longleftrightarrow> (\<forall>d input room.
     case decompress_call fl d input room of
       (Ok (st, consumed, produced), _) \<Rightarrow> length produced \<le> room \<and> consumed \<le> length input
     | (Err _, _) \<Rightarrow> True
     | (Panic, _) \<Rightarrow> False)"

text \<open>How a pass of the loop, and then the loop, may end.\<close>

definition inflated_ok :: "nat \<Rightarrow> nat \<Rightarrow> bytes \<Rightarrow> bool" where
  "inflated_ok already m output \<longleftrightarrow> already + length output \<le> m"

definition inflate_err :: "nat \<Rightarrow> error \<Rightarrow> bool" where
  "inflate_err m e \<longleftrightarrow> e = Protocol Compression \<or> e = Capacity (MessageTooLong (m + 1) m)"

lemma inflate_step_spec:
  assumes fits: "decompress_fits fl" and m: "m < isize_max" and start: "inflated_ok already m output"
  shows "case inflate_step fl already m input output d of
      (Ok (Inl out), _) \<Rightarrow> inflated_ok already m out
    | (Ok (Inr (input', out)), _) \<Rightarrow> inflated_ok already m out
    | (Err e, _) \<Rightarrow> inflate_err m e
    | (Panic, _) \<Rightarrow> False"
proof -
  have u: "m < usize_max" "m + 1 \<le> usize_max"
    using m by (simp_all add: isize_max_def usize_max_def usize_bits_def)
  let ?w = "min (sat_add (m - sat_add already (length output)) 1) CHUNK"
  have a: "sat_add already (length output) = already + length output"
    using start u by (intro sat_add_exact) (simp add: inflated_ok_def)
  then have w: "?w \<le> m - (already + length output) + 1" "?w \<le> CHUNK" by (simp_all add: sat_add_def)
  have call: "case decoder_decompress fl d input ?w of
      (Ok (st, consumed, produced), _) \<Rightarrow> length produced \<le> ?w \<and> consumed \<le> length input
    | (Err e, _) \<Rightarrow> e = Protocol Compression | (Panic, _) \<Rightarrow> False"
  proof -
    have "case decompress_call fl (dec_stream d) input ?w of
        (Ok (st, consumed, produced), _) \<Rightarrow> length produced \<le> ?w \<and> consumed \<le> length input
      | (Err _, _) \<Rightarrow> True | (Panic, _) \<Rightarrow> False"
      using fits unfolding decompress_fits_def by (elim allE)
    then show ?thesis by (auto simp: decoder_decompress_def split: prod.splits outcome.splits)
  qed
  show ?thesis
  proof (cases "decoder_decompress fl d input ?w")
    case (Pair r d1)
    show ?thesis
    proof (cases r)
      case (Ok v)
      obtain st consumed produced where v: "v = (st, consumed, produced)" by (cases v)
      then have p: "length produced \<le> ?w" "consumed \<le> length input" using call Pair Ok by simp_all
      then have len: "already + length (output @ produced) \<le> m + 1"
        using order_trans [OF p(1) w(1)] start by (simp add: inflated_ok_def)
      then have s: "sat_add already (length (output @ produced)) = already + length (output @ produced)"
        using u by (intro sat_add_exact) simp
      have np: "\<not> length produced > CHUNK" "\<not> length output + length produced > isize_max"
        using order_trans [OF p(1) w(2)] len m by simp_all
      show ?thesis
      proof (cases "already + length (output @ produced) > m")
        case True
        then have "already + length (output @ produced) = m + 1" using len by simp
        then show ?thesis
          using Pair Ok v np s True by (simp add: inflate_step_def inflate_err_def)
      next
        case False
        then have "inflated_ok already m (output @ produced)" by (simp add: inflated_ok_def)
        moreover have "\<not> consumed > length input" using p(2) by simp
        moreover have "made_progress st consumed (length produced) = Err e \<Longrightarrow> e = Protocol Compression" for e
          by (auto simp: made_progress.simps split: if_splits status.splits)
        ultimately show ?thesis
          using Pair Ok v np s False
          by (cases "made_progress st consumed (length produced)")
            (simp_all add: inflate_step_def inflate_err_def Let_def)
      qed
    qed (use call Pair in \<open>simp_all add: inflate_step_def inflate_err_def Let_def\<close>)
  qed
qed

lemma inflate_spec:
  assumes "decompress_fits fl" "m < isize_max" "inflated_ok already m output"
  shows "case inflate fl already m input output d of
      (Ok out, _) \<Rightarrow> inflated_ok already m out | (Err e, _) \<Rightarrow> inflate_err m e | (Panic, _) \<Rightarrow> False"
  using assms
proof (induction fl already m input "output" d rule: inflate.induct)
  case (1 fl already m input out0 d)
  note step = inflate_step_spec [OF "1.prems", of input d]
  show ?case
  proof (cases "inflate_step fl already m input out0 d")
    case (Pair r d1)
    show ?thesis
    proof (cases r)
      case (Ok v)
      show ?thesis
      proof (cases v)
        case (Inl out)
        then show ?thesis using step Pair Ok by (simp add: inflate.simps [of fl])
      next
        case (Inr io)
        obtain input' out where io: "io = (input', out)" by fastforce
        then have "inflated_ok already m out" using step Pair Ok Inr by simp
        from "1.IH" [OF Pair [symmetric] Ok Inr io [symmetric] "1.prems"(1,2) this] show ?thesis
          using Pair Ok Inr io by (simp add: inflate.simps [of fl already m input])
      qed
    qed (use step Pair in \<open>simp_all add: inflate.simps [of fl already m input]\<close>)
  qed
qed

lemma decompress_within:
  assumes "decompress_fits fl" "limit < isize_max" "already \<le> limit"
  shows "case decompress fl input final_frame already (Some limit) s of
      (Ok output, _) \<Rightarrow> already + length output \<le> limit
    | (Err e, _) \<Rightarrow> e = Protocol Compression \<or> e = Capacity (MessageTooLong (limit + 1) limit)
    | (Panic, _) \<Rightarrow> False"
proof -
  have start: "inflated_ok already limit []" using assms(3) by (simp add: inflated_ok_def)
  note spec = inflate_spec [OF assms(1,2)]
  show ?thesis
  proof (cases "inflate fl already limit input [] (decoder_of s)")
    case (Pair r d1)
    show ?thesis
    proof (cases r)
      case (Ok res)
      then have out: "inflated_ok already limit res" using spec [OF start, of input "decoder_of s"] Pair by simp
      obtain r2 d2 where i: "inflate fl already limit TRAILER res d1 = (r2, d2)" by fastforce
      show ?thesis
        using spec [OF out, of TRAILER d1] i out Pair Ok
        by (cases r2) (auto simp: decompress_def inflated_ok_def inflate_err_def)
    qed (use spec [OF start, of input "decoder_of s"] Pair in \<open>auto simp: decompress_def inflate_err_def\<close>)
  qed
qed

text \<open>
  Claim C23. Decompression is bounded, whatever the peer compressed: \<open>decompress\<close> always
  returns, what it delivers keeps the message within the limit, and when the limit is
  exceeded it stops with the first byte beyond it, so a decompression bomb never expands.
\<close>

theorem decompress_bounded:
  assumes "decompress_fits fl" "limit < isize_max" "already \<le> limit"
  shows "case decompress fl input final_frame already (Some limit) s of
      (Ok output, _) \<Rightarrow> already + length output \<le> limit
    | (Err e, _) \<Rightarrow> e = Protocol Compression \<or> e = Capacity (MessageTooLong (limit + 1) limit)
    | (Panic, _) \<Rightarrow> False"
  by (rule decompress_within) (fact assms)+

text \<open>A decompressor that copies, for the witness.\<close>

definition copying :: "(unit, unit) flate" where
  "copying = \<lparr>compress_new = (\<lambda>_ _. ()), compress_reset = (\<lambda>_. ()),
     compress_call = (\<lambda>_ input sync. (Ok (BufError, length input, if sync then [] else input), ())),
     decompress_new = (\<lambda>_. ()), decompress_reset = (\<lambda>_. ()),
     decompress_call = (\<lambda>_ input room. (Ok (BufError, min room (length input), take room input), ()))\<rparr>"

theorem decompress_bounded_witness:
  "case decompress copying [1, 2, 3] True 5 (Some 10) \<lparr>encoder = (), decoder_of = \<lparr>dec_stream = (), dec_window_bits = 15\<rparr>,
      reset_encoder_flag = False, reset_decoder_flag = True\<rparr> of
    (Ok output, _) \<Rightarrow> 5 + length output \<le> 10
  | (Err e, _) \<Rightarrow> e = Protocol Compression \<or> e = Capacity (MessageTooLong (10 + 1) 10)
  | (Panic, _) \<Rightarrow> False"
  using decompress_bounded [of copying 10 5 "[1, 2, 3]" True "\<lparr>encoder = (), decoder_of = \<lparr>dec_stream = (), dec_window_bits = 15\<rparr>,
      reset_encoder_flag = False, reset_decoder_flag = True\<rparr>"]
  by (simp add: decompress_fits_def copying_def isize_max_def usize_bits_def)

end
