(* ===== verification/WebSocket.thy ===== *)
theory WebSocket
  imports Message Codec_Props Deflate_Codec
begin

text \<open>
  The protocol engine, \<open>src/src/protocol/mod.rs\<close>: the configuration, the connection state,
  and \<open>WebSocketContext\<close> with its operations \<open>read\<close>, \<open>write\<close>, \<open>flush\<close> and \<open>close\<close>, built
  with the features \<open>handshake\<close> and \<open>deflate\<close>.

  The state of an operation is the context together with the world (\<open>WebSocket\<close> is a
  context with its socket). The operations of \<open>flate2\<close> are the parameter \<open>fl\<close>, its
  compressor and decompressor states are \<open>'c\<close> and \<open>'d\<close>.
\<close>

section \<open>Configuration\<close>

record config =
  read_buffer_size :: nat
  write_buffer_size :: nat
  max_write_buffer_size :: nat
  max_message_size :: "nat option"
  max_frame_size :: "nat option"
  accept_unmasked_frames :: bool
  cfg_deflate :: "settings option"

definition default_config :: config where
  "default_config = \<lparr>read_buffer_size = 128 * 1024, write_buffer_size = 128 * 1024,
     max_write_buffer_size = usize_max, max_message_size = Some (64 * 2 ^ 20),
     max_frame_size = Some (16 * 2 ^ 20), accept_unmasked_frames = False, cfg_deflate = None\<rparr>"

definition deflate_or_default :: "config \<Rightarrow> settings" where
  "deflate_or_default c = (case cfg_deflate c of Some s \<Rightarrow> s | None \<Rightarrow> default_settings)"

definition enable_deflate :: "config \<Rightarrow> config" where
  "enable_deflate c = c\<lparr>cfg_deflate := Some (deflate_or_default c)\<rparr>"

definition deflate_max_window_bits :: "role \<Rightarrow> nat \<Rightarrow> config \<Rightarrow> config result" where
  "deflate_max_window_bits r bits c =
     bind_out (max_window_bits r bits (deflate_or_default c)) (\<lambda>s. Ok (c\<lparr>cfg_deflate := Some s\<rparr>))"

definition deflate_no_context_takeover :: "role \<Rightarrow> bool \<Rightarrow> config \<Rightarrow> config" where
  "deflate_no_context_takeover r on c =
     c\<lparr>cfg_deflate := Some (no_context_takeover r on (deflate_or_default c))\<rparr>"

definition deflate_compression_level :: "nat \<Rightarrow> config \<Rightarrow> config result" where
  "deflate_compression_level level c =
     bind_out (compression_level level (deflate_or_default c)) (\<lambda>s. Ok (c\<lparr>cfg_deflate := Some s\<rparr>))"

definition accept_deflate_offers ::
  "(bytes \<Rightarrow> bytes option) \<Rightarrow> bytes list \<Rightarrow> config \<Rightarrow> (config \<times> bytes option) result" where
  "accept_deflate_offers from_str offers c =
     bind_out (case cfg_deflate c of Some s \<Rightarrow> accept_offers from_str s offers | None \<Rightarrow> Ok None)
       (\<lambda>accepted. case accepted of
          Some (s, response) \<Rightarrow> Ok (c\<lparr>cfg_deflate := Some s\<rparr>, Some response)
        | None \<Rightarrow> Ok (c\<lparr>cfg_deflate := None\<rparr>, None))"

text \<open>The builder methods of the other fields.\<close>

definition with_read_buffer_size :: "nat \<Rightarrow> config \<Rightarrow> config" where
  "with_read_buffer_size n c = c\<lparr>read_buffer_size := n\<rparr>"

definition with_write_buffer_size :: "nat \<Rightarrow> config \<Rightarrow> config" where
  "with_write_buffer_size n c = c\<lparr>write_buffer_size := n\<rparr>"

definition with_max_write_buffer_size :: "nat \<Rightarrow> config \<Rightarrow> config" where
  "with_max_write_buffer_size n c = c\<lparr>max_write_buffer_size := n\<rparr>"

definition with_max_message_size :: "nat option \<Rightarrow> config \<Rightarrow> config" where
  "with_max_message_size n c = c\<lparr>max_message_size := n\<rparr>"

definition with_max_frame_size :: "nat option \<Rightarrow> config \<Rightarrow> config" where
  "with_max_frame_size n c = c\<lparr>max_frame_size := n\<rparr>"

definition with_accept_unmasked_frames :: "bool \<Rightarrow> config \<Rightarrow> config" where
  "with_accept_unmasked_frames on c = c\<lparr>accept_unmasked_frames := on\<rparr>"

definition config_valid :: "config \<Rightarrow> bool" where
  "config_valid c \<longleftrightarrow> max_write_buffer_size c > write_buffer_size c"

section \<open>Connection state\<close>

datatype ws_state = Active | ClosedByUs | ClosedByPeer | CloseAcknowledged | Terminated

fun is_active :: "ws_state \<Rightarrow> bool" where
  "is_active st \<longleftrightarrow> st = Active"

fun can_read :: "ws_state \<Rightarrow> bool" where
  "can_read st \<longleftrightarrow> st = Active \<or> st = ClosedByUs"

definition check_not_terminated :: "ws_state \<Rightarrow> unit result" where
  "check_not_terminated st = (if st = Terminated then Err AlreadyClosed else Ok ())"

definition check_connection_reset :: "ws_state \<Rightarrow> 'a result \<Rightarrow> 'a result" where
  "check_connection_reset st r =
     (case r of
        Err (Io k) \<Rightarrow> Err (if \<not> can_read st \<and> k = ConnectionReset then ConnectionClosed else Io k)
      | x \<Rightarrow> x)"

record ('c, 'd) ctx =
  ctx_role :: role
  frame_codec :: codec
  ws_state :: ws_state
  incomplete_msg :: "incomplete_message option"
  additional_send :: "frame option"
  unflushed_additional :: bool
  cfg :: config
  deflate :: "('c, 'd) deflate_context option"
  compressed_incomplete :: bool
  compression_unusable :: bool

type_synonym ('c, 'd) ws = "('c, 'd) ctx \<times> world"

definition ctx_create :: "('c, 'd) flate \<Rightarrow> role \<Rightarrow> codec \<Rightarrow> config \<Rightarrow> ('c, 'd) ctx result" where
  "ctx_create fl r fc c =
     (if \<not> config_valid c then Panic
      else bind_out
        (case cfg_deflate c of
           Some s \<Rightarrow> bind_out (deflate_context_new fl r s) (\<lambda>d. Ok (Some d))
         | None \<Rightarrow> Ok None)
        (\<lambda>d. Ok \<lparr>ctx_role = r,
            frame_codec = set_out_buffer_write_len (write_buffer_size c)
              (set_max_out_buffer_len (max_write_buffer_size c) fc),
            ws_state = Active, incomplete_msg = None, additional_send = None,
            unflushed_additional = False, cfg = c, deflate = d, compressed_incomplete = False,
            compression_unusable = False\<rparr>))"

definition config_or_default :: "config option \<Rightarrow> config" where
  "config_or_default c = (case c of Some c \<Rightarrow> c | None \<Rightarrow> default_config)"

definition ctx_new :: "('c, 'd) flate \<Rightarrow> role \<Rightarrow> config option \<Rightarrow> ('c, 'd) ctx result" where
  "ctx_new fl r c =
     (let conf = config_or_default c in
      bind_out (codec_with_capacity (read_buffer_size conf)) (\<lambda>fc. ctx_create fl r fc conf))"

definition ctx_from_partially_read ::
  "('c, 'd) flate \<Rightarrow> bytes \<Rightarrow> nat \<Rightarrow> role \<Rightarrow> config option \<Rightarrow> world \<Rightarrow> ('c, 'd) ctx result \<times> world" where
  "ctx_from_partially_read fl part cap r c w =
     (let conf = config_or_default c in
      case codec_from_partially_read part cap (read_buffer_size conf) w of
        (Ok _, fc, w1) \<Rightarrow> (ctx_create fl r fc conf, w1)
      | (Err e, _, w1) \<Rightarrow> (Err e, w1)
      | (Panic, _, w1) \<Rightarrow> (Panic, w1))"

text \<open>The callback of \<open>set_config\<close> is a function on configurations.\<close>

definition set_config :: "(config \<Rightarrow> config) \<Rightarrow> ('c, 'd) ctx \<Rightarrow> unit result \<times> ('c, 'd) ctx" where
  "set_config set_func x =
     (let candidate = set_func (cfg x) in
      if cfg_deflate candidate \<noteq> cfg_deflate (cfg x) then (Panic, x)
      else
        (let x1 = x\<lparr>cfg := candidate\<rparr> in
         if \<not> config_valid candidate then (Panic, x1)
         else (Ok (), x1\<lparr>frame_codec :=
                 set_out_buffer_write_len (write_buffer_size candidate)
                   (set_max_out_buffer_len (max_write_buffer_size candidate) (frame_codec x1))\<rparr>)))"

definition ctx_can_read :: "('c, 'd) ctx \<Rightarrow> bool" where
  "ctx_can_read x \<longleftrightarrow> can_read (ws_state x)"

definition ctx_can_write :: "('c, 'd) ctx \<Rightarrow> bool" where
  "ctx_can_write x \<longleftrightarrow> is_active (ws_state x)"

section \<open>Writing\<close>

definition is_pong_frame :: "frame \<Rightarrow> bool" where
  "is_pong_frame f \<longleftrightarrow> hdr_opcode (header f) = ControlOp PongOp"

definition set_additional :: "frame \<Rightarrow> ('c, 'd) ctx \<Rightarrow> ('c, 'd) ctx" where
  "set_additional add x =
     (if (case additional_send x of None \<Rightarrow> True | Some f \<Rightarrow> is_pong_frame f)
      then x\<lparr>additional_send := Some add\<rparr> else x)"

definition ctx_buffer_frame :: "frame \<Rightarrow> ('c, 'd) ws \<Rightarrow> unit result \<times> ('c, 'd) ws" where
  "ctx_buffer_frame f s =
     (case s of (x, w) \<Rightarrow>
       (case (case ctx_role x of
                Server \<Rightarrow> (f, w)
              | Client \<Rightarrow> (case generate_mask w of (m, w1) \<Rightarrow> (set_random_mask m f, w1))) of
          (f1, w1) \<Rightarrow>
            (case buffer_frame f1 (frame_codec x, w1) of
               (r, c, w2) \<Rightarrow> (check_connection_reset (ws_state x) r, x\<lparr>frame_codec := c\<rparr>, w2))))"

definition ctx_write_out :: "('c, 'd) ws \<Rightarrow> unit result \<times> ('c, 'd) ws" where
  "ctx_write_out s =
     (case s of (x, w) \<Rightarrow>
       (case write_out_buffer (frame_codec x, w) of (r, c, w1) \<Rightarrow> (r, x\<lparr>frame_codec := c\<rparr>, w1)))"

text \<open>The part of \<open>_write\<close> that sends the queued pong or close frame.\<close>

definition send_additional :: "('c, 'd) ws \<Rightarrow> bool result \<times> ('c, 'd) ws" where
  "send_additional s =
     (case s of (x, w) \<Rightarrow>
       (case additional_send x of
          None \<Rightarrow> (Ok (unflushed_additional x), x, w)
        | Some msg \<Rightarrow>
            (case ctx_buffer_frame msg (x\<lparr>additional_send := None\<rparr>, w) of
               (Err (WriteBufferFull m), x1, w1) \<Rightarrow>
                 (case m of RawFrame f \<Rightarrow> (Ok False, set_additional f x1, w1) | _ \<Rightarrow> (Panic, x1, w1))
             | (Err e, s1) \<Rightarrow> (Err e, s1)
             | (Panic, s1) \<Rightarrow> (Panic, s1)
             | (Ok _, s1) \<Rightarrow> (Ok True, s1))))"

definition finish_write :: "bool \<Rightarrow> ('c, 'd) ws \<Rightarrow> bool result \<times> ('c, 'd) ws" where
  "finish_write should_flush s =
     (if ctx_role (fst s) = Server \<and> \<not> can_read (ws_state (fst s)) then
        and_then (ctx_write_out s) (\<lambda>_ (x, w). (Err ConnectionClosed, x\<lparr>ws_state := Terminated\<rparr>, w))
      else (Ok should_flush, s))"

definition inner_write :: "frame option \<Rightarrow> ('c, 'd) ws \<Rightarrow> bool result \<times> ('c, 'd) ws" where
  "inner_write data s =
     and_then (case data of Some f \<Rightarrow> ctx_buffer_frame f s | None \<Rightarrow> (Ok (), s)) (\<lambda>_ s1.
     and_then (send_additional s1) (\<lambda>should_flush s2. finish_write should_flush s2))"

definition ctx_stream_flush :: "('c, 'd) ws \<Rightarrow> unit result \<times> ('c, 'd) ws" where
  "ctx_stream_flush s = lift_io (case stream_flush (snd s) of (r, w1) \<Rightarrow> (r, fst s, w1))"

definition ctx_flush :: "('c, 'd) ws \<Rightarrow> unit result \<times> ('c, 'd) ws" where
  "ctx_flush s =
     (if compression_unusable (fst s) then (Err AlreadyClosed, s)
      else
        and_then (inner_write None s) (\<lambda>_ s1.
        and_then (ctx_write_out s1) (\<lambda>_ s2.
        and_then (ctx_stream_flush s2) (\<lambda>_ (x, w).
          (Ok (), x\<lparr>unflushed_additional := False\<rparr>, w)))))"

definition ctx_close :: "close_frame option \<Rightarrow> ('c, 'd) ws \<Rightarrow> unit result \<times> ('c, 'd) ws" where
  "ctx_close code s =
     (case s of (x, w) \<Rightarrow>
       and_then
         (if ws_state x = Active
          then inner_write (Some (frame_close code)) (x\<lparr>ws_state := ClosedByUs\<rparr>, w)
          else (Ok False, x, w))
         (\<lambda>_ s1. ctx_flush s1))"

definition wire_size :: "role \<Rightarrow> frame \<Rightarrow> nat" where
  "wire_size r f = frame_len f + (if r = Client then 4 else 0)"

definition data_frame :: "bytes \<Rightarrow> data_op \<Rightarrow> frame" where
  "data_frame data op = frame_message data (DataOp op) True"

definition prepare_data ::
  "('c, 'd) flate \<Rightarrow> bytes \<Rightarrow> data_op \<Rightarrow> ('c, 'd) ctx \<Rightarrow> frame result \<times> ('c, 'd) ctx" where
  "prepare_data fl data op x =
     (let plain = data_frame data op in
      case deflate x of
        None \<Rightarrow> (Ok plain, x)
      | Some d \<Rightarrow>
          (if \<not> can_buffer (frame_codec x) (wire_size (ctx_role x) plain)
           then (Err (WriteBufferFull (RawFrame plain)), x)
           else case compress fl (payload plain) d of
               (Err e, d1) \<Rightarrow> (Err e, x\<lparr>deflate := Some (reset_encoder fl d1)\<rparr>)
             | (Panic, d1) \<Rightarrow> (Panic, x\<lparr>deflate := Some d1\<rparr>)
             | (Ok compressed, d1) \<Rightarrow>
                 (let f = data_frame compressed op;
                      f1 = frame_header_mut (\<lambda>h. h\<lparr>rsv1 := True\<rparr>) f
                  in if can_buffer (frame_codec x) (wire_size (ctx_role x) f1)
                     then (Ok f1, x\<lparr>deflate := Some d1\<rparr>)
                     else (Ok plain, x\<lparr>deflate := Some (reset_encoder fl d1)\<rparr>))))"

text \<open>The end of \<open>write\<close>: buffer the frame, and flush when an automatic reply went with it.\<close>

definition write_frame :: "frame \<Rightarrow> ('c, 'd) ws \<Rightarrow> unit result \<times> ('c, 'd) ws" where
  "write_frame f s =
     and_then (inner_write (Some f) s) (\<lambda>should_flush s1.
       if should_flush then ctx_flush s1 else (Ok (), s1))"

definition write_data ::
  "('c, 'd) flate \<Rightarrow> bytes \<Rightarrow> data_op \<Rightarrow> ('c, 'd) ws \<Rightarrow> unit result \<times> ('c, 'd) ws" where
  "write_data fl data op s =
     (case s of (x, w) \<Rightarrow>
       (case prepare_data fl data op x of
          (Ok f, x1) \<Rightarrow> write_frame f (x1, w)
        | (Err e, x1) \<Rightarrow> (Err e, x1, w)
        | (Panic, x1) \<Rightarrow> (Panic, x1, w)))"

definition ctx_write :: "('c, 'd) flate \<Rightarrow> message \<Rightarrow> ('c, 'd) ws \<Rightarrow> unit result \<times> ('c, 'd) ws" where
  "ctx_write fl msg s =
     (case s of (x, w) \<Rightarrow>
       (if ws_state x = Terminated then (Err AlreadyClosed, x, w)
        else if \<not> is_active (ws_state x) then (Err (Protocol SendAfterClosing), x, w)
        else case msg of
            Text data \<Rightarrow> write_data fl data TextOp (x, w)
          | Binary data \<Rightarrow> write_data fl data BinaryOp (x, w)
          | Ping data \<Rightarrow> write_frame (frame_ping data) (x, w)
          | Pong data \<Rightarrow>
              and_then (inner_write None (set_additional (frame_pong data) x, w)) (\<lambda>_ s1. (Ok (), s1))
          | Close code \<Rightarrow> ctx_close code (x, w)
          | RawFrame f \<Rightarrow>
              (if rsv1 (header f) \<and> is_some (deflate x)
               then (Err (Protocol NonZeroReservedBits), x, w)
               else write_frame f (x, w))))"

section \<open>Reading one frame\<close>

definition fail_compression :: "('c, 'd) ctx \<Rightarrow> ('c, 'd) ctx" where
  "fail_compression x = x\<lparr>compression_unusable := True, ws_state := Terminated\<rparr>"

definition fail_compression_on_discarded_frame :: "frame \<Rightarrow> ('c, 'd) ctx \<Rightarrow> ('c, 'd) ctx" where
  "fail_compression_on_discarded_frame f x =
     (let claims_compression =
            rsv1 (header f) \<or>
            (hdr_opcode (header f) = DataOp Continue \<and>
             (compressed_incomplete x \<or> \<not> is_some (incomplete_msg x)))
      in if claims_compression \<and> is_some (deflate x) then fail_compression x else x)"

definition ctx_decompress ::
  "('c, 'd) flate \<Rightarrow> bytes \<Rightarrow> bool \<Rightarrow> ('c, 'd) ctx \<Rightarrow> bytes result \<times> ('c, 'd) ctx" where
  "ctx_decompress fl data final_frame x =
     (let already = (case incomplete_msg x of Some m \<Rightarrow> im_len m | None \<Rightarrow> 0) in
      case deflate x of
        None \<Rightarrow> (Panic, x)
      | Some d \<Rightarrow>
          (case decompress fl data final_frame already (max_message_size (cfg x)) d of
             (Ok out, d1) \<Rightarrow> (Ok out, x\<lparr>deflate := Some d1\<rparr>)
           | (Err e, d1) \<Rightarrow> (Err e, fail_compression (x\<lparr>deflate := Some d1\<rparr>))
           | (Panic, d1) \<Rightarrow> (Panic, x\<lparr>deflate := Some d1\<rparr>)))"

text \<open>Get a frame from the codec; \<open>Ok None\<close> cannot come out of here.\<close>

definition fetch_frame :: "('c, 'd) ws \<Rightarrow> frame result \<times> ('c, 'd) ws" where
  "fetch_frame s =
     (case s of (x, w) \<Rightarrow>
       (case read_frame (max_frame_size (cfg x)) (ctx_role x = Server) (accept_unmasked_frames (cfg x))
               (frame_codec x, w) of
          (r, c, w1) \<Rightarrow>
            (let x1 = x\<lparr>frame_codec := c\<rparr>;
                 read = check_connection_reset (ws_state x) r;
                 x2 = (if is_some (deflate x1) \<and> read = Err (Protocol UnmaskedFrameFromClient)
                       then fail_compression x1 else x1)
             in case read of
                  Err e \<Rightarrow> (Err e, x2, w1)
                | Panic \<Rightarrow> (Panic, x2, w1)
                | Ok (Some f) \<Rightarrow> (Ok f, x2, w1)
                | Ok None \<Rightarrow>
                    (let x3 = x2\<lparr>ws_state := Terminated\<rparr> in
                     if ws_state x2 = ClosedByPeer \<or> ws_state x2 = CloseAcknowledged
                     then (Err ConnectionClosed, x3, w1)
                     else (Err (Protocol ResetWithoutClosingHandshake), x3, w1)))))"

definition reserved_bits_set :: "frame \<Rightarrow> ('c, 'd) ctx \<Rightarrow> bool" where
  "reserved_bits_set f x \<longleftrightarrow>
     (rsv1 (header f) \<and>
      (\<not> is_some (deflate x) \<or>
       \<not> (hdr_opcode (header f) = DataOp TextOp \<or> hdr_opcode (header f) = DataOp BinaryOp)))
     \<or> rsv2 (header f) \<or> rsv3 (header f)"

definition check_frame :: "frame \<Rightarrow> ('c, 'd) ctx \<Rightarrow> unit result \<times> ('c, 'd) ctx" where
  "check_frame f x =
     (if \<not> can_read (ws_state x) then (Err (Protocol ReceivedAfterClosing), x)
      else if reserved_bits_set f x
      then (Err (Protocol NonZeroReservedBits), fail_compression_on_discarded_frame f x)
      else if ctx_role x = Client \<and> is_masked f
      then (Err (Protocol MaskedFrameFromServer), fail_compression_on_discarded_frame f x)
      else (Ok (), x))"

text \<open>Undo the compression of a data frame that owns the message stream.\<close>

definition frame_compressed :: "data_op \<Rightarrow> frame \<Rightarrow> ('c, 'd) ctx \<Rightarrow> bool" where
  "frame_compressed data f x \<longleftrightarrow>
     (case data of
        TextOp \<Rightarrow> rsv1 (header f)
      | BinaryOp \<Rightarrow> rsv1 (header f)
      | Continue \<Rightarrow> compressed_incomplete x
      | ReservedData _ \<Rightarrow> False)"

definition remember_compressed :: "data_op \<Rightarrow> bool \<Rightarrow> bool \<Rightarrow> ('c, 'd) ctx \<Rightarrow> ('c, 'd) ctx" where
  "remember_compressed data final_frame compressed x =
     (if (data = TextOp \<or> data = BinaryOp) \<and> \<not> final_frame then x\<lparr>compressed_incomplete := compressed\<rparr>
      else if data = Continue \<and> final_frame then x\<lparr>compressed_incomplete := False\<rparr>
      else x)"

definition owns_stream :: "data_op \<Rightarrow> ('c, 'd) ctx \<Rightarrow> bool" where
  "owns_stream data x \<longleftrightarrow> (data = Continue) = is_some (incomplete_msg x)"

definition inflate_payload ::
  "('c, 'd) flate \<Rightarrow> frame \<Rightarrow> ('c, 'd) ctx \<Rightarrow> frame result \<times> ('c, 'd) ctx" where
  "inflate_payload fl f x =
     and_then (ctx_decompress fl (payload f) (is_final (header f)) x) (\<lambda>data x1.
       (Ok (frame_from_payload ((header f)\<lparr>rsv1 := False\<rparr>) data), x1))"

definition inflate_frame ::
  "('c, 'd) flate \<Rightarrow> frame \<Rightarrow> ('c, 'd) ctx \<Rightarrow> frame result \<times> ('c, 'd) ctx" where
  "inflate_frame fl f x =
     (case hdr_opcode (header f) of
        ControlOp _ \<Rightarrow> (Ok f, x)
      | DataOp data \<Rightarrow>
          (if owns_stream data x then
             (let compressed = frame_compressed data f x in
              and_then (if compressed then inflate_payload fl f x else (Ok f, x)) (\<lambda>f1 x1.
                (Ok f1, remember_compressed data (is_final (header f)) compressed x1)))
           else (Ok f, fail_compression_on_discarded_frame f x)))"

section \<open>Handling a frame\<close>

definition do_close ::
  "close_frame option \<Rightarrow> ('c, 'd) ctx \<Rightarrow> close_frame option option result \<times> ('c, 'd) ctx" where
  "do_close close x =
     (case ws_state x of
        Active \<Rightarrow>
          (let x1 = x\<lparr>ws_state := ClosedByPeer\<rparr>;
               close1 = map_option (\<lambda>cf.
                 if \<not> is_allowed (cf_code cf)
                 then \<lparr>cf_code = ProtocolCode, cf_reason = ascii ''Protocol violation''\<rparr>
                 else cf) close
           in (Ok (Some close1), set_additional (frame_close close1) x1))
      | ClosedByPeer \<Rightarrow> (Ok None, x)
      | CloseAcknowledged \<Rightarrow> (Ok None, x)
      | ClosedByUs \<Rightarrow> (Ok (Some close), x\<lparr>ws_state := CloseAcknowledged\<rparr>)
      | Terminated \<Rightarrow> (Panic, x))"

definition handle_control ::
  "frame \<Rightarrow> control_op \<Rightarrow> ('c, 'd) ctx \<Rightarrow> message option result \<times> ('c, 'd) ctx" where
  "handle_control f ctl x =
     (if \<not> is_final (header f) then (Err (Protocol FragmentedControlFrame), x)
      else if length (payload f) > 125 then (Err (Protocol ControlFrameTooBig), x)
      else case ctl of
          CloseOp \<Rightarrow>
            and_then (frame_into_close f, x) (\<lambda>close x1.
            and_then (do_close close x1) (\<lambda>r x2. (Ok (map_option Close r), x2)))
        | ReservedControl i \<Rightarrow> (Err (Protocol (UnknownControlFrameType i)), x)
        | PingOp \<Rightarrow>
            (Ok (Some (Ping (payload f))),
             if is_active (ws_state x) then set_additional (frame_pong (payload f)) x else x)
        | PongOp \<Rightarrow> (Ok (Some (Pong (payload f))), x))"

definition check_max_size :: "nat \<Rightarrow> nat option \<Rightarrow> unit result" where
  "check_max_size len max_size =
     (case max_size of
        Some m \<Rightarrow> if len > m then Err (Capacity (MessageTooLong len m)) else Ok ()
      | None \<Rightarrow> Ok ())"

text \<open>The first \<open>match\<close> on a data frame: \<open>None\<close> is a continuation that has been collected.\<close>

definition collect_data ::
  "frame \<Rightarrow> data_op \<Rightarrow> ('c, 'd) ctx \<Rightarrow> (bytes \<times> message_type) option result \<times> ('c, 'd) ctx" where
  "collect_data f data x =
     (case (data, incomplete_msg x) of
        (Continue, None) \<Rightarrow> (Err (Protocol UnexpectedContinueFrame), x)
      | (Continue, Some m) \<Rightarrow>
          (case im_extend m (payload f) (max_message_size (cfg x)) of
             (r, m1) \<Rightarrow> (bind_out r (\<lambda>_. Ok None), x\<lparr>incomplete_msg := Some m1\<rparr>))
      | (_, Some _) \<Rightarrow> (Err (Protocol (ExpectedFragment data)), x)
      | (TextOp, None) \<Rightarrow> (Ok (Some (payload f, MessageText)), x)
      | (BinaryOp, None) \<Rightarrow> (Ok (Some (payload f, MessageBinary)), x)
      | (ReservedData i, None) \<Rightarrow> (Err (Protocol (UnknownDataFrameType i)), x))"

definition deliver_data ::
  "(bytes \<times> message_type) option \<Rightarrow> bool \<Rightarrow> ('c, 'd) ctx \<Rightarrow> message option result \<times> ('c, 'd) ctx" where
  "deliver_data p fin x =
     (case (p, fin) of
        (None, True) \<Rightarrow>
          (case incomplete_msg x of
             None \<Rightarrow> (Panic, x)
           | Some m \<Rightarrow> (bind_out (im_complete m) (\<lambda>msg. Ok (Some msg)), x\<lparr>incomplete_msg := None\<rparr>))
      | (None, False) \<Rightarrow> (Ok None, x)
      | (Some (data, t), True) \<Rightarrow>
          (bind_out (check_max_size (length data) (max_message_size (cfg x))) (\<lambda>_.
             case t of
               MessageText \<Rightarrow> bind_out (utf8_try_from data) (\<lambda>s. Ok (Some (Text s)))
             | MessageBinary \<Rightarrow> Ok (Some (Binary data))), x)
      | (Some (data, t), False) \<Rightarrow>
          (case im_extend (im_new t) data (max_message_size (cfg x)) of
             (Ok _, m) \<Rightarrow> (Ok None, x\<lparr>incomplete_msg := Some m\<rparr>)
           | (Err e, m) \<Rightarrow> (Err e, x)
           | (Panic, m) \<Rightarrow> (Panic, x)))"

definition handle_data ::
  "frame \<Rightarrow> data_op \<Rightarrow> ('c, 'd) ctx \<Rightarrow> message option result \<times> ('c, 'd) ctx" where
  "handle_data f data x =
     and_then (collect_data f data x) (\<lambda>p x1. deliver_data p (is_final (header f)) x1)"

definition handle_frame ::
  "('c, 'd) flate \<Rightarrow> frame \<Rightarrow> ('c, 'd) ctx \<Rightarrow> message option result \<times> ('c, 'd) ctx" where
  "handle_frame fl f x =
     and_then (check_frame f x) (\<lambda>_ x1.
     and_then (inflate_frame fl f x1) (\<lambda>f1 x2.
       case hdr_opcode (header f1) of
         ControlOp ctl \<Rightarrow> handle_control f1 ctl x2
       | DataOp data \<Rightarrow> handle_data f1 data x2))"

definition read_message_frame ::
  "('c, 'd) flate \<Rightarrow> ('c, 'd) ws \<Rightarrow> message option result \<times> ('c, 'd) ws" where
  "read_message_frame fl s =
     and_then (fetch_frame s) (\<lambda>f (x, w).
       case handle_frame fl f x of (r, x1) \<Rightarrow> (r, x1, w))"

section \<open>The loop of \<open>read\<close>\<close>

text \<open>
  Every frame read shrinks what is still to come: the bytes in the buffer and in the script,
  plus one while a header waits for its payload.
\<close>

definition input_left :: "codec_state \<Rightarrow> nat" where
  "input_left s = length (in_buffer (fst s)) + length (script_bytes (reads (snd s)))
     + (if is_some (codec_header (fst s)) then 1 else 0)"

lemma reserve_in_buffer:
  "reserve_in n c w = (r, c', w') \<Longrightarrow>
     in_buffer c' = in_buffer c \<and> codec_header c' = codec_header c \<and> reads w' = reads w"
  by (auto simp: reserve_in_def Let_def dest: next_slack_frame split: if_splits prod.splits)

lemma parse_step_left:
  assumes "parse_step m (c, w) = (r, c', w')"
  shows "input_left (c', w') \<le> input_left (c, w)"
proof (cases "codec_header c")
  case (Some hl)
  then show ?thesis using assms by (auto simp: parse_step_def)
next
  case None
  obtain r1 n where p: "parse_internal (in_buffer c) = (r1, n)" by fastforce
  show ?thesis
  proof (cases r1)
    case (Ok opt)
    show ?thesis
    proof (cases opt)
      case None': None
      then show ?thesis
        using assms None p Ok
        by (auto simp: parse_step_def header_parse_def advance_in_def input_left_def dest!: reserve_in_buffer)
    next
      case (Some hl)
      obtain h len where hl: "hl = (h, len)" by fastforce
      have n: "2 \<le> n" "n \<le> length (in_buffer c)"
        using parse_internal_consumed [of "in_buffer c" h len n] p Ok Some hl by simp_all
      have "in_buffer c' = drop n (in_buffer c) \<and> reads w' = reads w"
        using assms None p Ok Some hl
        by (auto simp: parse_step_def header_parse_def advance_in_def Let_def dest!: reserve_in_buffer
            split: if_splits)
      then show ?thesis using n None by (simp add: input_left_def) linarith
    qed
  qed (use assms None p in \<open>auto simp: parse_step_def header_parse_def\<close>)
qed

lemma read_in_bytes:
  "read_in (c, w) = (r, c', w') \<Longrightarrow> input_left (c', w') = input_left (c, w) \<and> codec_header c' = codec_header c"
proof -
  assume a: "read_in (c, w) = (r, c', w')"
  obtain r1 w1 where s: "stream_read (min (in_cap c) (length (in_buffer c) + in_buf_max_read c) - length (in_buffer c)) w = (r1, w1)"
    by fastforce
  show ?thesis
  proof (cases r1)
    case (Ok bs)
    then show ?thesis
      using a s stream_read_bytes [of _ w bs w1] by (auto simp: read_in_def Let_def input_left_def)
  next
    case (Err k)
    then show ?thesis
      using a s stream_read_Err [of _ w k w1] by (auto simp: read_in_def Let_def input_left_def)
  qed (use s in simp)
qed

lemma split_payload_left:
  "split_payload c = Some (data, c') \<Longrightarrow>
     input_left (c', w) \<le> input_left (c, w) \<and> codec_header c' = codec_header c \<and> is_some (codec_header c)"
  by (auto simp: split_payload_def advance_in_def input_left_def Let_def split: option.splits if_splits)

lemma read_loop_left:
  "read_loop m (c, w) = (r, c', w') \<Longrightarrow>
     input_left (c', w') \<le> input_left (c, w) \<and> (\<forall>data. r = Ok (Some data) \<longrightarrow> is_some (codec_header c'))"
proof (induction m "(c, w)" arbitrary: c w rule: read_loop.induct)
  case (1 m)
  obtain r1 c1 w1 where p: "parse_step m (c, w) = (r1, c1, w1)" by (metis prod.exhaust)
  note left = parse_step_left [OF p]
  show ?case
  proof (cases r1)
    case (Ok u)
    show ?thesis
    proof (cases "split_payload c1")
      case (Some dc)
      obtain data c2 where dc: "dc = (data, c2)" by fastforce
      show ?thesis
        using "1.prems" p Ok Some dc left split_payload_left [of c1 data c2 w1]
        by (auto simp: read_loop.simps)
    next
      case None
      obtain r2 c2 w2 where rd: "read_in (c1, w1) = (r2, c2, w2)" by (metis prod.exhaust)
      note bytes = read_in_bytes [OF rd]
      show ?thesis
      proof (cases "\<exists>n. r2 = Ok n \<and> n \<noteq> 0")
        case True
        then obtain n where n: "r2 = Ok n" "n \<noteq> 0" by blast
        then have "read_loop m (c2, w2) = (r, c', w')"
          using "1.prems" p Ok None rd by (simp add: read_loop.simps [of m "(c, w)"])
        from "1.hyps" [OF p [symmetric] Ok refl None rd [symmetric] n(1) n(2) this] show ?thesis
          using left bytes by simp
      next
        case False
        then show ?thesis
          using "1.prems" p Ok None rd left bytes
          by (cases r2) (auto simp: read_loop.simps)
      qed
    qed
  qed (use "1.prems" p left in \<open>auto simp: read_loop.simps\<close>)
qed

lemma read_frame_left:
  assumes "read_frame m u a (c, w) = (r, c', w')"
  shows "input_left (c', w') \<le> input_left (c, w)"
    and "r = Ok (Some f) \<Longrightarrow> input_left (c', w') < input_left (c, w)"
proof -
  define n where "n = (case m of Some n \<Rightarrow> n | None \<Rightarrow> usize_max)"
  obtain r1 c1 w1 where l: "read_loop n (c, w) = (r1, c1, w1)" by (metis prod.exhaust)
  note left = read_loop_left [OF l]
  show "input_left (c', w') \<le> input_left (c, w)"
    using assms l left
    by (auto simp: read_frame_def Let_def input_left_def n_def
        split: outcome.splits option.splits if_splits)
  show "input_left (c', w') < input_left (c, w)" if "r = Ok (Some f)"
    using assms l left that
    by (auto simp: read_frame_def Let_def input_left_def n_def
        split: outcome.splits option.splits if_splits)
qed

text \<open>What the writing operations leave alone.\<close>

definition but_out :: "codec \<Rightarrow> codec" where
  "but_out c = c\<lparr>out_buffer := []\<rparr>"

lemma but_out_eq: "c' = c\<lparr>out_buffer := out_buffer c'\<rparr> \<Longrightarrow> but_out c' = but_out c"
  by (drule arg_cong [where f = but_out]) (simp add: but_out_def)

lemma but_outD:
  assumes "but_out c' = but_out c"
  shows "in_buffer c' = in_buffer c" "in_cap c' = in_cap c" "in_buf_max_read c' = in_buf_max_read c"
    "max_out_buffer_len c' = max_out_buffer_len c" "out_buffer_write_len c' = out_buffer_write_len c"
    "codec_header c' = codec_header c"
  using assms by (simp_all add: but_out_def, (metis codec.select_convs codec.surjective codec.update_convs(4))+)

definition server_done :: "('c, 'd) ctx \<Rightarrow> bool" where
  "server_done x \<longleftrightarrow> ctx_role x = Server \<and> \<not> can_read (ws_state x)"

definition writes_only :: "('c, 'd) ws \<Rightarrow> ('c, 'd) ws \<Rightarrow> bool" where
  "writes_only s t \<longleftrightarrow>
     ctx_role (fst t) = ctx_role (fst s) \<and> cfg (fst t) = cfg (fst s) \<and>
     incomplete_msg (fst t) = incomplete_msg (fst s) \<and> deflate (fst t) = deflate (fst s) \<and>
     compressed_incomplete (fst t) = compressed_incomplete (fst s) \<and>
     compression_unusable (fst t) = compression_unusable (fst s) \<and>
     but_out (frame_codec (fst t)) = but_out (frame_codec (fst s)) \<and>
     reads (snd t) = reads (snd s) \<and> masks (snd t) = masks (snd s) \<and>
     (ws_state (fst t) = ws_state (fst s) \<or> ws_state (fst t) = Terminated \<and> server_done (fst s))"

lemma writes_only_refl [simp]: "writes_only s s"
  by (simp add: writes_only_def)

lemma writes_only_trans: "writes_only s t \<Longrightarrow> writes_only t u \<Longrightarrow> writes_only s u"
  by (auto simp: writes_only_def server_done_def)

lemma writes_only_and_then:
  assumes "writes_only s (snd p)" "\<And>a t. p = (Ok a, t) \<Longrightarrow> writes_only s t \<Longrightarrow> writes_only t (snd (k a t))"
  shows "writes_only s (snd (and_then p k))"
  using assms by (cases "(p, k)" rule: and_then.cases) (auto intro: writes_only_trans)

lemma buffer_frame_codec:
  assumes "buffer_frame f (c, w) = (r, c', w')"
  shows "but_out c' = but_out c \<and> reads w' = reads w \<and> masks w' = masks w"
proof (cases "can_buffer c (frame_len f)")
  case True
  show ?thesis using buffer_frame_fits [OF assms True] by (auto dest: but_out_eq)
next
  case False
  then show ?thesis using assms buffer_frame_full [OF False, of w] by simp
qed

lemma generate_mask_frame [frame_rules]:
  "generate_mask w = (m, w') \<Longrightarrow> reads w' = reads w \<and> writes w' = writes w \<and> flushes w' = flushes w \<and>
     sent w' = sent w \<and> masks w' = masks w \<and> slack w' = slack w"
  by (auto simp: generate_mask_def)

lemma ctx_buffer_frame_writes_only: "writes_only s (snd (ctx_buffer_frame f s))"
proof (cases s)
  case (Pair x w)
  obtain f1 w1 where m: "(case ctx_role x of Server \<Rightarrow> (f, w)
      | Client \<Rightarrow> (case generate_mask w of (m, w1) \<Rightarrow> (set_random_mask m f, w1))) = (f1, w1)"
    by fastforce
  then have w1: "reads w1 = reads w \<and> masks w1 = masks w"
    by (auto simp: generate_mask_def split: role.splits)
  obtain r c w2 where b: "buffer_frame f1 (frame_codec x, w1) = (r, c, w2)" by (metis prod.exhaust)
  show ?thesis
    using buffer_frame_codec [OF b] w1 m b by (simp add: Pair ctx_buffer_frame_def writes_only_def)
qed

lemma ctx_write_out_writes_only: "writes_only s (snd (ctx_write_out s))"
proof (cases s)
  case (Pair x w)
  obtain r c w1 where b: "write_out_buffer (frame_codec x, w) = (r, c, w1)" by (metis prod.exhaust)
  show ?thesis
    using write_out_buffer_spec [OF b] b but_out_eq [of c "frame_codec x"]
    by (simp add: Pair ctx_write_out_def writes_only_def)
qed

lemma set_additional_writes_only [simp]: "writes_only s (set_additional f (fst t), snd t) \<longleftrightarrow> writes_only s t"
  by (simp add: set_additional_def writes_only_def)

lemma set_additional_simps [simp]:
  "ctx_role (set_additional f x) = ctx_role x" "frame_codec (set_additional f x) = frame_codec x"
  "ws_state (set_additional f x) = ws_state x" "incomplete_msg (set_additional f x) = incomplete_msg x"
  "cfg (set_additional f x) = cfg x" "deflate (set_additional f x) = deflate x"
  "compressed_incomplete (set_additional f x) = compressed_incomplete x"
  "compression_unusable (set_additional f x) = compression_unusable x"
  "unflushed_additional (set_additional f x) = unflushed_additional x"
  by (simp_all add: set_additional_def)

lemma send_additional_writes_only: "writes_only s (snd (send_additional s))"
proof (cases s)
  case (Pair x w)
  show ?thesis
  proof (cases "additional_send x")
    case None
    then show ?thesis by (simp add: Pair send_additional_def)
  next
    case (Some msg)
    obtain r x1 w1 where b: "ctx_buffer_frame msg (x\<lparr>additional_send := None\<rparr>, w) = (r, x1, w1)"
      by (metis prod.exhaust)
    have "writes_only (x\<lparr>additional_send := None\<rparr>, w) (x1, w1)"
      using ctx_buffer_frame_writes_only [of "(x\<lparr>additional_send := None\<rparr>, w)" msg] b by simp
    then have "writes_only (x, w) (x1, w1)" "\<And>f. writes_only (x, w) (set_additional f x1, w1)"
      by (simp_all add: writes_only_def server_done_def)
    then show ?thesis
      using Some b by (auto simp: Pair send_additional_def split: outcome.split error.split message.split)
  qed
qed

lemma finish_write_writes_only: "writes_only s (snd (finish_write b s))"
proof (cases "server_done (fst s)")
  case True
  have "writes_only s (snd (and_then (ctx_write_out s) (\<lambda>_ (x, w). (Err ConnectionClosed, x\<lparr>ws_state := Terminated\<rparr>, w))))"
    by (rule writes_only_and_then [OF ctx_write_out_writes_only])
      (use True in \<open>auto simp: writes_only_def server_done_def\<close>)
  then show ?thesis using True by (simp add: finish_write_def server_done_def)
next
  case False
  then show ?thesis by (auto simp: finish_write_def server_done_def)
qed

lemma inner_write_writes_only: "writes_only s (snd (inner_write data s))"
  unfolding inner_write_def
  by (intro writes_only_and_then send_additional_writes_only finish_write_writes_only)
    (simp split: option.split add: ctx_buffer_frame_writes_only)

lemma ctx_stream_flush_writes_only: "writes_only s (snd (ctx_stream_flush s))"
proof -
  obtain r w1 where f: "stream_flush (snd s) = (r, w1)" by fastforce
  show ?thesis
    using f stream_flush_frame [OF f] by (cases r) (simp_all add: ctx_stream_flush_def writes_only_def)
qed

lemma unflushed_writes_only [simp]:
  "writes_only s (x\<lparr>unflushed_additional := b\<rparr>, w) \<longleftrightarrow> writes_only s (x, w)"
  "writes_only (x\<lparr>unflushed_additional := b\<rparr>, w) s \<longleftrightarrow> writes_only (x, w) s"
  by (simp_all add: writes_only_def server_done_def)

lemma ctx_flush_writes_only: "writes_only s (snd (ctx_flush s))"
  unfolding ctx_flush_def
  by (auto intro!: writes_only_and_then inner_write_writes_only ctx_write_out_writes_only
      ctx_stream_flush_writes_only)

section \<open>The operation \<open>read\<close>\<close>

definition ws_left :: "('c, 'd) ws \<Rightarrow> nat" where
  "ws_left s = input_left (frame_codec (fst s), snd s)"

lemma writes_only_left: "writes_only s t \<Longrightarrow> ws_left t = ws_left s"
  using but_outD [of "frame_codec (fst t)" "frame_codec (fst s)"]
  by (simp add: writes_only_def ws_left_def input_left_def)

text \<open>What \<open>read\<close> does before it looks for the next frame.\<close>

definition before_read :: "('c, 'd) ws \<Rightarrow> unit result \<times> ('c, 'd) ws" where
  "before_read s =
     (if is_some (additional_send (fst s)) \<or> unflushed_additional (fst s) then
        (case ctx_flush s of
           (Ok _, s1) \<Rightarrow> (Ok (), s1)
         | (Err e, x1, w1) \<Rightarrow>
             (if e = Io WouldBlock then (Ok (), x1\<lparr>unflushed_additional := True\<rparr>, w1) else (Err e, x1, w1))
         | (Panic, s1) \<Rightarrow> (Panic, s1))
      else if ctx_role (fst s) = Server \<and> \<not> can_read (ws_state (fst s)) then
        (Err ConnectionClosed, (fst s)\<lparr>ws_state := Terminated\<rparr>, snd s)
      else (Ok (), s))"

lemma before_read_writes_only: "writes_only s (snd (before_read s))"
proof -
  obtain r x1 w1 where f: "ctx_flush s = (r, x1, w1)" by (metis prod.exhaust)
  have "writes_only s (x1, w1)" using ctx_flush_writes_only [of s] f by simp
  then show ?thesis
    using f by (auto simp: before_read_def split: outcome.split) (auto simp: writes_only_def server_done_def)
qed

lemma fail_compression_codec [simp]:
  "frame_codec (fail_compression x) = frame_codec x"
  by (simp add: fail_compression_def)

lemma fail_discarded_codec [simp]:
  "frame_codec (fail_compression_on_discarded_frame f x) = frame_codec x"
  by (simp add: fail_compression_on_discarded_frame_def Let_def)

lemma fetch_frame_left:
  assumes "fetch_frame s = (r, t)"
  shows "ws_left t \<le> ws_left s" "r = Ok f \<Longrightarrow> ws_left t < ws_left s"
proof -
  obtain x w where s: "s = (x, w)" by (cases s)
  obtain r1 c w1 where f: "read_frame (max_frame_size (cfg x)) (ctx_role x = Server)
      (accept_unmasked_frames (cfg x)) (frame_codec x, w) = (r1, c, w1)" by (metis prod.exhaust)
  have t: "frame_codec (fst t) = c \<and> snd t = w1"
    using assms f by (auto simp: s fetch_frame_def Let_def split: outcome.splits option.splits if_splits)
  show "ws_left t \<le> ws_left s" using read_frame_left(1) [OF f] t by (simp add: ws_left_def s)
  show "ws_left t < ws_left s" if "r = Ok f"
  proof -
    have "r1 = Ok (Some f)"
      using assms f that
      by (auto simp: s fetch_frame_def Let_def check_connection_reset_def
          split: outcome.splits option.splits if_splits error.splits)
    from read_frame_left(2) [OF f this] show ?thesis using t by (simp add: ws_left_def s)
  qed
qed

text \<open>Handling a frame works on the context alone and never touches the codec.\<close>

lemma and_then_keeps:
  assumes "g (snd p) = g x" "\<And>a y. p = (Ok a, y) \<Longrightarrow> g y = g x \<Longrightarrow> g (snd (k a y)) = g x"
  shows "g (snd (and_then p k)) = g x"
  using assms by (cases "(p, k)" rule: and_then.cases) auto

lemma check_frame_codec [simp]: "frame_codec (snd (check_frame f x)) = frame_codec x"
  by (simp add: check_frame_def)

lemma ctx_decompress_codec [simp]: "frame_codec (snd (ctx_decompress fl d fin x)) = frame_codec x"
  by (auto simp: ctx_decompress_def Let_def split: option.split prod.split outcome.split)

lemma remember_compressed_codec [simp]: "frame_codec (remember_compressed d fin c x) = frame_codec x"
  by (simp add: remember_compressed_def)

lemma inflate_payload_codec [simp]: "frame_codec (snd (inflate_payload fl f x)) = frame_codec x"
  unfolding inflate_payload_def by (intro and_then_keeps) auto

lemma inflate_frame_codec [simp]: "frame_codec (snd (inflate_frame fl f x)) = frame_codec x"
  by (auto simp: inflate_frame_def Let_def split: opcode.split intro!: and_then_keeps)

lemma do_close_codec [simp]: "frame_codec (snd (do_close c x)) = frame_codec x"
  by (simp add: do_close_def Let_def split: ws_state.split)

lemma handle_control_codec [simp]: "frame_codec (snd (handle_control f ctl x)) = frame_codec x"
  by (auto simp: handle_control_def split: control_op.split intro!: and_then_keeps)

lemma handle_data_codec [simp]: "frame_codec (snd (handle_data f d x)) = frame_codec x"
  unfolding handle_data_def
  by (intro and_then_keeps)
    (auto simp: collect_data_def deliver_data_def split: data_op.split option.split prod.split outcome.split bool.split)

lemma handle_frame_codec [simp]: "frame_codec (snd (handle_frame fl f x)) = frame_codec x"
  unfolding handle_frame_def
  by (auto intro!: and_then_keeps split: opcode.split)

lemma read_message_frame_left:
  assumes "read_message_frame fl s = (r, t)"
  shows "ws_left t \<le> ws_left s" "r = Ok m \<Longrightarrow> ws_left t < ws_left s"
proof -
  obtain r1 s1 where f: "fetch_frame s = (r1, s1)" by (cases "fetch_frame s")
  have "ws_left t \<le> ws_left s1 \<and> ((\<exists>f. r1 = Ok f) \<or> (\<forall>m. r \<noteq> Ok m))"
  proof (cases r1)
    case (Ok g)
    then have "frame_codec (fst t) = frame_codec (fst s1) \<and> snd t = snd s1"
      using assms f handle_frame_codec [of fl g "fst s1"]
      by (cases s1; cases "handle_frame fl g (fst s1)") (auto simp: read_message_frame_def simp del: handle_frame_codec)
    then show ?thesis using Ok by (simp add: ws_left_def)
  qed (use assms f in \<open>auto simp: read_message_frame_def\<close>)
  then show "ws_left t \<le> ws_left s" "r = Ok m \<Longrightarrow> ws_left t < ws_left s"
    using fetch_frame_left [OF f] by (auto dest: order.strict_trans1)
qed

function read_messages :: "('c, 'd) flate \<Rightarrow> ('c, 'd) ws \<Rightarrow> message result \<times> ('c, 'd) ws" where
  "read_messages fl s =
     (case before_read s of
        (Err e, s1) \<Rightarrow> (Err e, s1)
      | (Panic, s1) \<Rightarrow> (Panic, s1)
      | (Ok _, s1) \<Rightarrow>
          (case read_message_frame fl s1 of
             (Err e, s2) \<Rightarrow> (Err e, s2)
           | (Panic, s2) \<Rightarrow> (Panic, s2)
           | (Ok (Some msg), s2) \<Rightarrow> (Ok msg, s2)
           | (Ok None, s2) \<Rightarrow> read_messages fl s2))"
  by pat_completeness auto
termination
proof (relation "measure (\<lambda>(fl, s). ws_left s)", goal_cases)
  case 1
  show ?case by simp
next
  case (2 fl s r s1 u r2 s2 opt)
  have "ws_left s1 = ws_left s"
    using 2 writes_only_left [OF before_read_writes_only [of s]] by (metis snd_conv)
  moreover have "read_message_frame fl s1 = (Ok None, s2)" using 2 by simp
  ultimately show ?case using read_message_frame_left(2) [of fl s1 "Ok None" s2] by simp
qed

declare read_messages.simps [simp del]

definition ctx_read :: "('c, 'd) flate \<Rightarrow> ('c, 'd) ws \<Rightarrow> message result \<times> ('c, 'd) ws" where
  "ctx_read fl s = (if ws_state (fst s) = Terminated then (Err AlreadyClosed, s) else read_messages fl s)"

section \<open>The WebSocket\<close>

definition websocket_from_raw_socket ::
  "('c, 'd) flate \<Rightarrow> world \<Rightarrow> role \<Rightarrow> config option \<Rightarrow> ('c, 'd) ws result" where
  "websocket_from_raw_socket fl stream r c = bind_out (ctx_new fl r c) (\<lambda>x. Ok (x, stream))"

definition websocket_from_partially_read ::
  "('c, 'd) flate \<Rightarrow> world \<Rightarrow> bytes \<Rightarrow> nat \<Rightarrow> role \<Rightarrow> config option \<Rightarrow> ('c, 'd) ws result" where
  "websocket_from_partially_read fl stream part cap r c =
     (case ctx_from_partially_read fl part cap r c stream of
        (created, w) \<Rightarrow> bind_out created (\<lambda>x. Ok (x, w)))"

definition websocket_into_inner :: "('c, 'd) ws \<Rightarrow> world" where
  "websocket_into_inner s = snd s"

definition websocket_send :: "('c, 'd) flate \<Rightarrow> message \<Rightarrow> ('c, 'd) ws \<Rightarrow> unit result \<times> ('c, 'd) ws" where
  "websocket_send fl msg s = and_then (ctx_write fl msg s) (\<lambda>_ s1. ctx_flush s1)"

end
