(* ===== verification/WebSocket_State.thy ===== *)
theory WebSocket_State
  imports WebSocket
begin

text \<open>
  The connection state machine of a WebSocket: how \<open>WebSocketState\<close> moves under the four
  operations, what a finished connection still does, and which connections are reachable.
\<close>

section \<open>The order of states\<close>

fun state_rank :: "ws_state \<Rightarrow> nat" where
  "state_rank Active = 0"
| "state_rank ClosedByUs = 1"
| "state_rank ClosedByPeer = 2"
| "state_rank CloseAcknowledged = 3"
| "state_rank Terminated = 4"

lemma state_rank_inj: "state_rank a = state_rank b \<Longrightarrow> a = b"
  by (cases a; cases b) simp_all

instantiation ws_state :: linorder
begin

definition less_eq_ws_state :: "ws_state \<Rightarrow> ws_state \<Rightarrow> bool" where
  "less_eq_ws_state a b \<longleftrightarrow> state_rank a \<le> state_rank b"

definition less_ws_state :: "ws_state \<Rightarrow> ws_state \<Rightarrow> bool" where
  "less_ws_state a b \<longleftrightarrow> state_rank a < state_rank b"

instance
  by standard (auto simp: less_eq_ws_state_def less_ws_state_def intro: state_rank_inj)

end

text \<open>The transitions of the closing handshake.\<close>

inductive ws_edge :: "ws_state \<Rightarrow> ws_state \<Rightarrow> bool" where
  we_close: "ws_edge Active ClosedByUs"
| peer_closes: "ws_edge Active ClosedByPeer"
| peer_acknowledges: "ws_edge ClosedByUs CloseAcknowledged"
| terminate: "ws_edge st Terminated"

inductive_cases ws_edge_TerminatedE: "ws_edge Terminated st"
inductive_cases ws_edge_ActiveE: "ws_edge Active st"
inductive_simps ws_edge_to_Active: "ws_edge st Active"
inductive_simps ws_edge_to_peer: "ws_edge st ClosedByPeer"
inductive_simps ws_edge_to_us: "ws_edge st ClosedByUs"
inductive_simps ws_edge_to_ack: "ws_edge st CloseAcknowledged"

abbreviation ws_path :: "ws_state \<Rightarrow> ws_state \<Rightarrow> bool" where
  "ws_path \<equiv> ws_edge\<^sup>*\<^sup>*"

lemma ws_edge_le: "ws_edge a b \<Longrightarrow> a \<le> b"
  by (cases a; cases b) (auto simp: less_eq_ws_state_def elim: ws_edge.cases)

lemma ws_path_le: "ws_path a b \<Longrightarrow> a \<le> b"
  by (induction rule: rtranclp_induct) (auto dest: ws_edge_le)

lemma ws_path_Terminated: "ws_path st Terminated"
  by (rule r_into_rtranclp) (rule terminate)

lemma ws_path_from_Terminated: "ws_path Terminated st \<Longrightarrow> st = Terminated"
  by (drule ws_path_le) (cases st; simp add: less_eq_ws_state_def)

section \<open>Operations and reachable connections\<close>

datatype ws_op = OpRead | OpWrite message | OpFlush | OpClose "close_frame option"

definition run_op :: "('c, 'd) flate \<Rightarrow> ws_op \<Rightarrow> ('c, 'd) ws \<Rightarrow> message option result \<times> ('c, 'd) ws" where
  "run_op fl opn s =
     (case opn of
        OpRead \<Rightarrow> and_then (ctx_read fl s) (\<lambda>m t. (Ok (Some m), t))
      | OpWrite m \<Rightarrow> and_then (ctx_write fl m s) (\<lambda>_ t. (Ok None, t))
      | OpFlush \<Rightarrow> and_then (ctx_flush s) (\<lambda>_ t. (Ok None, t))
      | OpClose c \<Rightarrow> and_then (ctx_close c s) (\<lambda>_ t. (Ok None, t)))"

text \<open>
  Between two operations the world may change at will: more input may arrive, the peer may
  start to accept bytes again. What has been sent stays sent. The application may change the
  configuration as well, within the set \<open>C\<close> of those it uses.
\<close>

inductive reachable :: "('c, 'd) flate \<Rightarrow> role \<Rightarrow> config set \<Rightarrow> ('c, 'd) ws \<Rightarrow> bool"
  for fl r C where
  start: "c \<in> C \<Longrightarrow> ctx_create fl r fc c = Ok x \<Longrightarrow> out_buffer fc = [] \<Longrightarrow> reachable fl r C (x, w)"
| step: "reachable fl r C s \<Longrightarrow> run_op fl opn s = (res, t) \<Longrightarrow> reachable fl r C t"
| wait: "reachable fl r C (x, w) \<Longrightarrow> sent w' = sent w \<Longrightarrow> reachable fl r C (x, w')"
| configure: "reachable fl r C (x, w) \<Longrightarrow> set_config f x = (Ok (), y) \<Longrightarrow> cfg y \<in> C \<Longrightarrow> reachable fl r C (y, w)"

text \<open>What \<open>set_config\<close> changes: the configuration, and the limits of the write buffer.\<close>

definition reconfigured :: "config \<Rightarrow> ('c, 'd) ctx \<Rightarrow> ('c, 'd) ctx" where
  "reconfigured c x = x\<lparr>cfg := c, frame_codec := set_out_buffer_write_len (write_buffer_size c)
     (set_max_out_buffer_len (max_write_buffer_size c) (frame_codec x))\<rparr>"

lemma set_config_Ok_iff:
  "set_config f x = (Ok (), y) \<longleftrightarrow>
     y = reconfigured (f (cfg x)) x \<and> cfg_deflate (f (cfg x)) = cfg_deflate (cfg x) \<and> config_valid (f (cfg x))"
  by (auto simp: set_config_def reconfigured_def Let_def)

lemma reconfigured_simps [simp]:
  "cfg (reconfigured c x) = c" "ctx_role (reconfigured c x) = ctx_role x" "ws_state (reconfigured c x) = ws_state x"
  "incomplete_msg (reconfigured c x) = incomplete_msg x" "additional_send (reconfigured c x) = additional_send x"
  "unflushed_additional (reconfigured c x) = unflushed_additional x" "deflate (reconfigured c x) = deflate x"
  "compressed_incomplete (reconfigured c x) = compressed_incomplete x"
  "compression_unusable (reconfigured c x) = compression_unusable x"
  "in_buffer (frame_codec (reconfigured c x)) = in_buffer (frame_codec x)"
  "out_buffer (frame_codec (reconfigured c x)) = out_buffer (frame_codec x)"
  "codec_header (frame_codec (reconfigured c x)) = codec_header (frame_codec x)"
  "max_out_buffer_len (frame_codec (reconfigured c x)) = max_write_buffer_size c"
  by (simp_all add: reconfigured_def set_out_buffer_write_len_def set_max_out_buffer_len_def)

lemma snd_and_then_return: "snd (and_then p (\<lambda>a t. (k a, t))) = snd p"
proof (cases p)
  case (Pair r t)
  then show ?thesis by (cases r) simp_all
qed

lemma run_op_state:
  "snd (run_op fl opn s) =
     (case opn of OpRead \<Rightarrow> snd (ctx_read fl s) | OpWrite m \<Rightarrow> snd (ctx_write fl m s)
      | OpFlush \<Rightarrow> snd (ctx_flush s) | OpClose c \<Rightarrow> snd (ctx_close c s))"
  by (simp add: run_op_def snd_and_then_return split: ws_op.split)

section \<open>The interface of an invariant\<close>

text \<open>
  A relation between the state before and after that every building block of the engine
  keeps, when the frames handed to \<open>_write\<close> satisfy \<open>okf\<close>. The lemmas lift it to the
  operations. It speaks of the context and of the world, so that it can be about the
  connection state as well as about the bytes on the wire.
\<close>

definition raw_ok :: "(frame \<Rightarrow> bool) \<Rightarrow> ws_op \<Rightarrow> bool" where
  "raw_ok okf opn \<longleftrightarrow> (case opn of OpWrite (RawFrame f) \<Rightarrow> okf f | _ \<Rightarrow> True)"

definition is_control_frame :: "frame \<Rightarrow> bool" where
  "is_control_frame f \<longleftrightarrow> (case hdr_opcode (header f) of ControlOp _ \<Rightarrow> True | DataOp _ \<Rightarrow> False)"

definition may_write :: "('c, 'd) ws \<Rightarrow> frame \<Rightarrow> bool" where
  "may_write s f \<longleftrightarrow> ws_state (fst s) = Active \<or> is_control_frame f"

lemma control_frames [simp]:
  "is_control_frame (frame_close code)" "is_control_frame (frame_pong d)" "is_control_frame (frame_ping d)"
  by (simp_all add: is_control_frame_def frame_close_def frame_pong_def frame_ping_def default_header_def Let_def)

lemma prepare_data_simps:
  "ws_state (snd (prepare_data fl d opc x)) = ws_state x" "ctx_role (snd (prepare_data fl d opc x)) = ctx_role x"
  "cfg (snd (prepare_data fl d opc x)) = cfg x" "frame_codec (snd (prepare_data fl d opc x)) = frame_codec x"
  "incomplete_msg (snd (prepare_data fl d opc x)) = incomplete_msg x"
  "additional_send (snd (prepare_data fl d opc x)) = additional_send x"
  "compression_unusable (snd (prepare_data fl d opc x)) = compression_unusable x"
  by (simp_all add: prepare_data_def Let_def split: option.split prod.split outcome.split)

locale engine_relation =
  fixes fl :: "('c, 'd) flate"
    and okf :: "frame \<Rightarrow> bool"
    and rel :: "('c, 'd) ws \<Rightarrow> ('c, 'd) ws \<Rightarrow> bool"
  assumes rel_refl: "rel s s"
    and rel_trans: "rel s t \<Longrightarrow> rel t u \<Longrightarrow> rel s u"
    and rel_inner_write: "(\<forall>f. data = Some f \<longrightarrow> okf f \<and> may_write s f) \<Longrightarrow> rel s (snd (inner_write data s))"
    and rel_write_out: "rel s (snd (ctx_write_out s))"
    and rel_stream_flush: "rel s (snd (ctx_stream_flush s))"
    and rel_unflushed: "rel (x, w) (x\<lparr>unflushed_additional := b\<rparr>, w)"
    and rel_terminate: "rel (x, w) (x\<lparr>ws_state := Terminated\<rparr>, w)"
    and rel_fetch: "rel s (snd (fetch_frame s))"
    and rel_handle: "rel (x, w) (snd (handle_frame fl f x), w)"
    and rel_we_close: "ws_state x = Active \<Longrightarrow> rel (x, w) (x\<lparr>ws_state := ClosedByUs\<rparr>, w)"
    and rel_prepare: "rel (x, w) (snd (prepare_data fl d opc x), w)"
    and rel_pong: "rel (x, w) (set_additional (frame_pong d) x, w)"
    and ok_prepared: "fst (prepare_data fl d opc x) = Ok f \<Longrightarrow> okf f"
    and ok_ping: "okf (frame_ping d)"
    and ok_close: "okf (frame_close code)"
begin

lemma rel_and_then:
  assumes "rel s (snd p)" "\<And>a t. p = (Ok a, t) \<Longrightarrow> rel t (snd (k a t))"
  shows "rel s (snd (and_then p k))"
proof -
  obtain r t where "p = (r, t)" by (rule prod.exhaust)
  then show ?thesis using assms by (cases r) (auto intro: rel_trans)
qed

lemma rel_inner_write_None: "rel s (snd (inner_write None s))"
  by (rule rel_inner_write) simp

lemma rel_flush: "rel s (snd (ctx_flush s))"
  unfolding ctx_flush_def
  by (auto intro!: rel_and_then rel_inner_write_None rel_write_out rel_stream_flush rel_unflushed rel_refl)

lemma rel_before_read: "rel s (snd (before_read s))"
proof -
  obtain r x1 w1 where fields: "ctx_flush s = (r, x1, w1)" by (metis prod.exhaust)
  have f: "rel s (x1, w1)" using rel_flush [of s] fields by simp
  have "rel s (x1\<lparr>unflushed_additional := b\<rparr>, w1)" for b by (rule rel_trans [OF f rel_unflushed])
  moreover have "rel s ((fst s)\<lparr>ws_state := Terminated\<rparr>, snd s)" using rel_terminate [of "fst s" "snd s"] by simp
  ultimately show ?thesis
    using f fields by (auto simp: before_read_def rel_refl split: outcome.split)
qed

lemma rel_read_message_frame: "rel s (snd (read_message_frame fl s))"
  unfolding read_message_frame_def
proof (rule rel_and_then [OF rel_fetch])
  fix f and t :: "('c, 'd) ws"
  obtain r x1 where h: "handle_frame fl f (fst t) = (r, x1)" by fastforce
  show "rel t (snd (case t of (x, w) \<Rightarrow> case handle_frame fl f x of (r, x1) \<Rightarrow> (r, x1, w)))"
    using rel_handle [of "fst t" "snd t" f] h by (cases t) simp
qed

lemma rel_read_messages: "fl' = fl \<Longrightarrow> rel s (snd (read_messages fl' s))"
proof (induction fl' s rule: read_messages.induct)
  case (1 fl' s)
  obtain r s1 where b: "before_read s = (r, s1)" by (cases "before_read s")
  have s1: "rel s s1" using rel_before_read [of s] b by simp
  show ?case
  proof (cases r)
    case (Ok u)
    obtain r2 s2 where m: "read_message_frame fl' s1 = (r2, s2)" by (cases "read_message_frame fl' s1")
    have s2: "rel s s2"
      using rel_trans [OF s1] rel_read_message_frame [of s1] m "1.prems" by simp
    show ?thesis
    proof (cases "r2 = Ok None")
      case True
      have "rel s2 (snd (read_messages fl' s2))"
        by (rule "1.IH" [OF b [symmetric] Ok m [symmetric] True]) (use "1.prems" in simp_all)
      then show ?thesis
        using rel_trans [OF s2] b m Ok True by (simp add: read_messages.simps [of fl' s])
    next
      case False
      then show ?thesis
        using s2 b m Ok by (cases r2) (auto simp: read_messages.simps [of fl' s] split: option.split)
    qed
  qed (use s1 b in \<open>simp_all add: read_messages.simps [of fl' s]\<close>)
qed

lemma rel_read: "rel s (snd (ctx_read fl s))"
  by (simp add: ctx_read_def rel_refl rel_read_messages)

lemma rel_write_frame: "okf f \<Longrightarrow> may_write s f \<Longrightarrow> rel s (snd (write_frame f s))"
  unfolding write_frame_def
  by (rule rel_and_then) (auto intro: rel_inner_write rel_flush rel_refl)

lemma rel_write_data:
  assumes "ws_state (fst s) = Active"
  shows "rel s (snd (write_data fl data op s))"
proof -
  obtain x w where s: "s = (x, w)" by (cases s)
  obtain r x1 where p: "prepare_data fl data op x = (r, x1)" by fastforce
  have x1: "rel (x, w) (x1, w)" using rel_prepare [of x w data op] p by simp
  show ?thesis
  proof (cases r)
    case (Ok f)
    have "okf f" using ok_prepared [of data op x f] p Ok by simp
    moreover have "may_write (x1, w) f"
      using assms prepare_data_simps(1) [of fl data op x] p by (simp add: s may_write_def)
    ultimately show ?thesis using rel_trans [OF x1 rel_write_frame] p Ok by (simp add: s write_data_def)
  qed (use x1 p in \<open>simp_all add: s write_data_def\<close>)
qed

lemma rel_close: "rel s (snd (ctx_close code s))"
proof -
  obtain x w where s: "s = (x, w)" by (cases s)
  show ?thesis
  proof (cases "ws_state x = Active")
    case True
    have "rel (x, w) (snd (inner_write (Some (frame_close code)) (x\<lparr>ws_state := ClosedByUs\<rparr>, w)))"
      by (rule rel_trans [OF rel_we_close [OF True] rel_inner_write]) (simp add: ok_close may_write_def)
    then show ?thesis
      unfolding s ctx_close_def by (auto simp: True intro!: rel_and_then rel_flush)
  next
    case False
    then show ?thesis unfolding s ctx_close_def by (simp add: rel_flush)
  qed
qed

lemma rel_write:
  assumes "raw_ok okf (OpWrite msg)"
  shows "rel s (snd (ctx_write fl msg s))"
proof -
  obtain x w where s: "s = (x, w)" by (cases s)
  have "rel (x, w) (snd (and_then (inner_write None (set_additional (frame_pong data) x, w)) (\<lambda>_ s1. (Ok (), s1))))" for data
    by (simp add: snd_and_then_return rel_trans [OF rel_pong rel_inner_write_None])
  then show ?thesis
    using assms
    by (auto simp: s ctx_write_def rel_refl rel_write_data rel_write_frame rel_close ok_ping raw_ok_def may_write_def
        split: message.split)
qed

lemma rel_run_op: "raw_ok okf opn \<Longrightarrow> rel s (snd (run_op fl opn s))"
  by (cases opn) (simp_all add: run_op_state rel_read rel_write rel_flush rel_close)

end

section \<open>The connection state under the operations\<close>

definition state_rel :: "('c, 'd) ws \<Rightarrow> ('c, 'd) ws \<Rightarrow> bool" where
  "state_rel s t \<longleftrightarrow> ws_path (ws_state (fst s)) (ws_state (fst t)) \<and> ctx_role (fst t) = ctx_role (fst s) \<and>
     cfg (fst t) = cfg (fst s) \<and>
     (compression_unusable (fst t) \<longrightarrow> compression_unusable (fst s) \<or> ws_state (fst t) = Terminated) \<and>
     (compression_unusable (fst s) \<longrightarrow> compression_unusable (fst t))"

lemma state_rel_same [simp]:
  "ws_state y = ws_state x \<Longrightarrow> ctx_role y = ctx_role x \<Longrightarrow> cfg y = cfg x \<Longrightarrow>
   compression_unusable y = compression_unusable x \<Longrightarrow> state_rel (x, w) (y, v)"
  by (simp add: state_rel_def)

lemma state_rel_Terminated:
  "ws_state y = Terminated \<Longrightarrow> ctx_role y = ctx_role x \<Longrightarrow> cfg y = cfg x \<Longrightarrow>
   (compression_unusable x \<longrightarrow> compression_unusable y) \<Longrightarrow> state_rel (x, w) (y, v)"
  by (simp add: state_rel_def ws_path_Terminated)

lemma writes_only_state_rel: "writes_only s t \<Longrightarrow> state_rel s t"
  by (auto simp: writes_only_def state_rel_def ws_path_Terminated)

lemma state_rel_trans:
  assumes "state_rel s t" "state_rel t u"
  shows "state_rel s u"
proof -
  have "ws_state (fst u) = Terminated" if "ws_state (fst t) = Terminated"
    using assms(2) that by (simp add: state_rel_def ws_path_from_Terminated)
  then show ?thesis using assms by (auto simp: state_rel_def intro: rtranclp_trans)
qed

lemma state_rel_refl [simp]: "state_rel s s"
  by (simp add: state_rel_def)

lemma fail_compression_simps [simp]:
  "ws_state (fail_compression x) = Terminated" "compression_unusable (fail_compression x)"
  "ctx_role (fail_compression x) = ctx_role x" "cfg (fail_compression x) = cfg x"
  "incomplete_msg (fail_compression x) = incomplete_msg x" "deflate (fail_compression x) = deflate x"
  "additional_send (fail_compression x) = additional_send x"
  by (simp_all add: fail_compression_def)

lemma fail_compression_state_rel: "state_rel (x, w) (fail_compression x, v)"
  by (rule state_rel_Terminated) simp_all

lemma fail_discarded_state_rel: "state_rel (x, w) (fail_compression_on_discarded_frame f x, v)"
  by (simp add: fail_compression_on_discarded_frame_def Let_def fail_compression_state_rel)

text \<open>Composition on the context alone.\<close>

lemma and_then_state_rel:
  assumes "state_rel (x, w) (snd p, w)" "\<And>a y. p = (Ok a, y) \<Longrightarrow> state_rel (y, w) (snd (k a y), w)"
  shows "state_rel (x, w) (snd (and_then p k), w)"
proof -
  obtain r t where "p = (r, t)" by (rule prod.exhaust)
  then show ?thesis using assms by (cases r) (auto intro: state_rel_trans)
qed

lemma check_frame_state_rel: "state_rel (x, w) (snd (check_frame f x), w)"
  by (simp add: check_frame_def fail_discarded_state_rel)

lemma ctx_decompress_state_rel: "state_rel (x, w) (snd (ctx_decompress fl d fin x), w)"
proof (cases "deflate x")
  case (Some dc)
  obtain r d1 where "decompress fl d fin (case incomplete_msg x of Some m \<Rightarrow> im_len m | None \<Rightarrow> 0)
      (max_message_size (cfg x)) dc = (r, d1)" by fastforce
  moreover have "state_rel (x, w) (fail_compression (x\<lparr>deflate := Some d1\<rparr>), w)"
    by (rule state_rel_Terminated) simp_all
  ultimately show ?thesis using Some by (cases r) (simp_all add: ctx_decompress_def)
qed (simp add: ctx_decompress_def)

lemma inflate_frame_state_rel: "state_rel (x, w) (snd (inflate_frame fl f x), w)"
proof -
  have "state_rel (x, w) (snd (inflate_payload fl f x), w)"
    unfolding inflate_payload_def by (rule and_then_state_rel [OF ctx_decompress_state_rel]) simp
  moreover have "state_rel (y, w) (remember_compressed d fin c y, w)" for d fin c and y :: "('a, 'b) ctx"
    by (simp add: remember_compressed_def)
  ultimately show ?thesis
    by (auto simp: inflate_frame_def Let_def fail_discarded_state_rel split: opcode.split
        intro!: and_then_state_rel)
qed

lemma do_close_state_rel: "state_rel (x, w) (snd (do_close c x), w)"
proof (cases "ws_state x")
  case Active
  then show ?thesis
    by (auto simp: do_close_def Let_def state_rel_def intro: r_into_rtranclp peer_closes)
next
  case ClosedByUs
  then show ?thesis by (auto simp: do_close_def state_rel_def intro: r_into_rtranclp peer_acknowledges)
qed (simp_all add: do_close_def)

lemma handle_control_state_rel: "state_rel (x, w) (snd (handle_control f ctl x), w)"
  by (auto simp: handle_control_def split: control_op.split intro!: and_then_state_rel do_close_state_rel)

lemma handle_data_state_rel: "state_rel (x, w) (snd (handle_data f d x), w)"
  unfolding handle_data_def
  by (rule and_then_state_rel)
    (auto simp: collect_data_def deliver_data_def split: data_op.split option.split prod.split outcome.split bool.split)

lemma handle_frame_state_rel: "state_rel (x, w) (snd (handle_frame fl f x), w)"
  unfolding handle_frame_def
  by (auto intro!: and_then_state_rel check_frame_state_rel inflate_frame_state_rel
      split: opcode.split simp: handle_control_state_rel handle_data_state_rel)

lemma fetch_frame_state_rel: "state_rel s (snd (fetch_frame s))"
proof -
  obtain x w where s: "s = (x, w)" by (rule prod.exhaust)
  obtain r c w1 where f: "read_frame (max_frame_size (cfg x)) (ctx_role x = Server)
      (accept_unmasked_frames (cfg x)) (frame_codec x, w) = (r, c, w1)" by (metis prod.exhaust)
  have "state_rel (x, w) (x\<lparr>frame_codec := c\<rparr>, w1)" by simp
  moreover have "state_rel (x, w) (fail_compression (x\<lparr>frame_codec := c\<rparr>), w1)"
    by (rule state_rel_Terminated) simp_all
  moreover have "state_rel (x, w) (y\<lparr>ws_state := Terminated\<rparr>, w1)"
    if "state_rel (x, w) (y, w1)" for y
    using that by (simp add: state_rel_def ws_path_Terminated)
  ultimately show ?thesis
    using f by (simp add: s fetch_frame_def Let_def split: outcome.split option.split)
qed

interpretation st: engine_relation fl "\<lambda>_. True" state_rel for fl
proof unfold_locales
  show "state_rel s (snd (inner_write data s))" for s :: "('a, 'b) ws" and data
    by (rule writes_only_state_rel) (rule inner_write_writes_only)
  show "state_rel s (snd (ctx_write_out s))" for s :: "('a, 'b) ws"
    by (rule writes_only_state_rel) (rule ctx_write_out_writes_only)
  show "state_rel s (snd (ctx_stream_flush s))" for s :: "('a, 'b) ws"
    by (rule writes_only_state_rel) (rule ctx_stream_flush_writes_only)
  show "state_rel (x, w) (x\<lparr>ws_state := ClosedByUs\<rparr>, w)" if "ws_state x = Active" for x :: "('a, 'b) ctx" and w
    using that by (auto simp: state_rel_def intro: r_into_rtranclp we_close)
  show "state_rel (x, w) (snd (prepare_data fl d opc x), w)" for fl d opc and x :: "('a, 'b) ctx" and w
    by (auto simp: prepare_data_def Let_def split: option.split prod.split outcome.split)
  show "state_rel s u" if "state_rel s t" "state_rel t u" for s t u :: "('a, 'b) ws"
    by (rule state_rel_trans) (fact that)+
qed (simp_all add: fetch_frame_state_rel handle_frame_state_rel state_rel_Terminated)

lemma run_op_cfg: "cfg (fst (snd (run_op fl opn s))) = cfg (fst s)"
  using st.rel_run_op [of opn s fl] by (simp add: state_rel_def raw_ok_def split: ws_op.split message.split)

text \<open>
  Claim C7. The connection state only moves along the closing handshake: whatever the
  application calls and whatever the peer sends, an operation takes \<open>Active\<close> to \<open>ClosedByUs\<close>
  or \<open>ClosedByPeer\<close>, \<open>ClosedByUs\<close> to \<open>CloseAcknowledged\<close>, and anything to \<open>Terminated\<close>, and
  never goes back.
\<close>

theorem run_op_state_path:
  "ws_edge\<^sup>*\<^sup>* (ws_state (fst s)) (ws_state (fst (snd (run_op fl opn s)))) \<and>
   ws_state (fst s) \<le> ws_state (fst (snd (run_op fl opn s)))"
  using st.rel_run_op [of opn s fl] by (simp add: state_rel_def raw_ok_def ws_path_le split: ws_op.split message.split)

text \<open>
  Claim C21. A connection that has ended stays ended, and one that is closing writes no more:
  after \<open>Terminated\<close> every \<open>read\<close> and \<open>write\<close> gives \<open>AlreadyClosed\<close> and changes nothing, no
  operation leaves \<open>Terminated\<close>, and in the three closing states every \<open>write\<close> gives
  \<open>SendAfterClosing\<close> and changes nothing.
\<close>

theorem closed_connection:
  "if ws_state (fst s) = Terminated
   then ctx_read fl s = (Err AlreadyClosed, s) \<and> ctx_write fl m s = (Err AlreadyClosed, s) \<and>
     ws_state (fst (snd (run_op fl opn s))) = Terminated
   else ws_state (fst s) = Active \<or> ctx_write fl m s = (Err (Protocol SendAfterClosing), s)"
proof (cases "ws_state (fst s) = Terminated")
  case True
  have "ws_path Terminated (ws_state (fst (snd (run_op fl opn s))))"
    using st.rel_run_op [of opn s fl] True
    by (simp add: state_rel_def raw_ok_def split: ws_op.split message.split)
  then show ?thesis
    using True by (cases s) (simp add: ctx_read_def ctx_write_def ws_path_from_Terminated)
next
  case False
  then show ?thesis by (cases s) (simp add: ctx_write_def)
qed

lemma reachable_unusable:
  "reachable fl r C s \<Longrightarrow> compression_unusable (fst s) \<Longrightarrow> ws_state (fst s) = Terminated"
proof (induction rule: reachable.induct)
  case (start c fc x w)
  then show ?case by (auto simp: ctx_create_def bind_out_Ok_iff split: if_splits)
next
  case (step s opn res t)
  have "state_rel s t"
    using st.rel_run_op [of opn s fl] step.hyps(2) by (simp add: raw_ok_def split: ws_op.split message.split)
  then show ?case
    using step.IH step.prems ws_path_from_Terminated by (auto simp: state_rel_def)
qed (auto simp: set_config_Ok_iff)

text \<open>
  Claim C22. Once compression state is unusable the connection is out of service for good: in
  every reachable connection with the latch set, each of the four operations gives
  \<open>AlreadyClosed\<close> and changes nothing, so no queued byte is written and no close frame sent.
\<close>

theorem unusable_compression_latched:
  assumes "reachable fl r C s" "compression_unusable (fst s)"
  shows "run_op fl opn s = (Err AlreadyClosed, s)"
proof -
  have "ws_state (fst s) = Terminated" using reachable_unusable [OF assms] .
  then show ?thesis
    using assms(2)
    by (cases s) (simp add: run_op_def ctx_read_def ctx_write_def ctx_close_def ctx_flush_def split: ws_op.split)
qed

text \<open>A server that agreed on compression and finds an unmasked frame in its buffer.\<close>

definition deflate_config :: config where
  "deflate_config = default_config\<lparr>cfg_deflate := Some default_settings, write_buffer_size := 0\<rparr>"

definition copying_context :: "(unit, unit) deflate_context" where
  "copying_context = \<lparr>encoder = (), decoder_of = \<lparr>dec_stream = (), dec_window_bits = 15\<rparr>,
     reset_encoder_flag = False, reset_decoder_flag = False\<rparr>"

definition sample_ctx :: "role \<Rightarrow> bytes \<Rightarrow> (unit, unit) ctx" where
  "sample_ctx r input = \<lparr>ctx_role = r,
     frame_codec = (codec_new 16)\<lparr>in_buffer := input, max_out_buffer_len := usize_max, out_buffer_write_len := 0\<rparr>,
     ws_state = Active, incomplete_msg = None, additional_send = None, unflushed_additional = False,
     cfg = deflate_config, deflate = Some copying_context, compressed_incomplete = False,
     compression_unusable = False\<rparr>"

lemma deflate_context_copying:
  "deflate_context_new copying r default_settings =
Ok copying_context"
  by (cases r) (simp_all add: deflate_context_new_def decoder_new_def window_in_range_def default_settings_def
      copying_context_def Let_def)

lemma sample_ctx_created:
  "ctx_create copying r ((codec_new 16)\<lparr>in_buffer := input\<rparr>) deflate_config = Ok (sample_ctx r input)"
  by (simp add: ctx_create_def deflate_config_def default_config_def config_valid_def usize_max_eq
      deflate_context_copying sample_ctx_def set_out_buffer_write_len_def set_max_out_buffer_len_def)

lemmas read_one_simps = run_op_def ctx_read_def read_messages.simps before_read_def read_message_frame_def
  fetch_frame_def read_frame_def read_loop.simps parse_step_def header_parse_def parse_internal_def
  opcode_from_u8_def read_length_def for_byte_def as_usize_def usize_bits_def usize_max_eq advance_in_def
  reserve_in_def split_payload_def check_connection_reset_def Let_def header_max_size_def

theorem unusable_compression_latched_witness:
  "\<exists>s. reachable copying Server {deflate_config} s \<and> compression_unusable (fst s) \<and>
     run_op copying OpFlush s = (Err AlreadyClosed, s)"
proof -
  let ?s = "(sample_ctx Server [0x81, 0], idle_world)"
  have r: "reachable copying Server {deflate_config} ?s"
    by (rule reachable.start [OF singletonI sample_ctx_created]) (simp add: codec_new_def)
  obtain res t where t: "run_op copying OpRead ?s = (res, t)" by (rule prod.exhaust)
  have "compression_unusable (fst (snd (run_op copying OpRead ?s)))"
    by (simp add: read_one_simps sample_ctx_def codec_new_def deflate_config_def default_config_def)
  then have "compression_unusable (fst t)" using t by simp
  with unusable_compression_latched [OF reachable.step [OF r t] this, of OpFlush] reachable.step [OF r t]
  show ?thesis by blast
qed

section \<open>Reading does not write\<close>

lemma next_slack_sent: "next_slack w = (n, w') \<Longrightarrow> sent w' = sent w \<and> masks w' = masks w"
  by (auto simp: next_slack_def split: list.splits)

definition out_same :: "codec_state \<Rightarrow> codec_state \<Rightarrow> bool" where
  "out_same s t \<longleftrightarrow> out_buffer (fst t) = out_buffer (fst s) \<and> max_out_buffer_len (fst t) = max_out_buffer_len (fst s) \<and>
     out_buffer_write_len (fst t) = out_buffer_write_len (fst s) \<and> sent (snd t) = sent (snd s) \<and>
     masks (snd t) = masks (snd s)"

lemma out_same_trans: "out_same s t \<Longrightarrow> out_same t u \<Longrightarrow> out_same s u"
  by (simp add: out_same_def)

lemma reserve_in_out: "out_same (c, w) (snd (reserve_in n c w))"
  by (auto simp: reserve_in_def out_same_def Let_def dest: next_slack_sent split: prod.split)

lemma parse_step_out: "out_same (c, w) (snd (parse_step m (c, w)))"
proof -
  have adv: "out_same (c, w) (advance_in n (c\<lparr>codec_header := h\<rparr>), w)" for n h
    by (simp add: out_same_def advance_in_def)
  show ?thesis
    using out_same_trans [OF adv reserve_in_out] adv
    by (auto simp: parse_step_def Let_def out_same_def [of "(c, w)" "(c, w)"] split: option.split outcome.split prod.split)
qed

lemma read_in_out: "out_same (c, w) (snd (read_in (c, w)))"
proof -
  obtain r w1 where s: "stream_read (room_of c) w = (r, w1)" by fastforce
  show ?thesis using stream_read_frame [OF s] s by (cases r) (simp_all add: read_in_room out_same_def)
qed

lemma read_loop_out: "out_same s (snd (read_loop m s))"
proof (induction m s rule: read_loop.induct)
  case (1 m s)
  obtain c w where s: "s = (c, w)" by (cases s)
  obtain r1 c1 w1 where p: "parse_step m (c, w) = (r1, c1, w1)" by (metis prod.exhaust)
  have s1: "out_same s (c1, w1)" using parse_step_out [of c w m] p s by simp
  show ?case
  proof (cases r1)
    case (Ok u)
    show ?thesis
    proof (cases "split_payload c1")
      case (Some dc)
      then have "out_same (c1, w1) (snd dc, w1)"
        by (auto simp: split_payload_def out_same_def advance_in_def Let_def split: option.splits if_splits)
      then show ?thesis
        using out_same_trans [OF s1] p Ok Some s by (cases dc) (simp add: read_loop.simps)
    next
      case None
      obtain r2 s2 where rd: "read_in (c1, w1) = (r2, s2)" by (cases "read_in (c1, w1)")
      have s2: "out_same s s2" using out_same_trans [OF s1] read_in_out [of c1 w1] rd by simp
      show ?thesis
      proof (cases "\<exists>n. r2 = Ok n \<and> n \<noteq> 0")
        case True
        then obtain n where n: "r2 = Ok n" "n \<noteq> 0" by blast
        have "out_same s2 (snd (read_loop m s2))"
          by (rule "1.IH") (use p Ok None rd n s in auto)
        then show ?thesis
          using out_same_trans [OF s2] p Ok None rd n s by (simp add: read_loop.simps [of m "(c, w)"])
      next
        case False
        then show ?thesis using s2 p Ok None rd s by (cases r2) (auto simp: read_loop.simps)
      qed
    qed
  qed (use s1 p s in \<open>simp_all add: read_loop.simps\<close>)
qed

lemma read_frame_out: "out_same s (snd (read_frame m u a s))"
proof -
  obtain r c1 w1 where l: "read_loop (case m of Some n \<Rightarrow> n | None \<Rightarrow> usize_max) s = (r, c1, w1)"
    by (metis prod.exhaust)
  have "out_same s (c1, w1)" using read_loop_out [of s] l by (metis snd_conv)
  then show ?thesis
    using l by (auto simp: read_frame_def Let_def out_same_def split: outcome.split option.split)
qed

section \<open>What goes on the wire\<close>

definition ws_sent :: "('c, 'd) ws \<Rightarrow> bytes" where
  "ws_sent s = stream_so_far (frame_codec (fst s), snd s)"

text \<open>
  A frame as this endpoint may send it from the state \<open>s\<close>: masked with a mask of the
  generator by a client, unmasked by a server, and a control frame unless \<open>s\<close> is active.
\<close>

definition sendable :: "('c, 'd) ws \<Rightarrow> frame \<Rightarrow> bool" where
  "sendable s f \<longleftrightarrow>
     (case ctx_role (fst s) of
        Client \<Rightarrow> (\<exists>k. hdr_mask (header f) = Some (masks (snd s) k))
      | Server \<Rightarrow> hdr_mask (header f) = None) \<and>
     (ws_state (fst s) = Active \<or> is_control_frame f)"

definition emits :: "('c, 'd) ws \<Rightarrow> ('c, 'd) ws \<Rightarrow> bool" where
  "emits s t \<longleftrightarrow> ctx_role (fst t) = ctx_role (fst s) \<and> masks (snd t) = masks (snd s) \<and>
     ws_path (ws_state (fst s)) (ws_state (fst t)) \<and>
     (\<exists>fs. ws_sent t = ws_sent s @ concat (map wire fs) \<and> list_all (sendable s) fs)"

lemma emitsI:
  "ctx_role (fst t) = ctx_role (fst s) \<Longrightarrow> masks (snd t) = masks (snd s) \<Longrightarrow>
   ws_path (ws_state (fst s)) (ws_state (fst t)) \<Longrightarrow> ws_sent t = ws_sent s @ concat (map wire fs) \<Longrightarrow>
   list_all (sendable s) fs \<Longrightarrow> emits s t"
  by (auto simp: emits_def)

lemma ws_path_to_Active: "ws_path st Active \<Longrightarrow> st = Active"
  by (drule ws_path_le) (cases st; simp add: less_eq_ws_state_def)

lemma emits_trans:
  assumes "emits s t" "emits t u"
  shows "emits s u"
proof -
  obtain fs gs where f: "ws_sent t = ws_sent s @ concat (map wire fs)" "list_all (sendable s) fs"
    and g: "ws_sent u = ws_sent t @ concat (map wire gs)" "list_all (sendable t) gs"
    using assms by (auto simp: emits_def)
  have "sendable s h" if "sendable t h" for h
    using that assms(1) ws_path_to_Active by (auto simp: sendable_def emits_def split: role.splits)
  then have "list_all (sendable s) gs" using g(2) by (auto simp: list_all_iff)
  then show ?thesis
    using assms f g by (intro emitsI [of u s "fs @ gs"]) (auto simp: emits_def)
qed

lemma emits_quiet:
  "ctx_role (fst t) = ctx_role (fst s) \<Longrightarrow> masks (snd t) = masks (snd s) \<Longrightarrow>
   ws_path (ws_state (fst s)) (ws_state (fst t)) \<Longrightarrow> ws_sent t = ws_sent s \<Longrightarrow> emits s t"
  by (rule emitsI [of t s "[]"]) simp_all

text \<open>The queued automatic reply is a control frame, and unmasked on a server.\<close>

definition reply_ok :: "('c, 'd) ctx \<Rightarrow> bool" where
  "reply_ok x \<longleftrightarrow> (\<forall>f. additional_send x = Some f \<longrightarrow>
      is_control_frame f \<and> (ctx_role x = Server \<longrightarrow> hdr_mask (header f) = None))"

definition okay_frame :: "('c, 'd) ctx \<Rightarrow> frame \<Rightarrow> bool" where
  "okay_frame x f \<longleftrightarrow> (ctx_role x = Server \<longrightarrow> hdr_mask (header f) = None)"

definition outgoing :: "('c, 'd) ctx \<Rightarrow> world \<Rightarrow> frame \<Rightarrow> frame" where
  "outgoing x w f = (case ctx_role x of Server \<Rightarrow> f | Client \<Rightarrow> set_random_mask (masks w (draws w)) f)"

lemma outgoing_simps [simp]:
  "is_control_frame (outgoing x w f) = is_control_frame f" "payload (outgoing x w f) = payload f"
  "ctx_role x = Server \<Longrightarrow> outgoing x w f = f"
  "hdr_opcode (header (outgoing x w f)) = hdr_opcode (header f)"
  by (simp_all add: outgoing_def set_random_mask_def header_set_random_mask_def is_control_frame_def split: role.split)

text \<open>One frame through \<open>buffer_frame\<close>: queued behind what was sent, or handed back.\<close>

lemma ctx_buffer_frame_spec:
  assumes "ctx_buffer_frame f (x, w) = (r, y, v)"
  shows "y = x\<lparr>frame_codec := frame_codec y\<rparr> \<and> masks v = masks w \<and> reads v = reads w \<and> flushes v = flushes w \<and>
    but_out (frame_codec y) = but_out (frame_codec x) \<and>
    (if can_buffer (frame_codec x) (frame_len (outgoing x w f))
     then ws_sent (y, v) = ws_sent (x, w) @ wire (outgoing x w f) \<and>
       length (out_buffer (frame_codec y)) \<le> length (out_buffer (frame_codec x)) + frame_len (outgoing x w f) \<and>
       (r = Ok () \<or> r = Err ConnectionClosed \<or> (\<exists>k. r = Err (Io k)))
     else r = Err (WriteBufferFull (RawFrame (outgoing x w f))) \<and> ws_sent (y, v) = ws_sent (x, w) \<and>
       frame_codec y = frame_codec x)"
proof -
  obtain w1 where m: "(case ctx_role x of Server \<Rightarrow> (f, w)
      | Client \<Rightarrow> (case generate_mask w of (m, w1) \<Rightarrow> (set_random_mask m f, w1))) = (outgoing x w f, w1)"
      and w1: "masks w1 = masks w" "reads w1 = reads w" "flushes w1 = flushes w" "sent w1 = sent w"
    by (cases "ctx_role x") (simp_all add: outgoing_def generate_mask_def)
  obtain r1 c w2 where b: "buffer_frame (outgoing x w f) (frame_codec x, w1) = (r1, c, w2)"
    by (metis prod.exhaust)
  have e: "r = check_connection_reset (ws_state x) r1" "y = x\<lparr>frame_codec := c\<rparr>" "v = w2"
    using assms m b by (simp_all add: ctx_buffer_frame_def)
  have same: "stream_so_far (frame_codec x, w1) = stream_so_far (frame_codec x, w)"
    by (simp add: stream_so_far_def w1)
  show ?thesis
  proof (cases "can_buffer (frame_codec x) (frame_len (outgoing x w f))")
    case True
    have "r1 = Ok () \<or> (\<exists>k. r1 = Err (Io k))" using buffer_frame_fits [OF b True] by (cases r1) auto
    then have "r = Ok () \<or> r = Err ConnectionClosed \<or> (\<exists>k. r = Err (Io k))"
    proof (elim disjE exE)
      fix k
      assume "r1 = Err (Io k)"
      then show ?thesis
        by (cases "\<not> can_read (ws_state x) \<and> k = ConnectionReset") (simp_all add: e(1) check_connection_reset_def)
    qed (simp add: e(1) check_connection_reset_def)
    then show ?thesis
      using buffer_frame_fits [OF b True] e(2,3) w1 True same
      by (auto simp: ws_sent_def dest: but_out_eq)
  next
    case False
    then have "(r1, c, w2) = (Err (WriteBufferFull (RawFrame (outgoing x w f))), frame_codec x, w1)"
      using b buffer_frame_full [OF False, of w1] by simp
    then show ?thesis using e w1 False same by (simp add: ws_sent_def check_connection_reset_def)
  qed
qed

lemma sendable_outgoing:
  "okay_frame x f \<Longrightarrow> ws_state x = Active \<or> is_control_frame f \<Longrightarrow> sendable (x, w) (outgoing x w f)"
  by (auto simp: sendable_def okay_frame_def outgoing_def set_random_mask_def header_set_random_mask_def
      is_control_frame_def split: role.split)

lemma ctx_buffer_frame_emits:
  assumes "okay_frame (fst s) f" "may_write s f"
  shows "emits s (snd (ctx_buffer_frame f s))"
proof -
  obtain x w where s: "s = (x, w)" by (rule prod.exhaust)
  obtain r y v where b: "ctx_buffer_frame f (x, w) = (r, y, v)" by (metis prod.exhaust)
  note spec = ctx_buffer_frame_spec [OF b]
  have y: "ctx_role y = ctx_role x" "ws_state y = ws_state x"
    using spec by (metis ctx.select_convs(1,3) ctx.surjective ctx.update_convs(2))+
  have snd: "sendable (x, w) (outgoing x w f)"
    using assms by (intro sendable_outgoing) (simp_all add: s may_write_def)
  show ?thesis
  proof (cases "can_buffer (frame_codec x) (frame_len (outgoing x w f))")
    case True
    then show ?thesis
      using spec y snd b by (intro emitsI [of _ s "[outgoing x w f]"]) (simp_all add: s)
  next
    case False
    then show ?thesis using spec y b by (intro emits_quiet) (simp_all add: s)
  qed
qed

lemma ctx_write_out_emits: "emits s (snd (ctx_write_out s))"
proof -
  obtain x w where s: "s = (x, w)" by (rule prod.exhaust)
  obtain r c v where b: "write_out_buffer (frame_codec x, w) = (r, c, v)" by (metis prod.exhaust)
  show ?thesis
    using write_out_buffer_spec [OF b] b
    by (intro emits_quiet) (simp_all add: s ctx_write_out_def ws_sent_def stream_so_far_def)
qed

lemma ctx_stream_flush_emits: "emits s (snd (ctx_stream_flush s))"
proof -
  obtain r w1 where f: "stream_flush (snd s) = (r, w1)" by fastforce
  then have "snd (ctx_stream_flush s) = (fst s, w1)" by (cases r) (simp_all add: ctx_stream_flush_def)
  then show ?thesis
    using stream_flush_frame [OF f] by (intro emits_quiet) (simp_all add: ws_sent_def stream_so_far_def)
qed

lemma ctx_buffer_frame_ctx:
  "ctx_buffer_frame f (x, w) = (r, y, v) \<Longrightarrow> y = x\<lparr>frame_codec := frame_codec y\<rparr>"
  using ctx_buffer_frame_spec by blast

lemma additional_send_codec: "y = x\<lparr>frame_codec := c\<rparr> \<Longrightarrow> additional_send y = additional_send x \<and>
    ctx_role y = ctx_role x \<and> ws_state y = ws_state x \<and> unflushed_additional y = unflushed_additional x"
  by simp

lemma send_additional_emits:
  assumes "reply_ok (fst s)"
  shows "emits s (snd (send_additional s)) \<and> reply_ok (fst (snd (send_additional s)))"
proof -
  obtain x w where s: "s = (x, w)" by (rule prod.exhaust)
  show ?thesis
  proof (cases "additional_send x")
    case None
    then show ?thesis using assms by (simp add: s send_additional_def emits_quiet)
  next
    case (Some msg)
    let ?x = "x\<lparr>additional_send := None\<rparr>"
    obtain r y v where b: "ctx_buffer_frame msg (?x, w) = (r, y, v)" by (metis prod.exhaust)
    note spec = ctx_buffer_frame_spec [OF b] and y = additional_send_codec [OF ctx_buffer_frame_ctx [OF b]]
    have msg: "is_control_frame msg" "okay_frame x msg"
      using assms Some by (auto simp: s reply_ok_def okay_frame_def)
    have "emits (?x, w) (y, v)"
      using ctx_buffer_frame_emits [of "(?x, w)" msg] msg b by (simp add: may_write_def okay_frame_def)
    moreover have "sendable (?x, w) = sendable (x, w)" by (rule ext) (cases "ctx_role x"; simp add: sendable_def)
    ultimately have em: "emits (x, w) (y, v)" by (simp add: emits_def ws_sent_def)
    show ?thesis
    proof (cases "can_buffer (frame_codec ?x) (frame_len (outgoing ?x w msg))")
      case True
      then have "reply_ok y" "\<And>m. r \<noteq> Err (WriteBufferFull m)" using spec y by (auto simp: reply_ok_def)
      then show ?thesis
        using Some b em by (auto simp: s send_additional_def split: outcome.split error.split)
    next
      case False
      then have r: "r = Err (WriteBufferFull (RawFrame (outgoing ?x w msg)))" using spec by simp
      have "okay_frame x (outgoing ?x w msg)" using msg by (simp add: okay_frame_def)
      then have "reply_ok (set_additional (outgoing ?x w msg) y)"
        using y msg by (simp add: reply_ok_def set_additional_def okay_frame_def)
      moreover have "emits (x, w) (set_additional (outgoing ?x w msg) y, v)"
        using em by (simp add: emits_def ws_sent_def)
      ultimately show ?thesis using Some b r by (simp add: s send_additional_def)
    qed
  qed
qed

definition emit_rel :: "('c, 'd) ws \<Rightarrow> ('c, 'd) ws \<Rightarrow> bool" where
  "emit_rel s t \<longleftrightarrow> (reply_ok (fst s) \<longrightarrow> reply_ok (fst t) \<and> emits s t)"

lemma emit_rel_trans: "emit_rel s t \<Longrightarrow> emit_rel t u \<Longrightarrow> emit_rel s u"
  by (auto simp: emit_rel_def intro: emits_trans)

lemma emit_rel_and_then:
  assumes "emit_rel s (snd p)" "\<And>a t. p = (Ok a, t) \<Longrightarrow> emit_rel s t \<Longrightarrow> emit_rel t (snd (k a t))"
  shows "emit_rel s (snd (and_then p k))"
proof -
  obtain r t where "p = (r, t)" by (rule prod.exhaust)
  then show ?thesis using assms by (cases r) (auto intro: emit_rel_trans)
qed

lemma emit_rel_quiet:
  "additional_send (fst t) = additional_send (fst s) \<Longrightarrow> ctx_role (fst t) = ctx_role (fst s) \<Longrightarrow>
   masks (snd t) = masks (snd s) \<Longrightarrow> ws_path (ws_state (fst s)) (ws_state (fst t)) \<Longrightarrow> ws_sent t = ws_sent s \<Longrightarrow>
   emit_rel s t"
  by (simp add: emit_rel_def emits_quiet reply_ok_def)

lemma ctx_write_out_emit_rel: "emit_rel s (snd (ctx_write_out s))"
proof -
  obtain r c v where b: "write_out_buffer (frame_codec (fst s), snd s) = (r, c, v)" by (metis prod.exhaust)
  then show ?thesis
    using ctx_write_out_emits [of s]
    by (cases s) (simp add: emit_rel_def ctx_write_out_def reply_ok_def)
qed

lemma ctx_buffer_frame_emit_rel:
  assumes "ctx_role (fst s) = Server \<longrightarrow> hdr_mask (header f) = None" "may_write s f"
  shows "emit_rel s (snd (ctx_buffer_frame f s))"
proof -
  obtain x w where s: "s = (x, w)" by (rule prod.exhaust)
  obtain r y v where b: "ctx_buffer_frame f (x, w) = (r, y, v)" by (metis prod.exhaust)
  show ?thesis
    using ctx_buffer_frame_emits [of s f] assms additional_send_codec [OF ctx_buffer_frame_ctx [OF b]] b
    by (simp add: s emit_rel_def okay_frame_def reply_ok_def)
qed

lemma inner_write_emit_rel:
  assumes "\<forall>f. data = Some f \<longrightarrow> hdr_mask (header f) = None \<and> may_write s f"
  shows "emit_rel s (snd (inner_write data s))"
  unfolding inner_write_def
proof (rule emit_rel_and_then)
  show "emit_rel s (snd (case data of Some f \<Rightarrow> ctx_buffer_frame f s | None \<Rightarrow> (Ok (), s)))"
    using assms ctx_buffer_frame_emit_rel [of s] by (simp add: emit_rel_quiet split: option.split)
next
  fix a t
  show "emit_rel t (snd (and_then (send_additional t) finish_write))"
  proof (rule emit_rel_and_then)
    show "emit_rel t (snd (send_additional t))" using send_additional_emits [of t] by (simp add: emit_rel_def)
  next
    fix b u
    have "emit_rel u (snd (and_then (ctx_write_out u) (\<lambda>_ (x, w). (Err ConnectionClosed, x\<lparr>ws_state := Terminated\<rparr>, w))))"
      by (rule emit_rel_and_then [OF ctx_write_out_emit_rel])
        (auto intro!: emit_rel_quiet simp: ws_path_Terminated ws_sent_def)
    then show "emit_rel u (snd (finish_write b u))"
      by (auto simp: finish_write_def emit_rel_quiet)
  qed
qed

lemma set_additional_emit_rel:
  "is_control_frame f \<Longrightarrow> hdr_mask (header f) = None \<Longrightarrow> emit_rel (x, w) (set_additional f x, w)"
  by (auto simp: emit_rel_def reply_ok_def set_additional_def ws_sent_def intro!: emits_quiet)

lemma reply_frames_unmasked [simp]:
  "hdr_mask (header (frame_close code)) = None" "hdr_mask (header (frame_pong d)) = None"
  "hdr_mask (header (frame_ping d)) = None"
  by (simp_all add: frame_close_def frame_pong_def frame_ping_def default_header_def Let_def)

lemma fetch_frame_emit_rel: "emit_rel s (snd (fetch_frame s))"
proof -
  obtain x w where s: "s = (x, w)" by (rule prod.exhaust)
  obtain r c v where f: "read_frame (max_frame_size (cfg x)) (ctx_role x = Server)
      (accept_unmasked_frames (cfg x)) (frame_codec x, w) = (r, c, v)" by (metis prod.exhaust)
  have "out_same (frame_codec x, w) (c, v)" using read_frame_out [of "(frame_codec x, w)"] f by (metis snd_conv)
  then have c: "out_buffer c = out_buffer (frame_codec x)" "sent v = sent w" "masks v = masks w"
    by (simp_all add: out_same_def)
  have st: "state_rel (x, w) (snd (fetch_frame s))" using fetch_frame_state_rel [of s] s by simp
  have "additional_send (fst (snd (fetch_frame s))) = additional_send x"
    "frame_codec (fst (snd (fetch_frame s))) = c" "snd (snd (fetch_frame s)) = v"
    using f by (simp_all add: s fetch_frame_def Let_def split: outcome.split option.split)
  then show ?thesis
    using st c by (intro emit_rel_quiet) (simp_all add: s state_rel_def ws_sent_def stream_so_far_def)
qed

text \<open>Handling a frame only ever queues a pong or a close frame.\<close>

definition keeps_reply :: "('c, 'd) ctx \<Rightarrow> ('c, 'd) ctx \<Rightarrow> bool" where
  "keeps_reply x y \<longleftrightarrow> ctx_role y = ctx_role x \<and> (reply_ok x \<longrightarrow> reply_ok y)"

lemma keeps_reply_and_then:
  assumes "keeps_reply x (snd p)" "\<And>a y. p = (Ok a, y) \<Longrightarrow> keeps_reply y (snd (k a y))"
  shows "keeps_reply x (snd (and_then p k))"
proof -
  obtain r t where "p = (r, t)" by (rule prod.exhaust)
  then show ?thesis using assms by (cases r) (auto simp: keeps_reply_def)
qed

lemma keeps_reply_same [simp]:
  "ctx_role y = ctx_role x \<Longrightarrow> additional_send y = additional_send x \<Longrightarrow> keeps_reply x y"
  by (simp add: keeps_reply_def reply_ok_def)

lemma keeps_reply_set [simp]:
  "is_control_frame f \<Longrightarrow> hdr_mask (header f) = None \<Longrightarrow> ctx_role y = ctx_role x \<Longrightarrow>
   additional_send y = additional_send x \<Longrightarrow> keeps_reply x (set_additional f y)"
  by (auto simp: keeps_reply_def reply_ok_def set_additional_def)

lemma fail_discarded_simps [simp]:
  "ctx_role (fail_compression_on_discarded_frame f x) = ctx_role x"
  "additional_send (fail_compression_on_discarded_frame f x) = additional_send x"
  "incomplete_msg (fail_compression_on_discarded_frame f x) = incomplete_msg x"
  "cfg (fail_compression_on_discarded_frame f x) = cfg x"
  by (simp_all add: fail_compression_on_discarded_frame_def Let_def)

lemma check_frame_keeps: "keeps_reply x (snd (check_frame f x))"
  by (simp add: check_frame_def)

lemma ctx_decompress_keeps: "keeps_reply x (snd (ctx_decompress fl d fin x))"
  by (auto simp: ctx_decompress_def Let_def split: option.split prod.split outcome.split)

lemma inflate_frame_keeps: "keeps_reply x (snd (inflate_frame fl f x))"
proof -
  have "keeps_reply x (snd (inflate_payload fl f x))"
    unfolding inflate_payload_def by (rule keeps_reply_and_then [OF ctx_decompress_keeps]) simp
  then show ?thesis
    by (auto simp: inflate_frame_def Let_def remember_compressed_def split: opcode.split intro!: keeps_reply_and_then)
qed

lemma handle_control_keeps: "keeps_reply x (snd (handle_control f ctl x))"
proof -
  have "keeps_reply y (snd (do_close c y))" for c and y :: "('a, 'b) ctx"
    by (simp add: do_close_def Let_def split: ws_state.split)
  then show ?thesis
    by (auto simp: handle_control_def split: control_op.split intro!: keeps_reply_and_then)
qed

lemma handle_data_keeps: "keeps_reply x (snd (handle_data f d x))"
  unfolding handle_data_def
  by (rule keeps_reply_and_then)
    (auto simp: collect_data_def deliver_data_def split: data_op.split option.split prod.split outcome.split bool.split)

lemma handle_frame_emit_rel: "emit_rel (x, w) (snd (handle_frame fl f x), w)"
proof -
  have "keeps_reply x (snd (handle_frame fl f x))"
    unfolding handle_frame_def
    by (auto intro!: keeps_reply_and_then check_frame_keeps inflate_frame_keeps
        split: opcode.split simp: handle_control_keeps handle_data_keeps)
  moreover have "state_rel (x, w) (snd (handle_frame fl f x), w)" by (rule handle_frame_state_rel)
  ultimately show ?thesis
    by (auto simp: emit_rel_def keeps_reply_def state_rel_def ws_sent_def intro!: emits_quiet)
qed

lemma prepare_data_unmasked: "fst (prepare_data fl d opc x) = Ok f \<Longrightarrow> hdr_mask (header f) = None"
  by (auto simp: prepare_data_def data_frame_def frame_message_def default_header_def Let_def
      split: option.splits prod.splits outcome.splits if_splits)

interpretation em: engine_relation fl "\<lambda>f. hdr_mask (header f) = None" emit_rel for fl
proof unfold_locales
  show "emit_rel s u" if "emit_rel s t" "emit_rel t u" for s t u :: "('a, 'b) ws"
    using that by (rule emit_rel_trans)
  show "emit_rel s (snd (ctx_stream_flush s))" for s :: "('a, 'b) ws"
  proof -
    obtain r w1 where "stream_flush (snd s) = (r, w1)" by fastforce
    then show ?thesis
      using ctx_stream_flush_emits [of s] by (cases r) (simp_all add: emit_rel_def ctx_stream_flush_def)
  qed
  show "emit_rel (x, w) (x\<lparr>ws_state := ClosedByUs\<rparr>, w)" if "ws_state x = Active" for x :: "('a, 'b) ctx" and w
    using that by (auto intro!: emit_rel_quiet r_into_rtranclp we_close simp: ws_sent_def)
  show "emit_rel (x, w) (snd (prepare_data fl d opc x), w)" for fl d opc and x :: "('a, 'b) ctx" and w
    by (rule emit_rel_quiet) (simp_all add: prepare_data_simps ws_sent_def)
  show "hdr_mask (header f) = None" if "fst (prepare_data fl d opc x) = Ok f" for fl d opc f and x :: "('a, 'b) ctx"
    using that by (rule prepare_data_unmasked)
qed (auto intro: emit_rel_quiet inner_write_emit_rel fetch_frame_emit_rel handle_frame_emit_rel
    ctx_write_out_emit_rel set_additional_emit_rel simp: ws_path_Terminated ws_sent_def)

end
