(* ===== verification/WebSocket_Sending.thy ===== *)
theory WebSocket_Sending
  imports WebSocket_State
begin

text \<open>
  What a WebSocket puts on the wire, over all reachable connections: masked or unmasked
  frames as the role demands, nothing but control frames once the closing handshake has
  begun, and never more bytes waiting than the write buffer may hold.
\<close>

section \<open>The queued reply and the write buffer\<close>

definition reply_rel :: "('c, 'd) ws \<Rightarrow> ('c, 'd) ws \<Rightarrow> bool" where
  "reply_rel s t \<longleftrightarrow> ctx_role (fst t) = ctx_role (fst s) \<and> (reply_ok (fst s) \<longrightarrow> reply_ok (fst t))"

text \<open>What waits stays within any bound that is at least the limit.\<close>

definition bound_rel :: "('c, 'd) ws \<Rightarrow> ('c, 'd) ws \<Rightarrow> bool" where
  "bound_rel s t \<longleftrightarrow>
     max_out_buffer_len (frame_codec (fst t)) = max_out_buffer_len (frame_codec (fst s)) \<and>
     (max_out_buffer_len (frame_codec (fst s)) < usize_max \<longrightarrow>
      length (out_buffer (frame_codec (fst t)))
        \<le> max (length (out_buffer (frame_codec (fst s)))) (max_out_buffer_len (frame_codec (fst s))))"

text \<open>Both are kept by the pieces of \<open>_write\<close>.\<close>

definition both_rel :: "('c, 'd) ws \<Rightarrow> ('c, 'd) ws \<Rightarrow> bool" where
  "both_rel s t \<longleftrightarrow> reply_rel s t \<and> bound_rel s t"

lemma both_rel_trans: "both_rel s t \<Longrightarrow> both_rel t u \<Longrightarrow> both_rel s u"
  by (auto simp: both_rel_def reply_rel_def bound_rel_def)

lemma both_rel_same:
  "additional_send (fst t) = additional_send (fst s) \<Longrightarrow> ctx_role (fst t) = ctx_role (fst s) \<Longrightarrow>
   max_out_buffer_len (frame_codec (fst t)) = max_out_buffer_len (frame_codec (fst s)) \<Longrightarrow>
   out_buffer (frame_codec (fst t)) = out_buffer (frame_codec (fst s)) \<Longrightarrow> both_rel s t"
  by (simp add: both_rel_def reply_rel_def bound_rel_def reply_ok_def)

lemma both_rel_and_then:
  assumes "both_rel s (snd p)" "\<And>a t. p = (Ok a, t) \<Longrightarrow> both_rel t (snd (k a t))"
  shows "both_rel s (snd (and_then p k))"
proof -
  obtain r t where "p = (r, t)" by (rule prod.exhaust)
  then show ?thesis using assms by (cases r) (auto intro: both_rel_trans)
qed

lemma ctx_buffer_frame_bound:
  assumes "ctx_buffer_frame f (x, w) = (r, y, v)"
  shows "bound_rel (x, w) (y, v)"
proof -
  note spec = ctx_buffer_frame_spec [OF assms]
  have m: "max_out_buffer_len (frame_codec y) = max_out_buffer_len (frame_codec x)"
    using spec by (blast dest: but_outD)
  show ?thesis
  proof (cases "can_buffer (frame_codec x) (frame_len (outgoing x w f))")
    case True
    then show ?thesis
      using spec m can_buffer_length [OF True] by (auto simp: bound_rel_def)
  next
    case False
    then show ?thesis using spec by (simp add: bound_rel_def)
  qed
qed

lemma ctx_buffer_frame_both: "both_rel s (snd (ctx_buffer_frame f s))"
proof -
  obtain x w where s: "s = (x, w)" by (rule prod.exhaust)
  obtain r y v where b: "ctx_buffer_frame f (x, w) = (r, y, v)" by (metis prod.exhaust)
  show ?thesis
    using ctx_buffer_frame_bound [OF b] additional_send_codec [OF ctx_buffer_frame_ctx [OF b]] b
    by (simp add: s both_rel_def reply_rel_def reply_ok_def)
qed

lemma ctx_write_out_both: "both_rel s (snd (ctx_write_out s))"
proof -
  obtain x w where s: "s = (x, w)" by (rule prod.exhaust)
  obtain r c v where b: "write_out_buffer (frame_codec x, w) = (r, c, v)" by (metis prod.exhaust)
  have "length (out_buffer c) \<le> length (out_buffer (frame_codec x))" "but_out c = but_out (frame_codec x)"
    using write_out_buffer_spec [OF b] by (auto dest: but_out_eq)
  then show ?thesis
    using b but_outD(4) [of c "frame_codec x"]
    by (simp add: s ctx_write_out_def both_rel_def reply_rel_def bound_rel_def reply_ok_def le_max_iff_disj)
qed

lemma send_additional_both: "both_rel s (snd (send_additional s))"
proof -
  obtain x w where s: "s = (x, w)" by (rule prod.exhaust)
  have "bound_rel s (snd (send_additional s))"
  proof (cases "additional_send x")
    case None
    then show ?thesis by (simp add: s send_additional_def bound_rel_def)
  next
    case (Some msg)
    obtain r y v where b: "ctx_buffer_frame msg (x\<lparr>additional_send := None\<rparr>, w) = (r, y, v)"
      by (metis prod.exhaust)
    have "frame_codec (fst (snd (send_additional s))) = frame_codec y"
      using Some b by (auto simp: s send_additional_def split: outcome.split error.split message.split)
    then show ?thesis using ctx_buffer_frame_bound [OF b] by (simp add: s bound_rel_def)
  qed
  moreover have "ctx_role (fst (snd (send_additional s))) = ctx_role x"
    using send_additional_writes_only [of s] by (simp add: writes_only_def s)
  ultimately show ?thesis
    using send_additional_emits [of s] by (simp add: both_rel_def reply_rel_def s)
qed

lemma inner_write_both: "both_rel s (snd (inner_write data s))"
  unfolding inner_write_def
proof (rule both_rel_and_then)
  show "both_rel s (snd (case data of Some f \<Rightarrow> ctx_buffer_frame f s | None \<Rightarrow> (Ok (), s)))"
    by (simp add: ctx_buffer_frame_both both_rel_same split: option.split)
next
  fix a and t :: "('a, 'b) ws"
  show "both_rel t (snd (and_then (send_additional t) finish_write))"
  proof (rule both_rel_and_then [OF send_additional_both])
    fix b and u :: "('a, 'b) ws"
    have "both_rel u (snd (and_then (ctx_write_out u) (\<lambda>_ (x, w). (Err ConnectionClosed, x\<lparr>ws_state := Terminated\<rparr>, w))))"
      by (rule both_rel_and_then [OF ctx_write_out_both]) (auto intro: both_rel_same)
    then show "both_rel u (snd (finish_write b u))" by (auto simp: finish_write_def both_rel_same)
  qed
qed

lemma fetch_frame_both: "both_rel s (snd (fetch_frame s))"
proof -
  obtain x w where s: "s = (x, w)" by (rule prod.exhaust)
  obtain r c v where f: "read_frame (max_frame_size (cfg x)) (ctx_role x = Server)
      (accept_unmasked_frames (cfg x)) (frame_codec x, w) = (r, c, v)" by (metis prod.exhaust)
  have "out_same (frame_codec x, w) (c, v)" using read_frame_out [of "(frame_codec x, w)"] f by (metis snd_conv)
  then show ?thesis
    using f by (auto simp: s fetch_frame_def Let_def out_same_def split: outcome.split option.split intro!: both_rel_same)
qed

lemma handle_frame_both: "both_rel (x, w) (snd (handle_frame fl f x), w)"
proof -
  have k: "keeps_reply x (snd (handle_frame fl f x))"
    unfolding handle_frame_def
    by (auto intro!: keeps_reply_and_then check_frame_keeps inflate_frame_keeps
        split: opcode.split simp: handle_control_keeps handle_data_keeps)
  then show ?thesis by (simp add: both_rel_def keeps_reply_def reply_rel_def bound_rel_def)
qed

interpretation bd: engine_relation fl "\<lambda>_. True" both_rel for fl
proof unfold_locales
  show "both_rel s u" if "both_rel s t" "both_rel t u" for s t u :: "('a, 'b) ws"
    using that by (rule both_rel_trans)
  show "both_rel s (snd (ctx_stream_flush s))" for s :: "('a, 'b) ws"
  proof -
    obtain r w1 where "stream_flush (snd s) = (r, w1)" by fastforce
    then show ?thesis by (cases r) (simp_all add: ctx_stream_flush_def both_rel_same)
  qed
  show "both_rel (x, w) (snd (prepare_data fl d opc x), w)" for fl d opc and x :: "('a, 'b) ctx" and w
    by (rule both_rel_same) (simp_all add: prepare_data_simps)
  show "both_rel (x, w) (set_additional (frame_pong d) x, w)" for d and x :: "('a, 'b) ctx" and w
    by (auto simp: both_rel_def reply_rel_def bound_rel_def reply_ok_def set_additional_def)
qed (auto intro: both_rel_same inner_write_both fetch_frame_both handle_frame_both ctx_write_out_both)

lemma run_op_both: "both_rel s (snd (run_op fl opn s))"
  by (rule bd.rel_run_op) (simp add: raw_ok_def split: ws_op.split message.split)

lemma reachable_inv:
  "reachable fl r C s \<Longrightarrow> ctx_role (fst s) = r \<and> reply_ok (fst s) \<and> cfg (fst s) \<in> C \<and>
     max_out_buffer_len (frame_codec (fst s)) = max_write_buffer_size (cfg (fst s)) \<and>
     (\<forall>b < usize_max. (\<forall>c \<in> C. max_write_buffer_size c \<le> b) \<longrightarrow> length (out_buffer (frame_codec (fst s))) \<le> b)"
proof (induction rule: reachable.induct)
  case (start c fc x w)
  then show ?case
    by (auto simp: ctx_create_def bind_out_Ok_iff reply_ok_def set_out_buffer_write_len_def
        set_max_out_buffer_len_def split: if_splits)
next
  case (step s opn res t)
  have "both_rel s t" "cfg (fst t) = cfg (fst s)"
    using run_op_both [of s fl opn] run_op_cfg [of fl opn s] step.hyps(2) by simp_all
  then show ?case using step.IH by (fastforce simp: both_rel_def reply_rel_def bound_rel_def)
qed (auto simp: set_config_Ok_iff reply_ok_def)

section \<open>Properties\<close>

text \<open>
  Claim C4. What an operation puts on the wire are whole frames behind everything sent
  before: by a client every one of them masked with a mask of the random generator, by a
  server every one unmasked (when the application hands over no ready-masked frame), and
  only control frames once the closing handshake has begun.
\<close>

theorem frames_on_the_wire:
  assumes "reachable fl r C s" "raw_ok (\<lambda>f. hdr_mask (header f) = None) opn"
  shows "case run_op fl opn s of (res, t) \<Rightarrow>
    \<exists>fs. sent (snd t) @ out_buffer (frame_codec (fst t)) =
        (sent (snd s) @ out_buffer (frame_codec (fst s))) @ concat (map wire fs) \<and>
      (\<forall>f \<in> set fs.
         (case r of
            Client \<Rightarrow> (\<exists>k. hdr_mask (header f) = Some (masks (snd s) k))
          | Server \<Rightarrow> hdr_mask (header f) = None) \<and>
         (ws_state (fst s) = Active \<or> is_control_frame f))"
proof -
  obtain res t where t: "run_op fl opn s = (res, t)" by (rule prod.exhaust)
  note inv = reachable_inv [OF assms(1)]
  have "emits s t" using em.rel_run_op [OF assms(2), of s fl] inv t by (simp add: emit_rel_def)
  then obtain fs where "ws_sent t = ws_sent s @ concat (map wire fs)" "list_all (sendable s) fs"
    by (auto simp: emits_def)
  then show ?thesis
    using inv t by (auto simp: ws_sent_def stream_so_far_def sendable_def list_all_iff intro!: exI [of _ fs])
qed

lemma sample_reachable: "reachable copying r {deflate_config} (sample_ctx r input, w)"
  by (rule reachable.start [OF singletonI sample_ctx_created]) (simp add: codec_new_def)

theorem frames_on_the_wire_witness:
  "reachable copying Client {deflate_config} (sample_ctx Client [], idle_world) \<and>
   (case run_op copying (OpWrite (Ping [1])) (sample_ctx Client [], idle_world) of (res, t) \<Rightarrow>
      \<exists>fs. sent (snd t) @ out_buffer (frame_codec (fst t)) = concat (map wire fs) \<and>
        (\<forall>f \<in> set fs. hdr_mask (header f) \<noteq> None))"
proof -
  have empty: "sent (snd (sample_ctx Client [], idle_world)) = []"
    "out_buffer (frame_codec (fst (sample_ctx Client [], idle_world))) = []"
    by (simp_all add: idle_world_def sample_ctx_def codec_new_def)
  obtain res t where t: "run_op copying (OpWrite (Ping [1])) (sample_ctx Client [], idle_world) = (res, t)"
    by (rule prod.exhaust)
  have "raw_ok (\<lambda>f. hdr_mask (header f) = None) (OpWrite (Ping [1]))" by (simp add: raw_ok_def)
  from frames_on_the_wire [OF sample_reachable [of Client "[]" idle_world] this]
  obtain fs where fs: "sent (snd t) @ out_buffer (frame_codec (fst t)) = concat (map wire fs)"
    "\<forall>f \<in> set fs. \<exists>k. hdr_mask (header f) = Some (masks (snd (sample_ctx Client [], idle_world)) k)"
    unfolding t empty by (auto simp: Ball_def)
  have "\<forall>f \<in> set fs. hdr_mask (header f) \<noteq> None" using fs(2) by (metis option.distinct(1))
  with fs(1) sample_reachable show ?thesis unfolding t by auto
qed

text \<open>
  Claim C30. The write buffer respects its limit: whatever is written and however the stream
  fails, the bytes waiting in a reachable connection never exceed the largest
  \<open>max_write_buffer_size\<close> that the connection has been given.
\<close>

theorem write_buffer_bounded:
  assumes "reachable fl r C s" "\<forall>c \<in> C. max_write_buffer_size c \<le> b" "b < usize_max"
  shows "length (out_buffer (frame_codec (fst s))) \<le> b"
  using reachable_inv [OF assms(1)] assms(2,3) by blast

definition small_config :: config where
  "small_config = default_config\<lparr>write_buffer_size := 0, max_write_buffer_size := 20\<rparr>"

definition small_ctx :: "role \<Rightarrow> bytes \<Rightarrow> bytes \<Rightarrow> (unit, unit) ctx" where
  "small_ctx r input waiting = \<lparr>ctx_role = r,
     frame_codec = (codec_new 16)\<lparr>in_buffer := input, out_buffer := waiting, max_out_buffer_len := 20, out_buffer_write_len := 0\<rparr>,
     ws_state = Active, incomplete_msg = None, additional_send = None, unflushed_additional = False,
     cfg = small_config, deflate = None, compressed_incomplete = False, compression_unusable = False\<rparr>"

lemma small_ctx_created:
  "ctx_create copying r ((codec_new 16)\<lparr>in_buffer := input\<rparr>) small_config = Ok (small_ctx r input [])"
  by (simp add: ctx_create_def small_config_def default_config_def config_valid_def small_ctx_def
      set_out_buffer_write_len_def set_max_out_buffer_len_def codec_new_def)

lemma small_reachable: "reachable copying r {small_config} (small_ctx r input [], w)"
  by (rule reachable.start [OF singletonI small_ctx_created]) (simp add: codec_new_def)

text \<open>The limit is lowered while bytes wait.\<close>

definition smaller_config :: "config \<Rightarrow> config" where
  "smaller_config c = c\<lparr>max_write_buffer_size := 1\<rparr>"

lemma smaller_reachable:
  assumes "reachable copying r {small_config, smaller_config small_config} (x, w)" "cfg x = small_config"
  shows "reachable copying r {small_config, smaller_config small_config} (reconfigured (smaller_config small_config) x, w)"
  by (rule reachable.configure [OF assms(1), where f = smaller_config])
    (simp_all add: set_config_Ok_iff assms(2) smaller_config_def small_config_def default_config_def config_valid_def)

theorem write_buffer_bounded_witness:
  "\<exists>x w. snd (run_op copying (OpWrite (Binary [1, 2])) (small_ctx Server [] [], idle_world)) = (x, w) \<and>
     reachable copying Server {small_config, smaller_config small_config} (reconfigured (smaller_config small_config) x, w) \<and>
     length (out_buffer (frame_codec (reconfigured (smaller_config small_config) x))) \<le> 20"
proof -
  let ?C = "{small_config, smaller_config small_config}"
  obtain res x w where t: "run_op copying (OpWrite (Binary [1, 2])) (small_ctx Server [] [], idle_world) = (res, x, w)"
    by (metis prod.exhaust)
  have "reachable copying Server ?C (small_ctx Server [] [], idle_world)"
    by (rule reachable.start [OF insertI1 small_ctx_created]) (simp add: codec_new_def)
  then have "reachable copying Server ?C (x, w)" using t by (rule reachable.step)
  moreover have "cfg x = small_config"
    using run_op_cfg [of copying "OpWrite (Binary [1, 2])" "(small_ctx Server [] [], idle_world)"] t by (simp add: small_ctx_def)
  ultimately have r: "reachable copying Server ?C (reconfigured (smaller_config small_config) x, w)" by (rule smaller_reachable)
  have "length (out_buffer (frame_codec (fst (reconfigured (smaller_config small_config) x, w)))) \<le> 20"
    by (rule write_buffer_bounded [OF r]) (simp_all add: small_config_def smaller_config_def usize_max_eq)
  with r t show ?thesis by auto
qed

end
