(* ===== verification/WebSocket_Reading.thy ===== *)
theory WebSocket_Reading
  imports WebSocket_Sending
begin

text \<open>
  What \<open>read\<close> delivers: where a message comes from, that it respects the limits of the
  configuration and its own encoding, and how fragments and interleaved control frames are
  put together.
\<close>

section \<open>Where a message comes from\<close>

text \<open>
  A message that \<open>read\<close> returns was delivered by \<open>handle_frame\<close> on the last frame it took
  from the codec, in a context related to the one \<open>read\<close> started with.
\<close>

context engine_relation
begin

lemma read_messages_from_frame:
  "fl' = fl \<Longrightarrow> read_messages fl' s = (Ok msg, t) \<Longrightarrow>
     \<exists>f x y w. rel s (x, w) \<and> handle_frame fl f x = (Ok (Some msg), y) \<and> t = (y, w)"
proof (induction fl' s rule: read_messages.induct)
  case (1 fl' s)
  obtain r s1 where b: "before_read s = (r, s1)" by (cases "before_read s")
  have s1: "rel s s1" using rel_before_read [of s] b by simp
  obtain u where u: "r = Ok u"
    using "1.prems"(2) b by (cases r) (simp_all add: read_messages.simps [of fl' s])
  obtain r2 s2 where m: "read_message_frame fl' s1 = (r2, s2)" by (cases "read_message_frame fl' s1")
  have s2: "rel s s2" using rel_trans [OF s1] rel_read_message_frame [of s1] m "1.prems"(1) by simp
  show ?case
  proof (cases "r2 = Ok None")
    case True
    have "read_messages fl' s2 = (Ok msg, t)"
      using "1.prems"(2) b u m True by (simp add: read_messages.simps [of fl' s])
    from "1.IH" [OF b [symmetric] u m [symmetric] True refl "1.prems"(1) this] rel_trans [OF s2]
    show ?thesis by blast
  next
    case False
    then have r2: "r2 = Ok (Some msg)" "s2 = t"
      using "1.prems"(2) b u m
      by (cases r2; auto simp: read_messages.simps [of fl' s] split: option.splits)+
    obtain f x w where f: "fetch_frame s1 = (Ok f, x, w)"
      using m r2(1) by (cases "fetch_frame s1"; cases "fst (fetch_frame s1)") (auto simp: read_message_frame_def)
    have "rel s (x, w)" using rel_trans [OF s1 rel_fetch [of s1]] f by simp
    moreover have "\<exists>y. handle_frame fl f x = (Ok (Some msg), y) \<and> t = (y, w)"
      using m r2 f "1.prems"(1) by (auto simp: read_message_frame_def split: prod.splits)
    ultimately show ?thesis by blast
  qed
qed

lemma read_from_frame:
  "ctx_read fl s = (Ok msg, t) \<Longrightarrow>
     \<exists>f x y w. rel s (x, w) \<and> handle_frame fl f x = (Ok (Some msg), y) \<and> t = (y, w)"
  by (rule read_messages_from_frame [OF refl]) (simp add: ctx_read_def split: if_splits)

end

section \<open>A collector after a refused fragment\<close>

lemma incomplete_new_no_Err: "incomplete_new bs \<noteq> Err e"
  by (simp add: incomplete_new_def)

lemma sc_extend_rest_inv:
  assumes "sc_inv c" "sc_incomplete c = None" "sc_extend_rest c input = (r, c')"
  shows "sc_inv c' \<and> length (sc_contents c') \<le> length (sc_contents c) + length input"
proof (cases "\<exists>e. r = Err e")
  case True
  then obtain e where e: "r = Err e" by blast
  then obtain v bad rest where d: "decode input = (Err (DecodeInvalid v bad rest) :: (decode_error, bytes) outcome)"
      and c': "c' = c\<lparr>sc_data := sc_data c @ v\<rparr>"
    using assms(3) by (auto simp: sc_extend_rest_def split: if_splits outcome.splits decode_error.splits)
  obtain n k where i: "from_utf8 input = Invalid n (Some k)" "v = take n input"
    using d by (auto simp: decode_def Let_def bind_out_Err_iff incomplete_new_no_Err split: utf8_check.splits option.splits)
  have "valid_utf8 v" using from_utf8_InvalidD [OF i(1)] i(2) by simp
  then show ?thesis
    using assms(1,2) c' i(2) by (auto simp: sc_inv_def sc_contents_def valid_utf8_append)
next
  case False
  then show ?thesis
    using sc_extend_rest_spec [OF assms(1,2), of input] assms(3) by (cases r) auto
qed

lemma sc_extend_inv:
  assumes inv: "sc_inv c" and e: "sc_extend c input = (r, c')"
  shows "sc_inv c' \<and> length (sc_contents c') \<le> length (sc_contents c) + length input"
proof (cases "sc_incomplete c")
  case None
  then show ?thesis using sc_extend_rest_inv [OF inv None] e by (simp add: sc_extend_def)
next
  case (Some i)
  have v: "valid_utf8 (sc_data c)" and i: "incomplete_inv i" and cont: "sc_contents c = sc_data c @ pending i"
    using inv Some by (simp_all add: sc_inv_def sc_contents_def)
  have dropped: "sc_inv (c\<lparr>sc_incomplete := None\<rparr>) \<and> sc_contents (c\<lparr>sc_incomplete := None\<rparr>) = sc_data c"
    using v by (simp add: sc_inv_def sc_contents_def)
  note spec = try_complete_spec [OF i, of input, where ?'e = error]
  obtain r1 i' where t: "(try_complete i input :: completed option result \<times> incomplete) = (r1, i')" by fastforce
  show ?thesis
  proof (cases "\<exists>d good. r1 = Ok (Some d) \<and> cresult d = Inr good")
    case True
    then obtain d good where d: "r1 = Ok (Some d)" "cresult d = Inr good" by blast
    then have g: "valid_utf8 good" "good @ cremaining d = pending i @ input" using spec t by simp_all
    let ?c = "c\<lparr>sc_incomplete := None, sc_data := sc_data c @ good\<rparr>"
    have "sc_inv ?c" "sc_incomplete ?c = None" "sc_contents ?c = sc_data c @ good"
      using v g(1) by (simp_all add: sc_inv_def sc_contents_def valid_utf8_append)
    moreover have "sc_extend_rest ?c (cremaining d) = (r, c')" using e t d Some by (simp add: sc_extend_def)
    moreover have "length good + length (cremaining d) = length (pending i) + length input"
      using g(2) by (metis length_append)
    ultimately show ?thesis
      using sc_extend_rest_inv [of ?c "cremaining d" r c'] by (simp add: cont)
  next
    case False
    then show ?thesis
      using e t Some dropped spec sc_extend_spec [OF inv, of input]
      by (auto simp: sc_extend_def cont sc_extend_rest_def split: outcome.splits option.splits sum.splits)
  qed
qed

lemma im_extend_inv:
  assumes "im_inv is_txt lim m" "limit_ok lim" "im_extend m tail lim = (r, m')"
  shows "im_inv is_txt lim m'"
proof (cases "im_collector m")
  case (BinaryCollector v)
  then show ?thesis
    using im_extend_spec [of is_txt lim m tail] assms
    by (auto simp: limit_ok_def im_extend_def Let_def im_inv_def im_is_text_def im_contents_def
        im_max_def [symmetric] im_len_def split: if_splits)
next
  case (TextCollector t)
  have t: "sc_inv t" "is_txt" "length (sc_contents t) \<le> im_max lim"
    using assms(1) TextCollector by (auto simp: im_inv_def im_is_text_def im_contents_def)
  have l: "im_len m = length (sc_contents t)"
    using t assms(2) TextCollector by (simp add: im_len_def sc_len_le limit_ok_def)
  obtain r1 t' where e: "sc_extend t tail = (r1, t')" by fastforce
  show ?thesis
    using assms(1,3) t sc_extend_inv [OF t(1) e] TextCollector e
    by (auto simp: im_extend_def Let_def im_inv_def im_is_text_def im_contents_def
        im_max_def [symmetric] l split: if_splits)
qed

section \<open>What a delivered message satisfies\<close>

definition assembling_ok :: "('c, 'd) ctx \<Rightarrow> bool" where
  "assembling_ok x \<longleftrightarrow> limit_ok (max_message_size (cfg x)) \<longrightarrow>
     (\<forall>m. incomplete_msg x = Some m \<longrightarrow> im_inv (im_is_text m) (max_message_size (cfg x)) m)"

definition assembling_rel :: "('c, 'd) ws \<Rightarrow> ('c, 'd) ws \<Rightarrow> bool" where
  "assembling_rel s t \<longleftrightarrow> cfg (fst t) = cfg (fst s) \<and> (assembling_ok (fst s) \<longrightarrow> assembling_ok (fst t))"

lemma assembling_same:
  "cfg (fst t) = cfg (fst s) \<Longrightarrow> incomplete_msg (fst t) = incomplete_msg (fst s) \<Longrightarrow> assembling_rel s t"
  by (simp add: assembling_rel_def assembling_ok_def)

text \<open>Only \<open>handle_data\<close> touches the message under assembly.\<close>

definition assembly :: "('c, 'd) ctx \<Rightarrow> incomplete_message option \<times> config" where
  "assembly x = (incomplete_msg x, cfg x)"

lemma check_frame_assembly [simp]: "assembly (snd (check_frame f x)) = assembly x"
  by (simp add: check_frame_def assembly_def)

lemma ctx_decompress_assembly [simp]: "assembly (snd (ctx_decompress fl d fin x)) = assembly x"
  by (auto simp: ctx_decompress_def assembly_def Let_def split: option.split prod.split outcome.split)

lemma inflate_payload_assembly [simp]: "assembly (snd (inflate_payload fl f x)) = assembly x"
  unfolding inflate_payload_def by (intro and_then_keeps) auto

lemma inflate_frame_assembly [simp]: "assembly (snd (inflate_frame fl f x)) = assembly x"
proof -
  have "assembly (remember_compressed d fin c y) = assembly y"
    "assembly (fail_compression_on_discarded_frame f y) = assembly y" for d fin c f and y :: "('a, 'b) ctx"
    by (simp_all add: assembly_def remember_compressed_def)
  then show ?thesis by (auto simp: inflate_frame_def Let_def split: opcode.split intro!: and_then_keeps)
qed

lemma do_close_assembly [simp]: "assembly (snd (do_close c x)) = assembly x"
  by (simp add: do_close_def assembly_def Let_def split: ws_state.split)

lemma set_additional_assembly [simp]: "assembly (set_additional f x) = assembly x"
  by (simp add: assembly_def)

lemma handle_control_assembly [simp]: "assembly (snd (handle_control f ctl x)) = assembly x"
  by (auto simp: handle_control_def split: control_op.split intro!: and_then_keeps)

lemma collect_data_assembling:
  assumes "collect_data f data x = (r, y)"
  shows "cfg y = cfg x \<and> (assembling_ok x \<longrightarrow> assembling_ok y)"
proof (cases "\<exists>m. data = Continue \<and> incomplete_msg x = Some m")
  case True
  then obtain m where m: "data = Continue" "incomplete_msg x = Some m" by blast
  obtain r1 m1 where e: "im_extend m (payload f) (max_message_size (cfg x)) = (r1, m1)" by fastforce
  then have y: "y = x\<lparr>incomplete_msg := Some m1\<rparr>" using assms m by (simp add: collect_data_def)
  have "assembling_ok y" if "assembling_ok x"
  proof -
    have "im_inv (im_is_text m1) (max_message_size (cfg x)) m1" if l: "limit_ok (max_message_size (cfg x))"
      using im_extend_inv [OF _ l e, of "im_is_text m"] \<open>assembling_ok x\<close> m l
      by (auto simp: assembling_ok_def im_inv_def)
    then show ?thesis by (simp add: y assembling_ok_def)
  qed
  then show ?thesis by (simp add: y)
next
  case False
  then have "y = x" using assms by (auto simp: collect_data_def split: data_op.splits option.splits)
  then show ?thesis by simp
qed

lemma deliver_data_assembling:
  assumes "deliver_data p fin x = (r, y)"
  shows "cfg y = cfg x \<and> (assembling_ok x \<longrightarrow> assembling_ok y)"
proof (cases "\<exists>data t. p = Some (data, t) \<and> \<not> fin")
  case True
  then obtain data t where p: "p = Some (data, t)" "\<not> fin" by blast
  obtain r1 m where e: "im_extend (im_new t) data (max_message_size (cfg x)) = (r1, m)" by fastforce
  have new: "im_inv (t = MessageText) (max_message_size (cfg x)) (im_new t)"
    using im_new_inv(1,2) by (cases t) simp_all
  have "im_inv (im_is_text m) (max_message_size (cfg x)) m" if l: "limit_ok (max_message_size (cfg x))"
    using im_extend_inv [OF new l e] by (auto simp: im_inv_def)
  then show ?thesis
    using assms p e by (cases r1) (auto simp: deliver_data_def assembling_ok_def)
next
  case False
  then show ?thesis
    using assms by (auto simp: deliver_data_def assembling_ok_def split: option.splits bool.splits)
qed

text \<open>So what collecting and delivering keep of it, handling a frame keeps.\<close>

lemma handle_frame_keeps_assembly:
  assumes same: "\<And>x y. assembly y = assembly x \<Longrightarrow> R x y"
    and trans: "\<And>x y z. R x y \<Longrightarrow> R y z \<Longrightarrow> R x z"
    and collect: "\<And>f d x. R x (snd (collect_data f d x))"
    and deliver: "\<And>p fin x. R x (snd (deliver_data p fin x))"
  shows "R x (snd (handle_frame fl f x))"
proof -
  have seq: "R x (snd (and_then p k))" if "R x (snd p)" "\<And>a y. R y (snd (k a y))"
    for x and p :: "(error, 'p) outcome \<times> ('a, 'b) ctx" and k :: "'p \<Rightarrow> ('a, 'b) ctx \<Rightarrow> (error, 'q) outcome \<times> ('a, 'b) ctx"
  proof -
    obtain r y where p: "p = (r, y)" by (rule prod.exhaust)
    show ?thesis using that(1) trans [OF _ that(2)] p by (cases r) auto
  qed
  have "R x (snd (handle_data f d x))" for f d x
    unfolding handle_data_def by (rule seq [OF collect deliver])
  moreover have "R x (snd (handle_control f ctl x))" for f ctl x
    by (rule same) simp
  ultimately have tail: "R x (snd (case hdr_opcode (header f) of
      ControlOp ctl \<Rightarrow> handle_control f ctl x | DataOp data \<Rightarrow> handle_data f data x))" for f x
    by (simp split: opcode.split)
  show ?thesis
    unfolding handle_frame_def
    by (rule seq, rule same, simp, rule seq, rule same, simp, rule tail)
qed

lemma handle_frame_assembling:
  fixes x :: "('a, 'b) ctx"
  shows "assembling_rel (x, w) (snd (handle_frame fl f x), w)"
proof -
  let ?R = "\<lambda>x y. cfg y = cfg x \<and> (assembling_ok x \<longrightarrow> assembling_ok y)"
  have "?R x (snd (handle_frame fl f x))"
  proof (rule handle_frame_keeps_assembly [where R = ?R])
    show "?R x (snd (collect_data f d x))" for f d and x :: "('a, 'b) ctx"
      by (rule collect_data_assembling [OF prod.collapse [symmetric]])
    show "?R x (snd (deliver_data p fin x))" for p fin and x :: "('a, 'b) ctx"
      by (rule deliver_data_assembling [OF prod.collapse [symmetric]])
  qed (auto simp: assembly_def assembling_ok_def)
  then show ?thesis by (simp add: assembling_rel_def)
qed

text \<open>
  The application may lower the limit while a message is under assembly, so what is held is
  well-formed and fits the address space, but not always the limit of the moment.
\<close>

definition held_ok :: "('c, 'd) ctx \<Rightarrow> bool" where
  "held_ok x \<longleftrightarrow> (\<forall>m. incomplete_msg x = Some m \<longrightarrow> im_inv (im_is_text m) None m)"

definition holding :: "('c, 'd) ctx \<Rightarrow> ('c, 'd) ctx \<Rightarrow> bool" where
  "holding x y \<longleftrightarrow> cfg y = cfg x \<and> (limit_ok (max_message_size (cfg x)) \<longrightarrow> held_ok x \<longrightarrow> held_ok y)"

lemma limit_ok_None [simp]: "limit_ok None"
  by (simp add: limit_ok_def im_max_def)

lemma im_inv_unlimited: "im_inv t lim m \<Longrightarrow> limit_ok lim \<Longrightarrow> im_inv (im_is_text m) None m"
  by (auto simp: im_inv_def limit_ok_def im_max_def)

lemma im_len_contents:
  "im_inv is_txt lim m \<Longrightarrow> limit_ok lim \<Longrightarrow> im_len m = length (im_contents m)"
  by (cases "im_collector m")
    (auto simp: im_inv_def im_len_def im_contents_def sc_len_le limit_ok_def)

lemma im_extend_held:
  assumes "im_inv t None m" "limit_ok lim" "im_extend m data lim = (r, m')"
  shows "r \<noteq> Panic \<and> im_inv (im_is_text m') None m' \<and> (r = Ok () \<longrightarrow> length (im_contents m') \<le> im_max lim)"
proof (cases "length (im_contents m) \<le> im_max lim")
  case True
  then have m: "im_inv t lim m" using assms(1) by (simp add: im_inv_def)
  have m': "im_inv t lim m'" by (rule im_extend_inv [OF m assms(2,3)])
  have "r \<noteq> Panic" using im.ext_no_panic [of t lim m data] m assms(2,3) by simp
  then show ?thesis using im_inv_unlimited [OF m' assms(2)] m' by (simp add: im_inv_def)
next
  case False
  then have "im_len m > im_max lim" using im_len_contents [OF assms(1)] by simp
  then have "m' = m" "\<exists>e. r = Err e" using assms(3) by (auto simp: im_extend_def im_max_def Let_def)
  then show ?thesis using im_inv_unlimited [OF assms(1)] by auto
qed

lemma holding_same: "assembly y = assembly x \<Longrightarrow> holding x y"
  by (simp add: holding_def assembly_def held_ok_def)

lemma holding_trans: "holding x y \<Longrightarrow> holding y z \<Longrightarrow> holding x z"
  by (simp add: holding_def)

lemma collect_data_holding: "holding x (snd (collect_data f d x))"
proof (cases "\<exists>m. d = Continue \<and> incomplete_msg x = Some m")
  case True
  then obtain m where m: "d = Continue" "incomplete_msg x = Some m" by blast
  obtain r m1 where e: "im_extend m (payload f) (max_message_size (cfg x)) = (r, m1)" by (rule prod.exhaust)
  then have "snd (collect_data f d x) = x\<lparr>incomplete_msg := Some m1\<rparr>" using m by (simp add: collect_data_def)
  then show ?thesis using im_extend_held [OF _ _ e] m(2) by (auto simp: holding_def held_ok_def)
qed (auto simp: collect_data_def holding_same split: data_op.split option.split)

lemma deliver_data_holding: "holding x (snd (deliver_data p fin x))"
proof (cases "\<exists>data t. p = Some (data, t) \<and> \<not> fin")
  case True
  then obtain data t where p: "p = Some (data, t)" "\<not> fin" by blast
  obtain r m where e: "im_extend (im_new t) data (max_message_size (cfg x)) = (r, m)" by (rule prod.exhaust)
  have "im_inv (t = MessageText) None (im_new t)" using im_new_inv(1,2) by (cases t) simp_all
  then show ?thesis
    using im_extend_held [OF _ _ e] p e by (cases r) (auto simp: deliver_data_def holding_def held_ok_def)
qed (auto simp: deliver_data_def holding_def held_ok_def split: option.split bool.split)

lemma handle_frame_holding: "holding x (snd (handle_frame fl f x))"
  by (rule handle_frame_keeps_assembly [where R = holding])
    (auto simp: holding_same collect_data_holding deliver_data_holding intro: holding_trans)

definition holding_rel :: "('c, 'd) ws \<Rightarrow> ('c, 'd) ws \<Rightarrow> bool" where
  "holding_rel s t \<longleftrightarrow> holding (fst s) (fst t)"

lemma holding_rel_same:
  "cfg (fst t) = cfg (fst s) \<Longrightarrow> incomplete_msg (fst t) = incomplete_msg (fst s) \<Longrightarrow> holding_rel s t"
  by (simp add: holding_rel_def holding_same assembly_def)

interpretation ms: engine_relation fl "\<lambda>_. True" holding_rel for fl
proof unfold_locales
  show "holding_rel s u" if "holding_rel s t" "holding_rel t u" for s t u :: "('a, 'b) ws"
    using that by (auto simp: holding_rel_def intro: holding_trans)
  show "holding_rel s (snd (inner_write data s))" for s :: "('a, 'b) ws" and data
    using inner_write_writes_only [of s data] by (intro holding_rel_same) (simp_all add: writes_only_def)
  show "holding_rel s (snd (ctx_write_out s))" for s :: "('a, 'b) ws"
    using ctx_write_out_writes_only [of s] by (intro holding_rel_same) (simp_all add: writes_only_def)
  show "holding_rel s (snd (ctx_stream_flush s))" for s :: "('a, 'b) ws"
    using ctx_stream_flush_writes_only [of s] by (intro holding_rel_same) (simp_all add: writes_only_def)
  show "holding_rel s (snd (fetch_frame s))" for s :: "('a, 'b) ws"
  proof -
    obtain r c v where f: "read_frame (max_frame_size (cfg (fst s))) (ctx_role (fst s) = Server)
        (accept_unmasked_frames (cfg (fst s))) (frame_codec (fst s), snd s) = (r, c, v)" by (metis prod.exhaust)
    then show ?thesis
      by (cases s) (auto simp: fetch_frame_def Let_def split: outcome.split option.split intro!: holding_rel_same)
  qed
  show "holding_rel (x, w) (snd (prepare_data fl d opc x), w)" for fl d opc and x :: "('a, 'b) ctx" and w
    by (rule holding_rel_same) (simp_all add: prepare_data_simps)
  show "holding_rel (x, w) (snd (handle_frame fl f x), w)" for fl f and x :: "('a, 'b) ctx" and w
    by (simp add: holding_rel_def handle_frame_holding)
qed (auto intro: holding_rel_same)

lemma reachable_held:
  assumes "reachable fl r C s" "\<forall>c \<in> C. limit_ok (max_message_size c)"
  shows "held_ok (fst s)"
  using assms
proof (induction rule: reachable.induct)
  case (start c fc x w)
  then show ?case by (auto simp: ctx_create_def bind_out_Ok_iff held_ok_def split: if_splits)
next
  case (step s opn res t)
  have "holding_rel s t" using ms.rel_run_op [of opn s fl] step.hyps(2)
    by (simp add: raw_ok_def split: ws_op.split message.split)
  moreover have "cfg (fst s) \<in> C" using reachable_inv [OF step.hyps(1)] by simp
  ultimately show ?case using step.IH step.prems by (simp add: holding_rel_def holding_def)
qed (auto simp: set_config_Ok_iff held_ok_def)

text \<open>The contract of a delivered message.\<close>

definition within :: "nat option \<Rightarrow> bytes \<Rightarrow> bool" where
  "within lim data \<longleftrightarrow> (\<forall>n. lim = Some n \<longrightarrow> length data \<le> n)"

fun message_ok :: "nat option \<Rightarrow> message \<Rightarrow> bool" where
  "message_ok lim (Text data) \<longleftrightarrow> valid_utf8 data \<and> within lim data"
| "message_ok lim (Binary data) \<longleftrightarrow> within lim data"
| "message_ok lim (Ping data) \<longleftrightarrow> length data \<le> 125"
| "message_ok lim (Pong data) \<longleftrightarrow> length data \<le> 125"
| "message_ok lim (Close None) \<longleftrightarrow> True"
| "message_ok lim (Close (Some cf)) \<longleftrightarrow> valid_utf8 (cf_reason cf) \<and> length (cf_reason cf) \<le> 123"
| "message_ok lim (RawFrame f) \<longleftrightarrow> False"

lemma utf8_try_from_Ok: "utf8_try_from bs = Ok s \<longleftrightarrow> s = bs \<and> valid_utf8 bs"
  by (auto simp: utf8_try_from_def valid_utf8_def split: utf8_check.split)

lemma check_max_size_Ok: "check_max_size n lim = Ok () \<longleftrightarrow> (\<forall>m. lim = Some m \<longrightarrow> n \<le> m)"
  by (auto simp: check_max_size_def split: option.split)

lemma frame_into_close_ok:
  "frame_into_close f = Ok c \<Longrightarrow> length (payload f) \<le> 125 \<Longrightarrow> message_ok lim (Close c)"
  by (auto simp: frame_into_close_def bind_out_Ok_iff utf8_try_from_Ok split: list.splits)

lemma do_close_ok:
  assumes "message_ok lim (Close c)" "do_close c x = (Ok (Some c'), y)"
  shows "message_ok lim (Close c')"
proof -
  have "valid_utf8 (ascii ''Protocol violation'')"
    by (simp add: valid_utf8_cons utf8_head_def)
  then show ?thesis
    using assms by (cases c) (auto simp: do_close_def Let_def split: ws_state.splits if_splits)
qed

lemma collect_data_collected:
  assumes "collect_data f d x = (Ok None, y)" "held_ok x" "limit_ok (max_message_size (cfg x))"
  shows "cfg y = cfg x \<and> (\<exists>m. incomplete_msg y = Some m \<and> im_inv (im_is_text m) (max_message_size (cfg x)) m)"
proof -
  obtain m m1 where m: "incomplete_msg x = Some m" "im_extend m (payload f) (max_message_size (cfg x)) = (Ok (), m1)"
      "y = x\<lparr>incomplete_msg := Some m1\<rparr>"
    using assms(1) by (auto simp: collect_data_def bind_out_Ok_iff split: data_op.splits option.splits prod.splits)
  then show ?thesis
    using im_extend_held [OF _ assms(3) m(2)] assms(2) by (auto simp: held_ok_def im_inv_def)
qed

lemma deliver_data_ok:
  assumes "deliver_data p fin x = (Ok (Some msg), y)"
    and "p = None \<Longrightarrow> \<exists>m. incomplete_msg x = Some m \<and> im_inv (im_is_text m) (max_message_size (cfg x)) m"
  shows "message_ok (max_message_size (cfg x)) msg"
proof (cases p)
  case None
  then obtain m where m: "incomplete_msg x = Some m" "im_complete m = Ok msg"
    using assms(1) by (auto simp: deliver_data_def bind_out_Ok_iff split: bool.splits option.splits)
  then have inv: "im_inv (im_is_text m) (max_message_size (cfg x)) m" using assms(2) None by auto
  then have "within (max_message_size (cfg x)) (im_contents m)"
    by (auto simp: im_inv_def im_max_def within_def)
  then show ?thesis using im_complete_spec [OF inv, of msg] m(2) by (auto split: if_splits)
next
  case (Some dt)
  then show ?thesis
    using assms(1)
    by (auto simp: deliver_data_def bind_out_Ok_iff check_max_size_Ok utf8_try_from_Ok within_def
        split: bool.splits prod.splits outcome.splits message_type.splits)
qed

lemma handle_frame_message_ok:
  assumes "handle_frame fl f x = (Ok (Some msg), y)" "held_ok x" "limit_ok (max_message_size (cfg x))"
  shows "message_ok (max_message_size (cfg x)) msg"
proof -
  obtain u x1 where c: "check_frame f x = (Ok u, x1)"
    using assms(1) by (cases "check_frame f x"; cases "fst (check_frame f x)") (auto simp: handle_frame_def)
  obtain f1 x2 where i: "inflate_frame fl f x1 = (Ok f1, x2)"
    using assms(1) c by (cases "inflate_frame fl f x1"; cases "fst (inflate_frame fl f x1)") (auto simp: handle_frame_def)
  have x2: "cfg x2 = cfg x" "held_ok x2"
    using check_frame_assembly [of f x] inflate_frame_assembly [of fl f x1] c i assms(2)
    by (simp_all add: assembly_def held_ok_def)
  show ?thesis
  proof (cases "hdr_opcode (header f1)")
    case (ControlOp ctl)
    then have h: "handle_control f1 ctl x2 = (Ok (Some msg), y)" using assms(1) c i by (simp add: handle_frame_def)
    have len: "length (payload f1) \<le> 125" using h by (auto simp: handle_control_def split: if_splits)
    show ?thesis
    proof (cases ctl)
      case CloseOp
      then obtain close c' where "frame_into_close f1 = Ok close" "do_close close x2 = (Ok (Some c'), y)" "msg = Close c'"
        using h len by (cases "frame_into_close f1"; cases "do_close (case frame_into_close f1 of Ok a \<Rightarrow> a) x2")
          (auto simp: handle_control_def and_then_Ok_iff split: if_splits)
      then show ?thesis using do_close_ok frame_into_close_ok [OF _ len] by blast
    qed (use h len in \<open>auto simp: handle_control_def split: if_splits\<close>)
  next
    case (DataOp d)
    then have h: "handle_data f1 d x2 = (Ok (Some msg), y)" using assms(1) c i by (simp add: handle_frame_def)
    obtain p x3 where cd: "collect_data f1 d x2 = (Ok p, x3)" "deliver_data p (is_final (header f1)) x3 = (Ok (Some msg), y)"
      using h by (cases "collect_data f1 d x2"; cases "fst (collect_data f1 d x2)") (auto simp: handle_data_def)
    have "cfg x3 = cfg x2" using collect_data_assembling [OF cd(1)] by simp
    moreover have "\<exists>m. incomplete_msg x3 = Some m \<and> im_inv (im_is_text m) (max_message_size (cfg x3)) m" if "p = None"
      using collect_data_collected [OF cd(1) [unfolded that] x2(2)] x2(1) assms(3) by simp
    ultimately show ?thesis using deliver_data_ok [OF cd(2)] x2(1) by simp
  qed
qed

text \<open>
  Claim C17. Whatever the peer sends, a message that \<open>read\<close> delivers on a reachable connection
  is sound: a text is valid UTF-8, text and binary messages respect the \<open>max_message_size\<close> of
  the moment however they were fragmented, compressed or preceded by refused fragments, even
  if the limit was lowered while they were collected, the payload of a control message is at
  most 125 bytes long, a close reason is valid UTF-8 of at most 123 bytes, and no raw frame
  comes out.
\<close>

theorem delivered_message_ok:
  assumes "reachable fl r C s" "\<forall>c \<in> C. limit_ok (max_message_size c)" "ctx_read fl s = (Ok msg, t)"
  shows "message_ok (max_message_size (cfg (fst s))) msg"
proof -
  obtain f x y w where x: "holding_rel s (x, w)" "handle_frame fl f x = (Ok (Some msg), y)"
    using ms.read_from_frame [OF assms(3)] by blast
  have s: "limit_ok (max_message_size (cfg (fst s)))" "held_ok (fst s)"
    using reachable_inv [OF assms(1)] reachable_held [OF assms(1,2)] assms(2) by simp_all
  then have "cfg x = cfg (fst s)" "held_ok x" using x(1) by (simp_all add: holding_rel_def holding_def)
  with handle_frame_message_ok [OF x(2)] s(1) show ?thesis by simp
qed

text \<open>A server that finds a masked text frame in its buffer.\<close>

lemmas handle_one_simps = handle_frame_def check_frame_def reserved_bits_set_def inflate_frame_def owns_stream_def
  frame_compressed_def remember_compressed_def handle_data_def collect_data_def deliver_data_def
  check_max_size_def utf8_try_from_def handle_control_def

lemma sample_read:
  "\<exists>t. ctx_read copying (small_ctx Server [0x81, 0x81, 1, 1, 1, 1, 0x40] [], idle_world) = (Ok (Text [0x41]), t)"
proof -
  have m: "apply_mask (1, 1, 1, 1) [0x40] = [0x41 :: u8]" by (simp add: apply_mask_eq)
  have v: "from_utf8 [0x41] = Valid" by (simp add: valid_utf8_def [symmetric] valid_utf8_cons utf8_head_def)
  show ?thesis
    by (simp add: read_one_simps handle_one_simps small_ctx_def small_config_def default_config_def codec_new_def
        frame_from_payload_def is_masked_def m v)
qed

theorem delivered_message_ok_witness:
  "message_ok (max_message_size small_config) (Text [0x41])"
proof -
  obtain t where t: "ctx_read copying (small_ctx Server [0x81, 0x81, 1, 1, 1, 1, 0x40] [], idle_world) = (Ok (Text [0x41]), t)"
    using sample_read by blast
  have "\<forall>c \<in> {small_config}. limit_ok (max_message_size c)"
    by (simp add: small_config_def default_config_def limit_ok_def im_max_def usize_max_eq)
  from delivered_message_ok [OF small_reachable this t] show ?thesis by (simp add: small_ctx_def)
qed

section \<open>Fragments and interleaved control frames\<close>

text \<open>
  The specification: a machine whose state is the type and the bytes of the message under
  assembly. Its step gives the message delivered, if any, and the next state, or \<open>None\<close> when
  the frame is refused.
\<close>

type_synonym assembly_state = "(message_type \<times> bytes) option"

definition assembly_fits :: "nat option \<Rightarrow> message_type \<Rightarrow> bytes \<Rightarrow> bool" where
  "assembly_fits lim t b \<longleftrightarrow> length b \<le> im_max lim \<and> (t = MessageText \<longrightarrow> \<not> hopeless_utf8 b)"

fun whole_message :: "message_type \<Rightarrow> bytes \<Rightarrow> message option" where
  "whole_message MessageText b = (if valid_utf8 b then Some (Text b) else None)"
| "whole_message MessageBinary b = Some (Binary b)"

definition assemble :: "nat option \<Rightarrow> bool \<Rightarrow> message_type \<Rightarrow> bytes \<Rightarrow> (message option \<times> assembly_state) option" where
  "assemble lim fin t b =
     (if \<not> assembly_fits lim t b then None
      else if fin then map_option (\<lambda>m. (Some m, None)) (whole_message t b)
      else Some (None, Some (t, b)))"

definition assembly_step :: "nat option \<Rightarrow> assembly_state \<Rightarrow> frame \<Rightarrow> (message option \<times> assembly_state) option" where
  "assembly_step lim acc f =
     (let p = payload f; fin = is_final (header f) in
      case hdr_opcode (header f) of
        ControlOp ctl \<Rightarrow>
          (if \<not> fin \<or> length p > 125 then None
           else if ctl = PingOp then Some (Some (Ping p), acc)
           else if ctl = PongOp then Some (Some (Pong p), acc)
           else None)
      | DataOp op \<Rightarrow>
          (case acc of
             Some (t, b) \<Rightarrow> if op = Continue then assemble lim fin t (b @ p) else None
           | None \<Rightarrow>
               (if op = TextOp then assemble lim fin MessageText p
                else if op = BinaryOp then assemble lim fin MessageBinary p
                else None)))"

fun assembly_run :: "nat option \<Rightarrow> assembly_state \<Rightarrow> frame list \<Rightarrow> (message list \<times> assembly_state) option" where
  "assembly_run lim acc [] = Some ([], acc)"
| "assembly_run lim acc (f # fs) =
     (case assembly_step lim acc f of
        None \<Rightarrow> None
      | Some (m, acc1) \<Rightarrow>
          map_option (\<lambda>(ms, acc2). ((case m of Some msg \<Rightarrow> msg # ms | None \<Rightarrow> ms), acc2)) (assembly_run lim acc1 fs))"

text \<open>The engine on the same frames, and its state seen as a state of that machine.\<close>

fun handle_frames :: "('c, 'd) flate \<Rightarrow> frame list \<Rightarrow> ('c, 'd) ctx \<Rightarrow> message list result \<times> ('c, 'd) ctx" where
  "handle_frames fl [] x = (Ok [], x)"
| "handle_frames fl (f # fs) x =
     and_then (handle_frame fl f x) (\<lambda>m y.
     and_then (handle_frames fl fs y) (\<lambda>ms z. (Ok (case m of Some msg \<Rightarrow> msg # ms | None \<Rightarrow> ms), z)))"

definition assembly_of :: "('c, 'd) ctx \<Rightarrow> assembly_state" where
  "assembly_of x = map_option (\<lambda>m. (if im_is_text m then MessageText else MessageBinary, im_contents m)) (incomplete_msg x)"

text \<open>A frame whose header bits are acceptable without extensions, and that is no close frame.\<close>

definition plain_frame :: "role \<Rightarrow> frame \<Rightarrow> bool" where
  "plain_frame r f \<longleftrightarrow> \<not> rsv1 (header f) \<and> \<not> rsv2 (header f) \<and> \<not> rsv3 (header f) \<and>
     (r = Client \<longrightarrow> \<not> is_masked f) \<and> hdr_opcode (header f) \<noteq> ControlOp CloseOp \<and>
     length (payload f) \<le> usize_max"

definition assembles :: "('c, 'd) ctx \<Rightarrow> bool" where
  "assembles x \<longleftrightarrow> deflate x = None \<and> can_read (ws_state x) \<and> limit_ok (max_message_size (cfg x)) \<and>
     \<not> compressed_incomplete x \<and> assembling_ok x"

definition matches_step ::
  "('c, 'd) ctx \<Rightarrow> message option result \<times> ('c, 'd) ctx \<Rightarrow> (message option \<times> assembly_state) option \<Rightarrow> bool" where
  "matches_step x p spec \<longleftrightarrow>
     (case p of
        (Ok m, y) \<Rightarrow> spec = Some (m, assembly_of y) \<and> ctx_role y = ctx_role x \<and> cfg y = cfg x \<and> deflate y = None \<and>
          ws_state y = ws_state x \<and> compressed_incomplete y = compressed_incomplete x
      | (Err e, y) \<Rightarrow> spec = None
      | (Panic, y) \<Rightarrow> False)"

lemma im_new_type:
  "im_is_text (im_new t) \<longleftrightarrow> t = MessageText" "im_contents (im_new t) = []"
  "im_inv (t = MessageText) lim (im_new t)"
  using im_new_inv by (cases t; simp add: im_is_text_def im_new_def im_inv_def im_contents_def)+

lemma im_extend_matches:
  assumes "im_inv (t = MessageText) lim m" "limit_ok lim" "im_extend m p lim = (r, m')"
  shows "if assembly_fits lim t (im_contents m @ p)
    then r = Ok () \<and> im_inv (t = MessageText) lim m' \<and> im_contents m' = im_contents m @ p
    else \<exists>e. r = Err e"
  using im_extend_spec [OF assms(1), of p] assms(2,3)
  by (cases r) (auto simp: assembly_fits_def im_hopeless_def limit_ok_def)

lemma continue_matches:
  assumes "assembles x" "incomplete_msg x = Some m" "hdr_opcode (header f) = DataOp Continue"
  shows "matches_step x (handle_data f Continue x)
    (assembly_step (max_message_size (cfg x)) (assembly_of x) f)"
proof -
  define t where "t = (if im_is_text m then MessageText else MessageBinary)"
  let ?lim = "max_message_size (cfg x)"
  have inv: "im_inv (t = MessageText) ?lim m" and l: "limit_ok ?lim"
    using assms by (auto simp: assembles_def assembling_ok_def t_def)
  have acc: "assembly_of x = Some (t, im_contents m)" using assms by (simp add: assembly_of_def t_def)
  obtain r m' where e: "im_extend m (payload f) ?lim = (r, m')" by fastforce
  note spec = im_extend_matches [OF inv l e]
  show ?thesis
  proof (cases "assembly_fits ?lim t (im_contents m @ payload f)")
    case True
    then have m': "r = Ok ()" "im_inv (t = MessageText) ?lim m'" "im_contents m' = im_contents m @ payload f"
      using spec by simp_all
    then have kind: "im_is_text m' \<longleftrightarrow> t = MessageText" by (simp add: im_inv_def)
    have cpl: "im_complete m' = Ok msg \<longleftrightarrow> whole_message t (im_contents m @ payload f) = Some msg" for msg
      using im_complete_spec [OF m'(2), of msg] m'(3) by (cases t) auto
    show ?thesis
    proof (cases "is_final (header f)")
      case True
      have h: "handle_data f Continue x =
          (bind_out (im_complete m') (\<lambda>msg. Ok (Some msg)), x\<lparr>incomplete_msg := None\<rparr>)"
        using e m'(1) assms(2) True by (simp add: handle_data_def collect_data_def deliver_data_def)
      have s: "assembly_step ?lim (assembly_of x) f =
          map_option (\<lambda>m. (Some m, None)) (whole_message t (im_contents m @ payload f))"
        using acc assms(3) True \<open>assembly_fits _ _ _\<close> by (simp add: assembly_step_def assemble_def Let_def)
      show ?thesis
      proof (cases "im_complete m'")
        case (Ok msg)
        moreover have "assembly_of (x\<lparr>incomplete_msg := None\<rparr>) = None" by (simp add: assembly_of_def)
        ultimately show ?thesis
          using cpl [of msg] assms(1) by (simp add: h s matches_step_def assembles_def)
      next
        case (Err err)
        then have "whole_message t (im_contents m @ payload f) = None"
          using cpl by (metis not_None_eq outcome.distinct(1))
        then show ?thesis using Err by (simp add: h s matches_step_def)
      qed (simp add: im_complete_no_panic)
    next
      case False
      then show ?thesis
        using e m' acc assms \<open>assembly_fits _ _ _\<close> kind
        by (cases t) (simp_all add: matches_step_def handle_data_def collect_data_def deliver_data_def
            assembly_step_def assemble_def assembly_of_def assembles_def Let_def)
    qed
  next
    case False
    then obtain err where "r = Err err" using spec by auto
    then show ?thesis
      using e acc assms False
      by (simp add: matches_step_def handle_data_def collect_data_def assembly_step_def assemble_def)
  qed
qed

lemma start_matches:
  assumes "assembles x" "incomplete_msg x = None" "hdr_opcode (header f) = DataOp data"
    and "data = (case t of MessageText \<Rightarrow> TextOp | MessageBinary \<Rightarrow> BinaryOp)" "length (payload f) \<le> usize_max"
  shows "matches_step x (handle_data f data x) (assemble (max_message_size (cfg x)) (is_final (header f)) t (payload f))"
proof -
  let ?lim = "max_message_size (cfg x)" and ?p = "payload f"
  have l: "limit_ok ?lim" using assms(1) by (simp add: assembles_def)
  have c: "collect_data f data x = (Ok (Some (?p, t)), x)"
    using assms(2,4) by (cases t) (simp_all add: collect_data_def)
  show ?thesis
  proof (cases "is_final (header f)")
    case True
    have size: "(\<forall>n. ?lim = Some n \<longrightarrow> length ?p \<le> n) \<longleftrightarrow> length ?p \<le> im_max ?lim"
      using assms(5) by (auto simp: im_max_def split: option.split)
    show ?thesis
    proof (cases "length ?p \<le> im_max ?lim")
      case fits: True
      then have ok: "check_max_size (length ?p) ?lim = Ok ()" using size by (simp add: check_max_size_Ok)
      have "assembly_of x = None" using assms(2) by (simp add: assembly_of_def)
      then show ?thesis
        using c ok True fits assms(1) hopeless_not_valid [of ?p]
        by (cases t; cases "from_utf8 ?p")
          (auto simp: matches_step_def handle_data_def deliver_data_def assemble_def assembly_fits_def assembles_def
            utf8_try_from_def valid_utf8_def)
    next
      case False
      then obtain n where "?lim = Some n" "length ?p > n" using size by auto
      then show ?thesis
        using c True False
        by (simp add: matches_step_def handle_data_def deliver_data_def assemble_def assembly_fits_def check_max_size_def)
    qed
  next
    case False
    obtain r m where e: "im_extend (im_new t) ?p ?lim = (r, m)" by fastforce
    note spec = im_extend_matches [OF im_new_type(3) l e, unfolded im_new_type append_Nil]
    show ?thesis
    proof (cases "assembly_fits ?lim t ?p")
      case True
      then have m: "r = Ok ()" "im_is_text m \<longleftrightarrow> t = MessageText" "im_contents m = ?p"
        using spec by (simp_all add: im_inv_def)
      have "assembly_of (x\<lparr>incomplete_msg := Some m\<rparr>) = Some (t, ?p)"
        using m by (cases t) (simp_all add: assembly_of_def)
      then show ?thesis
        using c e m(1) False True assms(1)
        by (simp add: matches_step_def handle_data_def deliver_data_def assemble_def assembles_def)
    next
      case unfit: False
      then obtain err where "r = Err err" using spec by auto
      then show ?thesis
        using c e False unfit by (simp add: matches_step_def handle_data_def deliver_data_def assemble_def)
    qed
  qed
qed

lemma handle_data_matches:
  assumes "assembles x" "hdr_opcode (header f) = DataOp data" "length (payload f) \<le> usize_max"
  shows "matches_step x (handle_data f data x) (assembly_step (max_message_size (cfg x)) (assembly_of x) f)"
proof (cases "incomplete_msg x")
  case None
  then have a: "assembly_of x = None" by (simp add: assembly_of_def)
  show ?thesis
  proof (cases data)
    case TextOp
    then show ?thesis
      using start_matches [OF assms(1) None assms(2), of MessageText] assms(2,3)
      by (simp add: assembly_step_def a)
  next
    case BinaryOp
    then show ?thesis
      using start_matches [OF assms(1) None assms(2), of MessageBinary] assms(2,3)
      by (simp add: assembly_step_def a)
  qed (use None assms(2) in \<open>simp_all add: assembly_step_def a handle_data_def collect_data_def matches_step_def\<close>)
next
  case (Some m)
  show ?thesis
  proof (cases "data = Continue")
    case True
    then show ?thesis using continue_matches [OF assms(1) Some, of f] assms(2) by simp
  next
    case False
    then show ?thesis
      using Some assms(2)
      by (cases data) (simp_all add: assembly_step_def assembly_of_def handle_data_def collect_data_def matches_step_def)
  qed
qed

lemma handle_frame_matches:
  assumes "assembles x" "plain_frame (ctx_role x) f"
  shows "matches_step x (handle_frame fl f x) (assembly_step (max_message_size (cfg x)) (assembly_of x) f)"
proof -
  have c: "check_frame f x = (Ok (), x)"
    using assms by (auto simp: check_frame_def reserved_bits_set_def plain_frame_def assembles_def)
  show ?thesis
  proof (cases "hdr_opcode (header f)")
    case (ControlOp ctl)
    have "assembly_of (set_additional g x) = assembly_of x" for g by (simp add: assembly_of_def)
    then show ?thesis
      using ControlOp c assms
      by (cases ctl) (auto simp: handle_frame_def inflate_frame_def handle_control_def assembly_step_def
          matches_step_def plain_frame_def assembles_def Let_def)
  next
    case (DataOp data)
    have "remember_compressed data b False x = x" for b
      using assms(1) by (cases x) (simp add: remember_compressed_def assembles_def)
    moreover have "\<not> frame_compressed data f x"
      using assms by (cases data) (simp_all add: frame_compressed_def plain_frame_def assembles_def)
    ultimately have i: "inflate_frame fl f x = (Ok f, x)"
      using DataOp assms(1)
      by (simp add: inflate_frame_def assembles_def fail_compression_on_discarded_frame_def)
    show ?thesis
      using handle_data_matches [OF assms(1) DataOp] assms(2) c i DataOp
      by (simp add: handle_frame_def plain_frame_def)
  qed
qed

lemma matches_assembles:
  assumes "assembles x" "matches_step x (handle_frame fl f x) spec" "handle_frame fl f x = (Ok m, y)"
  shows "assembles y \<and> ctx_role y = ctx_role x \<and> cfg y = cfg x \<and> ws_state y = ws_state x"
  using assms handle_frame_assembling [of x undefined fl f]
  by (simp add: matches_step_def assembles_def assembling_rel_def)

text \<open>
  Claim C6. Reading refines the message assembler of RFC 6455: on a connection without
  compression, any sequence of text, binary, continuation, ping and pong frames, fragmented
  and interleaved in any way, yields exactly the messages of \<open>assembly_run\<close> and leaves the
  same unfinished message, or fails exactly when that machine refuses a frame. It never
  panics and the connection state stays as it is.
\<close>

theorem assembly_refines:
  assumes "assembles x" "list_all (plain_frame (ctx_role x)) fs"
  shows "case handle_frames fl fs x of
      (Ok msgs, y) \<Rightarrow> assembly_run (max_message_size (cfg x)) (assembly_of x) fs = Some (msgs, assembly_of y) \<and>
        ws_state y = ws_state x
    | (Err e, y) \<Rightarrow> assembly_run (max_message_size (cfg x)) (assembly_of x) fs = None
    | (Panic, y) \<Rightarrow> False"
  using assms
proof (induction fs arbitrary: x)
  case Nil
  then show ?case by simp
next
  case (Cons f fs)
  obtain r y where h: "handle_frame fl f x = (r, y)" by fastforce
  have m: "matches_step x (handle_frame fl f x) (assembly_step (max_message_size (cfg x)) (assembly_of x) f)"
    by (rule handle_frame_matches) (use Cons.prems in simp_all)
  show ?case
  proof (cases r)
    case (Ok msg)
    then have y: "assembles y" "ctx_role y = ctx_role x" "cfg y = cfg x" "ws_state y = ws_state x"
      using matches_assembles [OF Cons.prems(1) m] h by simp_all
    have st: "assembly_step (max_message_size (cfg x)) (assembly_of x) f = Some (msg, assembly_of y)"
      using m h Ok by (simp add: matches_step_def)
    show ?thesis
      using Cons.IH [OF y(1)] Cons.prems(2) y h Ok st
      by (cases "handle_frames fl fs y"; cases "fst (handle_frames fl fs y)") auto
  qed (use m h in \<open>simp_all add: matches_step_def\<close>)
qed

text \<open>The euro sign in two fragments, with a ping between them.\<close>

definition fragment :: "bool \<Rightarrow> data_op \<Rightarrow> bytes \<Rightarrow> frame" where
  "fragment fin opc data = frame_message data (DataOp opc) fin"

lemma small_assembles: "assembles (small_ctx r input waiting)"
  by (simp add: assembles_def small_ctx_def small_config_def default_config_def limit_ok_def im_max_def
      usize_max_eq assembling_ok_def)

theorem assembly_refines_witness:
  "\<exists>y. handle_frames copying
       [fragment False TextOp [0xE2], frame_ping [7], fragment True Continue [0x82, 0xAC]] (small_ctx Server [] []) =
     (Ok [Ping [7], Text [0xE2, 0x82, 0xAC]], y)"
proof -
  let ?fs = "[fragment False TextOp [0xE2], frame_ping [7], fragment True Continue [0x82, 0xAC]]"
  let ?x = "small_ctx Server [] []"
  have plain: "list_all (plain_frame (ctx_role ?x)) ?fs"
    by (simp add: plain_frame_def fragment_def frame_message_def frame_ping_def default_header_def
        small_ctx_def is_masked_def usize_max_eq)
  have v: "valid_utf8 [0xE2, 0x82, 0xAC]"
    by (simp add: valid_utf8_cons utf8_head_def expect_cont_def second_of_three_def cont_byte_def)
  have "\<not> hopeless_utf8 [0xE2]" using hopeless_utf8_append [of "[0xE2]" "[0x82, 0xAC]"] hopeless_not_valid v by auto
  then have run: "assembly_run (max_message_size (cfg ?x)) (assembly_of ?x) ?fs =
      Some ([Ping [7], Text [0xE2, 0x82, 0xAC]], None)"
    using v hopeless_not_valid [of "[0xE2, 0x82, 0xAC]"]
    by (auto simp: assembly_step_def assemble_def assembly_fits_def fragment_def frame_message_def
        frame_ping_def default_header_def small_ctx_def assembly_of_def small_config_def default_config_def im_max_def Let_def)
  obtain r y where h: "handle_frames copying ?fs ?x = (r, y)" by fastforce
  show ?thesis
    using assembly_refines [OF small_assembles plain, of copying] run h by (cases r) auto
qed

text \<open>
  Claim C40. On a connection without compression, a continuation frame that is refused for the
  size limit leaves a hole in the message: the error leaves the whole connection as it was, with
  the message under assembly in place. When the application reads on, a final continuation frame
  that fits completes the message, text or binary, and the bytes of the refused frame are missing
  from it (for text, if what is left is UTF-8).
\<close>

theorem refused_fragment_leaves_hole:
  assumes "assembles x" "incomplete_msg x = Some m"
    and "plain_frame (ctx_role x) f" "hdr_opcode (header f) = DataOp Continue"
    and "length (im_contents m) + length (payload f) > im_max (max_message_size (cfg x))"
    and "plain_frame (ctx_role x) g" "hdr_opcode (header g) = DataOp Continue" "is_final (header g)"
    and "length (im_contents m) + length (payload g) \<le> im_max (max_message_size (cfg x))"
    and "im_is_text m \<Longrightarrow> valid_utf8 (im_contents m @ payload g)"
  shows "\<exists>z. handle_frame fl f x =
      (Err (Capacity (MessageTooLong (length (im_contents m) + length (payload f)) (im_max (max_message_size (cfg x))))), x) \<and>
    handle_frame fl g x =
      (Ok (Some (if im_is_text m then Text (im_contents m @ payload g) else Binary (im_contents m @ payload g))), z) \<and>
    incomplete_msg z = None \<and> ws_state z = ws_state x"
proof -
  let ?lim = "max_message_size (cfg x)"
  have keep: "remember_compressed Continue b False x = x" for b
    using assms(1) by (cases x) (simp add: remember_compressed_def assembles_def)
  have inv: "im_inv (im_is_text m) ?lim m" and l: "limit_ok ?lim"
    using assms(1,2) by (auto simp: assembles_def assembling_ok_def im_inv_def)
  have "im_extend m (payload f) ?lim =
      (Err (Capacity (MessageTooLong (length (im_contents m) + length (payload f)) (im_max ?lim))), m)"
    using im_len_contents [OF inv] l inv assms(5)
    by (auto simp: im_extend_def im_max_def [symmetric] im_inv_def limit_ok_def Let_def)
  moreover have "x\<lparr>incomplete_msg := Some m\<rparr> = x" using assms(2) by (cases x) simp
  moreover have "inflate_frame fl f x = (Ok f, x)"
    using assms(1,2,4) keep
    by (simp add: inflate_frame_def owns_stream_def frame_compressed_def assembles_def)
  moreover have "check_frame f x = (Ok (), x)"
    using assms(1,3) by (auto simp: check_frame_def reserved_bits_set_def plain_frame_def assembles_def)
  ultimately have "handle_frame fl f x =
      (Err (Capacity (MessageTooLong (length (im_contents m) + length (payload f)) (im_max ?lim))), x)"
    using assms(2,4) by (auto simp: handle_frame_def handle_data_def collect_data_def)
  moreover have "assembly_step ?lim (assembly_of x) g =
      Some (Some (if im_is_text m then Text (im_contents m @ payload g) else Binary (im_contents m @ payload g)), None)"
    using assms(2,7-10) hopeless_not_valid [of "im_contents m @ payload g"]
    by (auto simp: assembly_step_def assembly_of_def assemble_def assembly_fits_def Let_def)
  then have "\<exists>z. handle_frame fl g x =
      (Ok (Some (if im_is_text m then Text (im_contents m @ payload g) else Binary (im_contents m @ payload g))), z) \<and>
      incomplete_msg z = None \<and> ws_state z = ws_state x"
    using handle_frame_matches [OF assms(1,6), of fl]
    by (cases "handle_frame fl g x"; cases "fst (handle_frame fl g x)") (auto simp: matches_step_def assembly_of_def)
  ultimately show ?thesis by blast
qed

definition holed_ctx :: "(unit, unit) ctx" where
  "holed_ctx = (small_ctx Server [] [])\<lparr>incomplete_msg := Some \<lparr>im_collector = BinaryCollector [1, 2]\<rparr>,
     cfg := small_config\<lparr>max_message_size := Some 4\<rparr>\<rparr>"

theorem refused_fragment_leaves_hole_witness:
  "\<exists>z. handle_frame copying (fragment False Continue [3, 4, 5]) holed_ctx =
       (Err (Capacity (MessageTooLong 5 4)), holed_ctx) \<and>
     handle_frame copying (fragment True Continue [6]) holed_ctx = (Ok (Some (Binary [1, 2, 6])), z) \<and>
     incomplete_msg z = None \<and> ws_state z = Active"
proof -
  have "assembles holed_ctx"
    by (simp add: assembles_def holed_ctx_def small_ctx_def limit_ok_def im_max_def usize_max_eq assembling_ok_def
        im_inv_def im_is_text_def im_contents_def)
  then show ?thesis
    using refused_fragment_leaves_hole [of holed_ctx "\<lparr>im_collector = BinaryCollector [1, 2]\<rparr>"
        "fragment False Continue [3, 4, 5]" "fragment True Continue [6]" copying]
    by (auto simp: holed_ctx_def small_ctx_def im_is_text_def im_contents_def plain_frame_def fragment_def
        frame_message_def default_header_def im_max_def is_masked_def usize_max_eq)
qed

end
