(* ===== verification/WebSocket_Closing.thy ===== *)
theory WebSocket_Closing
  imports WebSocket_Reading
begin

text \<open>
  What becomes of the automatic replies: on a stream that accepts bytes a flush sends
  everything that waits, so a ping is answered and a server ends its closing handshake. And
  the one case in which a close frame is lost.
\<close>

section \<open>A stream that accepts bytes\<close>

definition accepting :: "world \<Rightarrow> bool" where
  "accepting w \<longleftrightarrow> (\<forall>e \<in> set (writes w). \<exists>n. e = WrAccept n \<and> 0 < n) \<and> set (flushes w) \<subseteq> {FlOk}"

lemma stream_write_accepting:
  assumes "accepting w" "d \<noteq> []"
  shows "\<exists>n w'. stream_write d w = (Ok n, w') \<and> 0 < n \<and> accepting w'"
proof (cases "writes w")
  case Nil
  then show ?thesis using assms by (auto simp: stream_write_def accepting_def)
next
  case (Cons e es)
  then obtain n where "e = WrAccept n" "0 < n" using assms(1) by (auto simp: accepting_def)
  then show ?thesis using assms Cons by (auto simp: stream_write_def accepting_def)
qed

lemma write_out_buffer_accepting:
  "accepting w \<Longrightarrow> \<exists>w'. write_out_buffer (c, w) = (Ok (), c\<lparr>out_buffer := []\<rparr>, w') \<and> accepting w'"
proof (induction "(c, w)" arbitrary: c w rule: write_out_buffer.induct)
  case (1 c w)
  show ?case
  proof (cases "out_buffer c = []")
    case True
    then have "c\<lparr>out_buffer := []\<rparr> = c" by (cases c) simp
    then show ?thesis using True "1.prems" by (simp add: write_out_buffer.simps)
  next
    case False
    then obtain n w1 where s: "stream_write (out_buffer c) w = (Ok n, w1)" "0 < n" "accepting w1"
      using stream_write_accepting "1.prems" by blast
    from "1.hyps" [OF False s(1) [symmetric] refl _ s(3)] s(2)
    show ?thesis using False s by (simp add: write_out_buffer.simps [of c])
  qed
qed

lemma accepting_sent:
  assumes "accepting w"
  shows "\<exists>w'. write_out_buffer (c, w) = (Ok (), c\<lparr>out_buffer := []\<rparr>, w') \<and> accepting w' \<and>
    sent w' = sent w @ out_buffer c \<and> masks w' = masks w \<and> draws w' = draws w"
proof -
  obtain w' where w': "write_out_buffer (c, w) = (Ok (), c\<lparr>out_buffer := []\<rparr>, w')" "accepting w'"
    using write_out_buffer_accepting [OF assms] by blast
  then show ?thesis using write_out_buffer_spec [OF w'(1)] by auto
qed

lemma buffer_frame_accepting:
  assumes "accepting w" "can_buffer c (frame_len f)"
  shows "\<exists>c' w'. buffer_frame f (c, w) = (Ok (), c', w') \<and> accepting w' \<and>
    sent w' @ out_buffer c' = sent w @ out_buffer c @ wire f"
proof -
  obtain r c' w' where b: "buffer_frame f (c, w) = (r, c', w')" by (metis prod.exhaust)
  let ?c1 = "c\<lparr>out_buffer := format_into_buf f (out_buffer c)\<rparr>"
  have "r = Ok () \<and> accepting w'"
    using b assms write_out_buffer_accepting [OF assms(1), of ?c1]
    by (auto simp: buffer_frame_def Let_def split: if_splits)
  then show ?thesis
    using b buffer_frame_fits [OF b assms(2)] by (simp add: stream_so_far_def)
qed

lemma ctx_buffer_frame_accepting:
  assumes "accepting w" "can_buffer (frame_codec x) (frame_len (outgoing x w f))"
  shows "\<exists>c v. ctx_buffer_frame f (x, w) = (Ok (), x\<lparr>frame_codec := c\<rparr>, v) \<and> accepting v \<and>
    sent v @ out_buffer c = sent w @ out_buffer (frame_codec x) @ wire (outgoing x w f)"
proof -
  obtain w1 where m: "(case ctx_role x of Server \<Rightarrow> (f, w)
      | Client \<Rightarrow> (case generate_mask w of (m, w1) \<Rightarrow> (set_random_mask m f, w1))) = (outgoing x w f, w1)"
      and w1: "accepting w1" "sent w1 = sent w"
    using assms(1) by (cases "ctx_role x") (simp_all add: outgoing_def generate_mask_def accepting_def)
  obtain c v where "buffer_frame (outgoing x w f) (frame_codec x, w1) = (Ok (), c, v)" "accepting v"
      "sent v @ out_buffer c = sent w @ out_buffer (frame_codec x) @ wire (outgoing x w f)"
    using buffer_frame_accepting [OF w1(1) assms(2)] w1(2) by auto
  then show ?thesis using m by (auto simp: ctx_buffer_frame_def check_connection_reset_def)
qed

section \<open>A flush sends everything\<close>

definition pending_reply :: "('c, 'd) ctx \<Rightarrow> world \<Rightarrow> bytes" where
  "pending_reply x w = (case additional_send x of Some f \<Rightarrow> wire (outgoing x w f) | None \<Rightarrow> [])"

definition reply_fits :: "('c, 'd) ctx \<Rightarrow> world \<Rightarrow> bool" where
  "reply_fits x w \<longleftrightarrow>
     (\<forall>f. additional_send x = Some f \<longrightarrow> can_buffer (frame_codec x) (frame_len (outgoing x w f)))"

lemma send_additional_accepting:
  assumes "accepting w" "reply_fits x w"
  shows "\<exists>b c v. send_additional (x, w) = (Ok b, x\<lparr>frame_codec := c, additional_send := None\<rparr>, v) \<and> accepting v \<and>
    sent v @ out_buffer c = sent w @ out_buffer (frame_codec x) @ pending_reply x w"
proof (cases "additional_send x")
  case None
  then have "x\<lparr>frame_codec := frame_codec x, additional_send := None\<rparr> = x" by (cases x) simp
  then show ?thesis
    using None assms(1) by (intro exI [of _ "unflushed_additional x"] exI [of _ "frame_codec x"] exI [of _ w])
      (simp add: send_additional_def pending_reply_def)
next
  case (Some f)
  let ?x = "x\<lparr>additional_send := None\<rparr>"
  have o: "outgoing ?x w f = outgoing x w f" by (simp add: outgoing_def)
  have "can_buffer (frame_codec ?x) (frame_len (outgoing ?x w f))"
    using assms(2) Some by (simp add: reply_fits_def o)
  then obtain c v where b: "ctx_buffer_frame f (?x, w) = (Ok (), ?x\<lparr>frame_codec := c\<rparr>, v)" "accepting v"
      "sent v @ out_buffer c = sent w @ out_buffer (frame_codec x) @ wire (outgoing x w f)"
    using ctx_buffer_frame_accepting [OF assms(1), of ?x f] by (auto simp: o)
  have "send_additional (x, w) = (Ok True, x\<lparr>frame_codec := c, additional_send := None\<rparr>, v)"
    using Some b(1) by (simp add: send_additional_def)
  then show ?thesis using b(2,3) Some by (auto simp: pending_reply_def)
qed

lemma ctx_write_out_accepting:
  assumes "accepting w"
  shows "\<exists>v. ctx_write_out (x, w) = (Ok (), x\<lparr>frame_codec := (frame_codec x)\<lparr>out_buffer := []\<rparr>\<rparr>, v) \<and>
    accepting v \<and> sent v = sent w @ out_buffer (frame_codec x)"
  using accepting_sent [OF assms, of "frame_codec x"] by (auto simp: ctx_write_out_def)

lemma ctx_stream_flush_accepting:
  assumes "accepting w"
  shows "\<exists>v. ctx_stream_flush (x, w) = (Ok (), x, v) \<and> accepting v \<and> sent v = sent w"
proof (cases "flushes w")
  case Nil
  then show ?thesis using assms by (simp add: ctx_stream_flush_def stream_flush_def)
next
  case (Cons e es)
  then have "e = FlOk" using assms by (auto simp: accepting_def)
  then show ?thesis using Cons assms by (simp add: ctx_stream_flush_def stream_flush_def accepting_def)
qed

lemma ctx_flush_accepting:
  assumes "accepting w" "reply_fits x w" "\<not> compression_unusable x"
  shows "\<exists>y v. ctx_flush (x, w) = ((if server_done x then Err ConnectionClosed else Ok ()), y, v) \<and>
    sent v = sent w @ out_buffer (frame_codec x) @ pending_reply x w \<and>
    additional_send y = None \<and> out_buffer (frame_codec y) = [] \<and>
    ws_state y = (if server_done x then Terminated else ws_state x) \<and> accepting v"
proof -
  obtain b c v where a: "send_additional (x, w) = (Ok b, x\<lparr>frame_codec := c, additional_send := None\<rparr>, v)"
      "accepting v" "sent v @ out_buffer c = sent w @ out_buffer (frame_codec x) @ pending_reply x w"
    using send_additional_accepting [OF assms(1,2)] by blast
  let ?x = "x\<lparr>frame_codec := c, additional_send := None\<rparr>" and ?c = "c\<lparr>out_buffer := []\<rparr>"
  obtain v1 where v1: "ctx_write_out (?x, v) = (Ok (), ?x\<lparr>frame_codec := ?c\<rparr>, v1)" "sent v1 = sent v @ out_buffer c"
      "accepting v1"
    using ctx_write_out_accepting [OF a(2), of ?x] by auto
  show ?thesis
  proof (cases "server_done x")
    case True
    then show ?thesis
      using a v1 assms(3)
      by (simp add: ctx_flush_def inner_write_def finish_write_def server_done_def)
  next
    case False
    obtain v2 where v2: "ctx_stream_flush (?x\<lparr>frame_codec := ?c\<rparr>, v1) = (Ok (), ?x\<lparr>frame_codec := ?c\<rparr>, v2)"
        "sent v2 = sent v1" "accepting v2"
      using ctx_stream_flush_accepting [OF v1(3)] by blast
    have "inner_write None (x, w) = (Ok b, ?x, v)"
      using a(1) False by (auto simp: inner_write_def finish_write_def server_done_def)
    then show ?thesis
      using a v1 v2 assms(3) False by (simp add: ctx_flush_def)
  qed
qed

section \<open>The queued reply\<close>

text \<open>While the connection is active, the only reply that waits is a pong.\<close>

definition fresh :: "('c, 'd) ctx \<Rightarrow> bool" where
  "fresh x \<longleftrightarrow> ws_state x = Active \<longrightarrow> (\<forall>f. additional_send x = Some f \<longrightarrow> is_pong_frame f)"

definition fresh_rel :: "('c, 'd) ws \<Rightarrow> ('c, 'd) ws \<Rightarrow> bool" where
  "fresh_rel s t \<longleftrightarrow> (fresh (fst s) \<longrightarrow> fresh (fst t))"

lemma fresh_rel_trans: "fresh_rel s t \<Longrightarrow> fresh_rel t u \<Longrightarrow> fresh_rel s u"
  by (simp add: fresh_rel_def)

lemma fresh_relI:
  "(ws_state (fst t) = Active \<Longrightarrow> ws_state (fst s) = Active \<and> additional_send (fst t) = additional_send (fst s)) \<Longrightarrow>
   fresh_rel s t"
  by (auto simp: fresh_rel_def fresh_def)

lemma fresh_rel_and_then:
  assumes "fresh_rel s (snd p)" "\<And>a t. p = (Ok a, t) \<Longrightarrow> fresh_rel t (snd (k a t))"
  shows "fresh_rel s (snd (and_then p k))"
proof -
  obtain r t where "p = (r, t)" by (rule prod.exhaust)
  then show ?thesis using assms by (cases r) (auto intro: fresh_rel_trans)
qed

lemma ctx_buffer_frame_fresh: "fresh_rel s (snd (ctx_buffer_frame f s))"
proof -
  obtain x w r y v where s: "s = (x, w)" and b: "ctx_buffer_frame f (x, w) = (r, y, v)" by (metis prod.exhaust)
  then show ?thesis using additional_send_codec [OF ctx_buffer_frame_ctx [OF b]] by (intro fresh_relI) simp
qed

lemma pong_outgoing [simp]: "is_pong_frame (outgoing x w f) = is_pong_frame f"
  by (simp add: is_pong_frame_def)

lemma send_additional_fresh: "fresh_rel s (snd (send_additional s))"
proof -
  obtain x w where s: "s = (x, w)" by (rule prod.exhaust)
  show ?thesis
  proof (cases "additional_send x")
    case None
    then show ?thesis by (intro fresh_relI) (simp add: s send_additional_def)
  next
    case (Some msg)
    let ?x = "x\<lparr>additional_send := None\<rparr>"
    obtain r y v where b: "ctx_buffer_frame msg (?x, w) = (r, y, v)" by (metis prod.exhaust)
    note spec = ctx_buffer_frame_spec [OF b]
    have y: "additional_send y = None" "ws_state y = ws_state x"
      using additional_send_codec [OF ctx_buffer_frame_ctx [OF b]] by simp_all
    show ?thesis
    proof (cases "can_buffer (frame_codec ?x) (frame_len (outgoing ?x w msg))")
      case True
      then have "\<And>m. r \<noteq> Err (WriteBufferFull m)" using spec by auto
      then show ?thesis
        using Some b y by (auto simp: s send_additional_def fresh_rel_def fresh_def split: outcome.split error.split)
    next
      case False
      then have "r = Err (WriteBufferFull (RawFrame (outgoing ?x w msg)))" using spec by simp
      then show ?thesis
        using Some b y by (simp add: s send_additional_def fresh_rel_def fresh_def set_additional_def)
    qed
  qed
qed

lemma writes_only_Active: "writes_only s t \<Longrightarrow> ws_state (fst t) = Active \<Longrightarrow> ws_state (fst s) = Active"
  by (auto simp: writes_only_def)

lemma ctx_write_out_additional: "additional_send (fst (snd (ctx_write_out s))) = additional_send (fst s)"
  by (simp add: ctx_write_out_def split: prod.split)

lemma inner_write_fresh: "fresh_rel s (snd (inner_write data s))"
  unfolding inner_write_def
proof (rule fresh_rel_and_then)
  show "fresh_rel s (snd (case data of Some f \<Rightarrow> ctx_buffer_frame f s | None \<Rightarrow> (Ok (), s)))"
    by (simp add: ctx_buffer_frame_fresh fresh_relI split: option.split)
next
  fix a and t :: "('a, 'b) ws"
  show "fresh_rel t (snd (and_then (send_additional t) finish_write))"
  proof (rule fresh_rel_and_then [OF send_additional_fresh])
    fix b and u :: "('a, 'b) ws"
    have "fresh_rel u (snd (ctx_write_out u))"
      using writes_only_Active [OF ctx_write_out_writes_only [of u]] ctx_write_out_additional [of u]
      by (intro fresh_relI) simp
    then have "fresh_rel u (snd (and_then (ctx_write_out u)
        (\<lambda>_ (x, w). (Err ConnectionClosed :: bool result, x\<lparr>ws_state := Terminated\<rparr>, w))))"
      by (rule fresh_rel_and_then) (auto intro: fresh_relI)
    then show "fresh_rel u (snd (finish_write b u))" by (auto simp: finish_write_def intro: fresh_relI)
  qed
qed

lemma fetch_frame_fresh: "fresh_rel s (snd (fetch_frame s))"
proof -
  obtain x w where s: "s = (x, w)" by (rule prod.exhaust)
  obtain r c v where "read_frame (max_frame_size (cfg x)) (ctx_role x = Server)
      (accept_unmasked_frames (cfg x)) (frame_codec x, w) = (r, c, v)" by (metis prod.exhaust)
  then show ?thesis
    by (intro fresh_relI) (auto simp: s fetch_frame_def Let_def split: outcome.splits option.splits if_splits)
qed

text \<open>What handling a frame does to the reply and the state.\<close>

definition quiet_step :: "('c, 'd) ctx \<Rightarrow> ('c, 'd) ctx \<Rightarrow> bool" where
  "quiet_step x y \<longleftrightarrow> ws_state y = Terminated \<or>
     ws_state y = ws_state x \<and> additional_send y = additional_send x"

lemma quiet_step_same [simp]:
  "ws_state y = ws_state x \<Longrightarrow> additional_send y = additional_send x \<Longrightarrow> quiet_step x y"
  "ws_state y = Terminated \<Longrightarrow> quiet_step x y"
  by (simp_all add: quiet_step_def)

lemma quiet_step_trans: "quiet_step x y \<Longrightarrow> quiet_step y z \<Longrightarrow> quiet_step x z"
  by (auto simp: quiet_step_def)

lemma quiet_step_fresh: "quiet_step x y \<Longrightarrow> fresh x \<Longrightarrow> fresh y"
  by (auto simp: quiet_step_def fresh_def)

lemma quiet_discarded [simp]: "quiet_step x (fail_compression_on_discarded_frame f x)"
  by (simp add: fail_compression_on_discarded_frame_def Let_def)

lemma check_frame_quiet: "quiet_step x (snd (check_frame f x))"
  by (simp add: check_frame_def)

lemma check_frame_Ok: "check_frame f x = (Ok u, y) \<Longrightarrow> y = x \<and> can_read (ws_state x)"
  by (auto simp: check_frame_def split: if_splits)

lemma inflate_frame_quiet: "quiet_step x (snd (inflate_frame fl f x))"
proof -
  have d: "quiet_step x (snd (ctx_decompress fl b fin x))" for b fin
    by (auto simp: ctx_decompress_def Let_def split: option.split prod.split outcome.split)
  have p: "quiet_step x (snd (inflate_payload fl f x))"
    using d [of "payload f" "is_final (header f)"]
    by (cases "ctx_decompress fl (payload f) (is_final (header f)) x";
        cases "fst (ctx_decompress fl (payload f) (is_final (header f)) x)") (auto simp: inflate_payload_def)
  have r: "quiet_step y (remember_compressed d fin c y)" for d fin c y
    by (simp add: remember_compressed_def)
  show ?thesis
    using p r quiet_step_trans [OF p r]
    by (cases "inflate_payload fl f x"; cases "fst (inflate_payload fl f x)")
      (auto simp: inflate_frame_def Let_def split: opcode.split)
qed

lemma handle_data_quiet: "quiet_step x (snd (handle_data f d x))"
proof -
  have c: "quiet_step x (snd (collect_data f d x))"
    by (auto simp: collect_data_def split: data_op.split option.split prod.split)
  have dv: "quiet_step y (snd (deliver_data p fin y))" for p fin and y :: "('a, 'b) ctx"
    by (auto simp: deliver_data_def split: option.split prod.split outcome.split bool.split)
  show ?thesis
    using c quiet_step_trans [OF c dv]
    by (cases "collect_data f d x"; cases "fst (collect_data f d x)") (auto simp: handle_data_def)
qed

lemma handle_control_fresh:
  assumes "handle_control f ctl x = (r, y)" "fresh x"
  shows "fresh y"
proof -
  have dc: "fresh (snd (do_close c x))" for c
    using assms(2) by (simp add: do_close_def Let_def fresh_def split: ws_state.split)
  have pg: "fresh (set_additional (frame_pong d) x)" for d
    using assms(2) by (auto simp: fresh_def set_additional_def is_pong_frame_def frame_pong_def default_header_def)
  have "fresh (snd (and_then (do_close c z) (\<lambda>r x2. (Ok (map_option Close r) :: message option result, x2))))"
    if "z = x" for c z
    unfolding that by (rule and_then_inv [where I = fresh, OF dc]) simp
  then have cl: "fresh (snd (and_then (frame_into_close f, x) (\<lambda>close x1.
      and_then (do_close close x1) (\<lambda>r x2. (Ok (map_option Close r) :: message option result, x2)))))"
    using assms(2) by (cases "frame_into_close f") simp_all
  have "fresh (snd (handle_control f ctl x))"
    by (cases ctl) (simp_all add: handle_control_def assms(2) pg cl)
  then show ?thesis using assms(1) by simp
qed

lemma handle_frame_parts:
  obtains r where "fst (handle_frame fl f x) = Err r" "quiet_step x (snd (handle_frame fl f x))"
  | "fst (handle_frame fl f x) = Panic" "quiet_step x (snd (handle_frame fl f x))"
  | f1 y where "check_frame f x = (Ok (), x)" "inflate_frame fl f x = (Ok f1, y)" "quiet_step x y"
      "handle_frame fl f x = (case hdr_opcode (header f1) of
         ControlOp ctl \<Rightarrow> handle_control f1 ctl y | DataOp data \<Rightarrow> handle_data f1 data y)"
proof -
  obtain rc x1 where c: "check_frame f x = (rc, x1)" by fastforce
  have x1: "quiet_step x x1" using check_frame_quiet [of x f] c by simp
  obtain ri y where i: "inflate_frame fl f x1 = (ri, y)" by fastforce
  have y: "quiet_step x y" using quiet_step_trans [OF x1] inflate_frame_quiet [of x1 fl f] i by simp
  show thesis
  proof (cases rc)
    case (Ok u)
    then have "x1 = x" using check_frame_Ok c by blast
    then show ?thesis
      using c i y Ok that by (cases ri) (simp_all add: handle_frame_def)
  qed (use that x1 c in \<open>simp_all add: handle_frame_def\<close>)
qed

lemma handle_frame_fresh: "fresh_rel (x, w) (snd (handle_frame fl f x), w)"
proof (cases rule: handle_frame_parts [of fl f x])
  case (3 f1 y)
  have "fresh (snd (handle_frame fl f x))" if "fresh x"
  proof (cases "hdr_opcode (header f1)")
    case (ControlOp ctl)
    then show ?thesis
      using 3 handle_control_fresh [OF prod.collapse [symmetric]] quiet_step_fresh that by fastforce
  next
    case (DataOp d)
    then show ?thesis
      using 3 quiet_step_fresh [OF handle_data_quiet] quiet_step_fresh that by fastforce
  qed
  then show ?thesis by (simp add: fresh_rel_def)
qed (use quiet_step_fresh in \<open>auto simp: fresh_rel_def\<close>)

interpretation fr: engine_relation fl "\<lambda>_. True" fresh_rel for fl
proof unfold_locales
  show "fresh_rel s u" if "fresh_rel s t" "fresh_rel t u" for s t u :: "('a, 'b) ws"
    using that by (rule fresh_rel_trans)
  show "fresh_rel s (snd (ctx_write_out s))" for s :: "('a, 'b) ws"
    using writes_only_Active [OF ctx_write_out_writes_only [of s]] ctx_write_out_additional [of s]
    by (intro fresh_relI) simp
  show "fresh_rel s (snd (ctx_stream_flush s))" for s :: "('a, 'b) ws"
  proof -
    obtain r w1 where "stream_flush (snd s) = (r, w1)" by fastforce
    then show ?thesis by (cases r) (simp_all add: ctx_stream_flush_def fresh_rel_def)
  qed
  show "fresh_rel (x, w) (snd (prepare_data fl d opc x), w)" for fl d opc and x :: "('a, 'b) ctx" and w
    by (rule fresh_relI) (simp add: prepare_data_simps)
  show "fresh_rel (x, w) (set_additional (frame_pong d) x, w)" for d and x :: "('a, 'b) ctx" and w
    by (auto simp: fresh_rel_def fresh_def set_additional_def is_pong_frame_def frame_pong_def default_header_def)
qed (auto intro: fresh_relI inner_write_fresh fetch_frame_fresh handle_frame_fresh)

lemma reachable_fresh: "reachable fl r C s \<Longrightarrow> fresh (fst s)"
proof (induction rule: reachable.induct)
  case (start c fc x w)
  then show ?case by (auto simp: ctx_create_def bind_out_Ok_iff fresh_def split: if_splits)
next
  case (step s opn res t)
  then show ?case
    using fr.rel_run_op [of opn s fl] by (simp add: fresh_rel_def raw_ok_def split: ws_op.split message.split)
qed (auto simp: set_config_Ok_iff fresh_def)

lemma inflate_frame_control:
  assumes "inflate_frame fl f x = (Ok f1, y)" "hdr_opcode (header f1) = ControlOp ctl"
  shows "f1 = f \<and> y = x"
  using assms
  by (auto simp: inflate_frame_def inflate_payload_def frame_from_payload_def and_then_Ok_iff Let_def
      split: opcode.splits if_splits)

lemma handle_data_message:
  assumes "handle_data f d x = (Ok (Some msg), y)"
  shows "\<exists>b. msg = Text b \<or> msg = Binary b"
proof -
  obtain p z where "deliver_data p (is_final (header f)) z = (Ok (Some msg), y)"
    using assms by (auto simp: handle_data_def and_then_Ok_iff)
  then show ?thesis
    by (auto simp: deliver_data_def im_complete_def bind_out_Ok_iff
        split: option.splits bool.splits prod.splits outcome.splits message_type.splits collector.splits)
qed

text \<open>A control message that comes out of \<open>handle_frame\<close> has passed through \<open>handle_control\<close>.\<close>

lemma control_delivered:
  assumes "handle_frame fl f x = (Ok (Some msg), y)" "\<And>b. msg \<noteq> Text b" "\<And>b. msg \<noteq> Binary b"
  shows "can_read (ws_state x) \<and> (\<exists>ctl. hdr_opcode (header f) = ControlOp ctl \<and> handle_control f ctl x = (Ok (Some msg), y))"
proof (cases rule: handle_frame_parts [of fl f x])
  case (3 f1 z)
  have read: "can_read (ws_state x)" using check_frame_Ok [OF 3(1)] by blast
  show ?thesis
  proof (cases "hdr_opcode (header f1)")
    case (ControlOp ctl)
    then have "f1 = f \<and> z = x" using inflate_frame_control [OF 3(2)] by blast
    then show ?thesis using 3(4) ControlOp assms(1) read by simp
  next
    case (DataOp d)
    then have "handle_data f1 d z = (Ok (Some msg), y)" using 3(4) assms(1) by simp
    then show ?thesis using handle_data_message assms(2,3) by blast
  qed
qed (use assms(1) in simp_all)

lemma ping_delivered:
  assumes "handle_frame fl f x = (Ok (Some (Ping d)), y)" "fresh x" "ws_state y = Active"
  shows "additional_send y = Some (frame_pong d)"
proof -
  obtain ctl where h: "handle_control f ctl x = (Ok (Some (Ping d)), y)"
    using control_delivered [OF assms(1)] by auto
  then have y: "payload f = d" "y = (if is_active (ws_state x) then set_additional (frame_pong d) x else x)"
    by (cases ctl; auto simp: handle_control_def and_then_Ok_iff split: if_splits)+
  then have "ws_state x = Active" using assms(3) by (simp split: if_splits)
  then show ?thesis using y assms(2) by (auto simp: set_additional_def fresh_def split: option.split)
qed

lemma close_delivered:
  assumes "handle_frame fl f x = (Ok (Some (Close c)), y)" "fresh x"
  shows "ws_state y = ClosedByPeer \<and> additional_send y = Some (frame_close c) \<or>
    ws_state y = CloseAcknowledged \<and> additional_send y = additional_send x"
proof -
  obtain ctl where read: "can_read (ws_state x)" and h: "handle_control f ctl x = (Ok (Some (Close c)), y)"
    using control_delivered [OF assms(1)] by auto
  obtain close where d: "do_close close x = (Ok (Some c), y)"
    using h by (cases ctl) (auto simp: handle_control_def and_then_Ok_iff split: if_splits)
  show ?thesis
  proof (cases "ws_state x")
    case Active
    then show ?thesis
      using d assms(2) by (auto simp: do_close_def Let_def set_additional_def fresh_def split: option.splits)
  next
    case ClosedByUs
    then show ?thesis using d by (auto simp: do_close_def)
  qed (use read in simp_all)
qed

section \<open>Properties\<close>

lemma read_step: "reachable fl r C s \<Longrightarrow> ctx_read fl s = (Ok msg, t) \<Longrightarrow> reachable fl r C t"
  by (erule reachable.step [of _ _ _ _ OpRead "Ok (Some msg)"]) (simp add: run_op_def)



text \<open>
  Claim C38. A close frame can be lost: when it does not fit into the write buffer, \<open>close\<close> hands
  it back with \<open>WriteBufferFull\<close> but has already left the active state. Nothing is queued, a
  second \<open>close\<close> is only a flush, and \<open>write\<close> refuses the returned frame, so the connection
  waits for an acknowledgement of a close frame that the peer never gets.
\<close>

theorem close_frame_lost:
  assumes "ws_state x = Active"
    and "\<not> can_buffer (frame_codec x) (frame_len (outgoing x w (frame_close code)))"
  shows "\<exists>f y v. ctx_close code (x, w) = (Err (WriteBufferFull (RawFrame f)), y, v) \<and>
    ws_state y = ClosedByUs \<and> additional_send y = additional_send x \<and> sent v = sent w \<and>
    out_buffer (frame_codec y) = out_buffer (frame_codec x) \<and>
    (\<forall>code' w'. ctx_close code' (y, w') = ctx_flush (y, w')) \<and>
    (\<forall>w'. ctx_write fl (RawFrame f) (y, w') = (Err (Protocol SendAfterClosing), y, w'))"
proof -
  let ?x = "x\<lparr>ws_state := ClosedByUs\<rparr>" and ?f = "outgoing x w (frame_close code)"
  have o: "outgoing ?x w g = outgoing x w g" for g by (simp add: outgoing_def)
  obtain r y v where b: "ctx_buffer_frame (frame_close code) (?x, w) = (r, y, v)" by (metis prod.exhaust)
  note spec = ctx_buffer_frame_spec [OF b, unfolded o]
  have y: "ws_state y = ClosedByUs" "additional_send y = additional_send x"
    using additional_send_codec [OF ctx_buffer_frame_ctx [OF b]] by simp_all
  have "r = Err (WriteBufferFull (RawFrame ?f))" "frame_codec y = frame_codec x" "ws_sent (y, v) = ws_sent (?x, w)"
    using spec assms(2) by simp_all
  then show ?thesis
    using b y assms(1)
    by (intro exI [of _ ?f] exI [of _ y] exI [of _ v])
      (simp add: ctx_close_def inner_write_def ctx_write_def ws_sent_def stream_so_far_def)
qed

theorem close_frame_lost_witness:
  "\<exists>f y v. ctx_close None (small_ctx Server [] (replicate 19 0), idle_world) =
      (Err (WriteBufferFull (RawFrame f)), y, v) \<and> ws_state y = ClosedByUs \<and> additional_send y = None"
  using close_frame_lost [of "small_ctx Server [] (replicate 19 0)" idle_world None, where fl = copying]
  by (fastforce simp: small_ctx_def can_buffer_def outgoing_def frame_len_def header_len_def frame_close_def
      default_header_def for_length_def sat_add_def usize_max_eq)

text \<open>A server with a ping in its buffer, and one with a close frame.\<close>

lemma idle_accepting: "accepting idle_world"
  by (simp add: accepting_def idle_world_def)

lemma sample_ping:
  "\<exists>y. ctx_read copying (small_ctx Server [0x89, 0x81, 1, 1, 1, 1, 0x40] [], idle_world) = (Ok (Ping [0x41]), (y, idle_world)) \<and>
     ws_state y = Active \<and> additional_send y = Some (frame_pong [0x41]) \<and> ctx_role y = Server \<and>
     out_buffer (frame_codec y) = [] \<and> max_out_buffer_len (frame_codec y) = 20"
proof -
  have m: "apply_mask (1, 1, 1, 1) [0x40] = [0x41 :: u8]" by (simp add: apply_mask_eq)
  show ?thesis
    by (simp add: read_one_simps handle_one_simps small_ctx_def small_config_def default_config_def codec_new_def
        frame_from_payload_def is_masked_def m set_additional_def)
qed


lemma sample_close:
  "\<exists>y. ctx_read copying (small_ctx Server [0x88, 0x80, 1, 1, 1, 1] [], idle_world) = (Ok (Close None), (y, idle_world)) \<and>
     ws_state y = ClosedByPeer \<and> additional_send y = Some (frame_close None) \<and> ctx_role y = Server \<and>
     out_buffer (frame_codec y) = [] \<and> max_out_buffer_len (frame_codec y) = 20"
proof -
  have m: "apply_mask (1, 1, 1, 1) [] = []" by (simp add: apply_mask_eq)
  show ?thesis
    by (simp add: read_one_simps handle_one_simps small_ctx_def small_config_def default_config_def codec_new_def
        frame_from_payload_def is_masked_def m set_additional_def frame_into_close_def do_close_def)
qed


end
