(* ===== verification/Message_Exchange.thy ===== *)
theory Message_Exchange
  imports WebSocket_Closing
begin

text \<open>
  The two ends of a connection together: a message that one endpoint sends is the message the
  other endpoint reads, through masking, framing, the write buffer, any chunking of the
  stream, the frame parser and the assembly of messages.
\<close>

section \<open>The frame that carries a message\<close>

fun carrier :: "message \<Rightarrow> frame option" where
  "carrier (Text d) = Some (data_frame d TextOp)"
| "carrier (Binary d) = Some (data_frame d BinaryOp)"
| "carrier (Ping d) = Some (frame_ping d)"
| "carrier _ = None"

definition ready_to_send :: "('c, 'd) ctx \<Rightarrow> bool" where
  "ready_to_send x \<longleftrightarrow> ws_state x = Active \<and> deflate x = None \<and> additional_send x = None \<and>
     \<not> compression_unusable x"

definition ready_to_read :: "('c, 'd) ctx \<Rightarrow> bool" where
  "ready_to_read z \<longleftrightarrow> assembles z \<and> incomplete_msg z = None \<and> additional_send z = None \<and>
     \<not> unflushed_additional z \<and> codec_header (frame_codec z) = None"

section \<open>Sending\<close>

lemma flush_idle:
  assumes "accepting w" "ready_to_send x"
  shows "\<exists>y v. ctx_flush (x, w) = (Ok (), y, v) \<and> sent v = sent w @ out_buffer (frame_codec x) \<and>
    out_buffer (frame_codec y) = [] \<and> ready_to_send y \<and> accepting v"
proof -
  have f: "reply_fits x w" "pending_reply x w = []" "\<not> server_done x" "\<not> compression_unusable x"
    using assms(2) by (simp_all add: ready_to_send_def reply_fits_def pending_reply_def server_done_def)
  obtain y v where y: "ctx_flush (x, w) = (Ok (), y, v)" "sent v = sent w @ out_buffer (frame_codec x)"
      "additional_send y = None" "out_buffer (frame_codec y) = []" "ws_state y = ws_state x" "accepting v"
    using ctx_flush_accepting [OF assms(1) f(1,4)] f by auto
  have "writes_only (x, w) (y, v)" using ctx_flush_writes_only [of "(x, w)"] y(1) by simp
  then have "ready_to_send y" using assms(2) y by (simp add: ready_to_send_def writes_only_def)
  with y show ?thesis by blast
qed

lemma write_frame_ready:
  assumes "accepting w" "ready_to_send x" "can_buffer (frame_codec x) (frame_len (outgoing x w g))"
  shows "\<exists>y v. write_frame g (x, w) = (Ok (), y, v) \<and> accepting v \<and> ready_to_send y \<and>
    sent v @ out_buffer (frame_codec y) = sent w @ out_buffer (frame_codec x) @ wire (outgoing x w g)"
proof -
  obtain c v where b: "ctx_buffer_frame g (x, w) = (Ok (), x\<lparr>frame_codec := c\<rparr>, v)" "accepting v"
      "sent v @ out_buffer c = sent w @ out_buffer (frame_codec x) @ wire (outgoing x w g)"
    using ctx_buffer_frame_accepting [OF assms(1,3)] by blast
  let ?x = "x\<lparr>frame_codec := c\<rparr>"
  have r: "ready_to_send ?x" using assms(2) by (simp add: ready_to_send_def)
  have i: "inner_write (Some g) (x, w) = (Ok (unflushed_additional x), ?x, v)"
    using b(1) assms(2)
    by (simp add: inner_write_def send_additional_def finish_write_def ready_to_send_def)
  show ?thesis
  proof (cases "unflushed_additional x")
    case True
    then show ?thesis using flush_idle [OF b(2) r] b(3) i by (auto simp: write_frame_def)
  next
    case False
    then show ?thesis using b r i by (auto simp: write_frame_def)
  qed
qed

lemma ctx_write_carrier:
  assumes "ready_to_send x" "carrier msg = Some g"
  shows "ctx_write fl msg (x, w) = write_frame g (x, w)"
  using assms
  by (cases msg) (auto simp: ctx_write_def write_data_def prepare_data_def ready_to_send_def data_frame_def)

lemma send_ready:
  assumes "accepting w" "ready_to_send x" "carrier msg = Some g"
    and "can_buffer (frame_codec x) (frame_len (outgoing x w g))"
  shows "\<exists>y v. websocket_send fl msg (x, w) = (Ok (), y, v) \<and> ready_to_send y \<and>
    out_buffer (frame_codec y) = [] \<and>
    sent v = sent w @ out_buffer (frame_codec x) @ wire (outgoing x w g)"
proof -
  obtain y v where y: "write_frame g (x, w) = (Ok (), y, v)" "accepting v" "ready_to_send y"
      "sent v @ out_buffer (frame_codec y) = sent w @ out_buffer (frame_codec x) @ wire (outgoing x w g)"
    using write_frame_ready [OF assms(1,2,4)] by blast
  then show ?thesis
    using flush_idle [OF y(2,3)] ctx_write_carrier [OF assms(2,3)] by (auto simp: websocket_send_def)
qed

section \<open>Receiving\<close>

text \<open>The wire form of \<open>g\<close> with some mask, as the role of the reader demands.\<close>

definition masked_as :: "role \<Rightarrow> frame \<Rightarrow> frame \<Rightarrow> bool" where
  "masked_as reader g f \<longleftrightarrow> payload f = payload g \<and>
     header f = (header g)\<lparr>hdr_mask := hdr_mask (header f)\<rparr> \<and>
     (is_some (hdr_mask (header f)) \<longleftrightarrow> reader = Server)"

lemma fetch_wire:
  assumes "codec_header (frame_codec z) = None" "masked_as (ctx_role z) g f" "hdr_mask (header g) = None" "wire_frame f"
    and "length (payload g) \<le> read_limit (max_frame_size (cfg z))"
    and "in_ok (read_limit (max_frame_size (cfg z))) (frame_codec z) u"
    and "chunked chunks tail u" "in_buffer (frame_codec z) @ concat chunks = wire f @ rest"
  shows "\<exists>c u' chunks'. fetch_frame (z, u) = (Ok g, z\<lparr>frame_codec := c\<rparr>, u') \<and> codec_header c = None \<and>
    in_ok (read_limit (max_frame_size (cfg z))) c u' \<and> chunked chunks' tail u' \<and> in_buffer c @ concat chunks' = rest"
proof -
  let ?lim = "read_limit (max_frame_size (cfg z))"
  have f: "payload f = payload g" "header f = (header g)\<lparr>hdr_mask := hdr_mask (header f)\<rparr>"
    "is_some (hdr_mask (header f)) \<longleftrightarrow> ctx_role z = Server"
    using assms(2) by (simp_all add: masked_as_def)
  have nf: "next_frame ?lim (codec_header (frame_codec z)) (in_buffer (frame_codec z) @ concat chunks) =
      GotFrame (header f) (wire_payload f) rest"
    using next_frame_wire [OF assms(4), of ?lim rest] assms(1,5,8) f(1) by simp
  obtain c u' chunks' where l: "read_loop ?lim (frame_codec z, u) = (Ok (Some (wire_payload f)), c, u')"
      "codec_header c = Some (header f, length (wire_payload f))" "in_ok ?lim (c\<lparr>codec_header := None\<rparr>) u'"
      "chunked chunks' tail u'" "in_buffer c @ concat chunks' = rest"
    using read_loop_spec [OF assms(6,7)] nf by auto
  have g: "(header f)\<lparr>hdr_mask := None\<rparr> = header g"
    using assms(3) by (subst f(2)) (cases "header g"; simp)
  have "deliver (ctx_role z = Server) (accept_unmasked_frames (cfg z)) (header f) (wire_payload f) = Ok g"
  proof (cases "ctx_role z")
    case Server
    then show ?thesis using f g by (simp add: deliver_def)
  next
    case Client
    then have "hdr_mask (header f) = None" using f(3) by (cases "hdr_mask (header f)") simp_all
    then have "wire_payload f = payload f" "header f = header g"
      using f(2) g by (simp_all add: wire_payload_def)
    then show ?thesis using Client f(1) by (simp add: deliver_def)
  qed
  then have "read_frame (max_frame_size (cfg z)) (ctx_role z = Server) (accept_unmasked_frames (cfg z)) (frame_codec z, u)
      = (Ok (Some g), c\<lparr>codec_header := None\<rparr>, u')"
    using read_frame_of_loop [OF l(1,2)] by simp
  then have "fetch_frame (z, u) = (Ok g, z\<lparr>frame_codec := c\<lparr>codec_header := None\<rparr>\<rparr>, u')"
    by (simp add: fetch_frame_def check_connection_reset_def Let_def)
  with l show ?thesis
    by (intro exI [of _ "c\<lparr>codec_header := None\<rparr>"] exI [of _ u'] exI [of _ chunks']) simp
qed

lemma carrier_assembles:
  assumes "carrier msg = Some g" "message_ok lim msg" "length (payload g) \<le> usize_max"
  shows "assembly_step lim None g = Some (Some msg, None)"
proof (cases msg)
  case (Text d)
  then show ?thesis
    using assms hopeless_not_valid [of d]
    by (auto simp: assembly_step_def assemble_def assembly_fits_def data_frame_def frame_message_def within_def
        default_header_def im_max_def split: option.split)
next
  case (Binary d)
  then show ?thesis
    using assms
    by (auto simp: assembly_step_def assemble_def assembly_fits_def data_frame_def frame_message_def within_def
        default_header_def im_max_def split: option.split)
next
  case (Ping d)
  then show ?thesis using assms by (auto simp: assembly_step_def frame_ping_def default_header_def)
qed (use assms(1) in simp_all)

lemma carrier_frame:
  assumes "carrier msg = Some g"
  shows "hdr_mask (header g) = None" "\<not> rsv1 (header g)" "\<not> rsv2 (header g)" "\<not> rsv3 (header g)"
    "hdr_opcode (header g) \<noteq> ControlOp CloseOp" "defined_opcode (hdr_opcode (header g))"
  using assms
  by (cases msg; auto simp: data_frame_def frame_message_def frame_ping_def default_header_def)+

lemma read_wire:
  assumes "ready_to_read z" "masked_as (ctx_role z) g f" "carrier msg = Some g"
    and "message_ok (max_message_size (cfg z)) msg"
    and "length (payload g) \<le> read_limit (max_frame_size (cfg z))"
    and "in_ok (read_limit (max_frame_size (cfg z))) (frame_codec z) u"
    and "chunked chunks tail u" "in_buffer (frame_codec z) @ concat chunks = wire f @ rest"
  shows "\<exists>z' u' chunks'. ctx_read fl (z, u) = (Ok msg, z', u') \<and> ws_state z' = ws_state z \<and>
    chunked chunks' tail u' \<and> in_buffer (frame_codec z') @ concat chunks' = rest"
proof -
  note car = carrier_frame [OF assms(3)]
  have small: "length (payload g) \<le> usize_max"
    using assms(5,6) isize_less_usize by (simp add: in_ok_def)
  moreover have "header f = (header g)\<lparr>hdr_mask := hdr_mask (header f)\<rparr>" "payload f = payload g"
    using assms(2) by (simp_all add: masked_as_def)
  then have "hdr_opcode (header f) = hdr_opcode (header g)" "payload f = payload g"
    by (cases "header f"; cases "header g"; simp)+
  ultimately have wf: "wire_frame f"
    using car by (simp add: wire_frame_def wire_header_def usize_max_eq)
  obtain c u' chunks' where f: "fetch_frame (z, u) = (Ok g, z\<lparr>frame_codec := c\<rparr>, u')"
      "chunked chunks' tail u'" "in_buffer c @ concat chunks' = rest"
    using fetch_wire [OF _ assms(2) car(1) wf assms(5-8)] assms(1) by (auto simp: ready_to_read_def)
  let ?z = "z\<lparr>frame_codec := c\<rparr>"
  have z: "assembles ?z" "assembly_of ?z = None" "cfg ?z = cfg z"
    using assms(1) by (simp_all add: ready_to_read_def assembles_def assembly_of_def assembling_ok_def)
  have "plain_frame (ctx_role ?z) g"
    using car small by (simp add: plain_frame_def is_masked_def)
  from handle_frame_matches [OF z(1) this, of fl] carrier_assembles [OF assms(3,4) small]
  obtain y where y: "handle_frame fl g ?z = (Ok (Some msg), y)" "ws_state y = ws_state z"
    using z(2,3) by (cases "handle_frame fl g ?z"; cases "fst (handle_frame fl g ?z)") (auto simp: matches_step_def)
  have "read_message_frame fl (z, u) = (Ok (Some msg), y, u')"
    using f(1) y by (simp add: read_message_frame_def)
  moreover have "before_read (z, u) = (Ok (), z, u)" "ws_state z \<noteq> Terminated"
    using assms(1) by (auto simp: before_read_def ready_to_read_def assembles_def)
  ultimately have "ctx_read fl (z, u) = (Ok msg, y, u')"
    by (simp add: ctx_read_def read_messages.simps [of fl "(z, u)"])
  moreover have "frame_codec y = c" using handle_frame_codec [of fl g ?z] y(1) by simp
  ultimately show ?thesis using f y(2) by auto
qed

lemma outgoing_masked:
  assumes "hdr_mask (header g) = None" "ctx_role z \<noteq> ctx_role x"
  shows "masked_as (ctx_role z) g (outgoing x w g)"
proof (cases "ctx_role x")
  case Client
  then have "ctx_role z = Server" using assms(2) by (cases "ctx_role z") simp_all
  then show ?thesis
    using Client by (simp add: masked_as_def outgoing_def set_random_mask_def header_set_random_mask_def)
next
  case Server
  then have "ctx_role z = Client" using assms(2) by (cases "ctx_role z") simp_all
  then show ?thesis using Server assms(1) by (cases "header g") (simp add: masked_as_def)
qed

text \<open>
  A message arrives: when one endpoint sends a text, binary or ping message that fits
  its write buffer, on a stream that accepts bytes, then the bytes that \<open>send\<close> adds to the wire
  make the other endpoint, whatever its chunks and whatever follows, read exactly this message
  and leave what follows for the next \<open>read\<close>. This holds from client to server, through the
  masking, and from server to client.
\<close>

theorem message_arrives:
  assumes "ready_to_send x" "accepting w" "carrier msg = Some g"
    and "can_buffer (frame_codec x) (frame_len (outgoing x w g))"
    and "ready_to_read z" "ctx_role z \<noteq> ctx_role x" "message_ok (max_message_size (cfg z)) msg"
    and "length (payload g) \<le> read_limit (max_frame_size (cfg z))"
  shows "\<exists>y v added. websocket_send fl msg (x, w) = (Ok (), y, v) \<and>
    sent v = sent w @ out_buffer (frame_codec x) @ added \<and>
    (\<forall>u chunks tail rest.
       in_ok (read_limit (max_frame_size (cfg z))) (frame_codec z) u \<and> chunked chunks tail u \<and>
       in_buffer (frame_codec z) @ concat chunks = added @ rest \<longrightarrow>
       (\<exists>z' u' chunks'. ctx_read fl' (z, u) = (Ok msg, z', u') \<and> ws_state z' = ws_state z \<and>
          chunked chunks' tail u' \<and> in_buffer (frame_codec z') @ concat chunks' = rest))"
proof -
  obtain y v where "websocket_send fl msg (x, w) = (Ok (), y, v)"
      "sent v = sent w @ out_buffer (frame_codec x) @ wire (outgoing x w g)"
    using send_ready [OF assms(2,1,3,4)] by blast
  moreover have "masked_as (ctx_role z) g (outgoing x w g)"
    by (rule outgoing_masked [OF carrier_frame(1) [OF assms(3)] assms(6)])
  ultimately show ?thesis
    using read_wire [OF assms(5) _ assms(3,7,8)] by blast
qed

text \<open>A client says hello to a server in two chunks.\<close>

definition hello :: message where
  "hello = Text [0x48, 0x69]"

theorem message_arrives_witness:
  "\<exists>y v added. websocket_send copying hello (small_ctx Client [] [], idle_world) = (Ok (), y, v) \<and>
    sent v = added \<and>
    (\<exists>z' u'. ctx_read copying (small_ctx Server [] [], idle_world\<lparr>reads := [RdBytes added]\<rparr>) = (Ok hello, z', u'))"
proof -
  let ?x = "small_ctx Client [] []" and ?z = "small_ctx Server [] []" and ?g = "data_frame [0x48, 0x69] TextOp"
  have v: "valid_utf8 [0x48, 0x69]" by (simp add: valid_utf8_cons utf8_head_def)
  have send: "ready_to_send ?x" "carrier hello = Some ?g"
    "can_buffer (frame_codec ?x) (frame_len (outgoing ?x idle_world ?g))"
    by (simp_all add: ready_to_send_def small_ctx_def hello_def can_buffer_def outgoing_def set_random_mask_def
        header_set_random_mask_def frame_len_def header_len_def data_frame_def frame_message_def for_length_def
        sat_add_def usize_max_eq codec_new_def)
  have read: "ready_to_read ?z" "ctx_role ?z \<noteq> ctx_role ?x" "message_ok (max_message_size (cfg ?z)) hello"
    "length (payload ?g) \<le> read_limit (max_frame_size (cfg ?z))"
    using v small_assembles [of Server "[]" "[]"]
    by (simp_all add: ready_to_read_def) (simp_all add: small_ctx_def codec_new_def hello_def within_def
        small_config_def default_config_def data_frame_def frame_message_def read_limit_def)
  from message_arrives [OF send(1) idle_accepting send(2,3) read, of copying copying]
  obtain y v added where y: "websocket_send copying hello (?x, idle_world) = (Ok (), y, v)"
      "sent v = sent idle_world @ out_buffer (frame_codec ?x) @ added"
      "\<And>u chunks tail rest. in_ok (read_limit (max_frame_size (cfg ?z))) (frame_codec ?z) u \<Longrightarrow> chunked chunks tail u \<Longrightarrow>
         in_buffer (frame_codec ?z) @ concat chunks = added @ rest \<Longrightarrow> \<exists>z' u'. ctx_read copying (?z, u) = (Ok hello, z', u')"
    by blast
  have "sent v = added" using y(2) by (simp add: idle_world_def small_ctx_def)
  moreover have "added \<noteq> [] \<and> length added \<le> 100"
  proof -
    have "added = wire (outgoing ?x idle_world ?g)"
      using send_ready [OF idle_accepting send, of copying] y(1,2) by auto
    then have "length added = frame_len (outgoing ?x idle_world ?g)" by (simp add: length_wire)
    then have "length added = 8"
      by (simp add: outgoing_def small_ctx_def set_random_mask_def header_set_random_mask_def frame_len_def
          header_len_def data_frame_def frame_message_def for_length_def)
    then show ?thesis by auto
  qed
  ultimately show ?thesis using y(1) y(3) [of "idle_world\<lparr>reads := [RdBytes added]\<rparr>" "[added]" "[]" "[]"]
    by (auto simp: in_ok_def chunked_def small_ctx_def codec_new_def idle_world_def read_limit_def small_config_def
        default_config_def header_max_size_def isize_max_def usize_bits_def)
qed

end
