(* ===== verification/Deflate_Bounds.thy ===== *)
theory Deflate_Bounds
  imports Deflate_Codec
begin

text \<open>
  How far the two loops of \<open>compress\<close> can go: with a compressor that keeps its documented
  bounds, compressing a message returns, and its output is bounded by the message.
\<close>

section \<open>The contract of the compressor\<close>

text \<open>
  \<open>Compress::compress\<close> takes a prefix of the input, and every byte it ever writes is paid for by
  a byte it has taken: \<open>held c\<close> bounds what the state \<open>c\<close> may still write without new input. It is
  at most \<open>L\<close>, the size of the compressor's buffers, and deflate writes less than 16 bytes
  for a byte (a flush marker with its single byte being the worst case).
\<close>

definition compress_within :: "('c, 'd) flate \<Rightarrow> ('c \<Rightarrow> nat) \<Rightarrow> bool" where
  "compress_within fl held \<longleftrightarrow> (\<forall>c input sync.
     case compress_call fl c input sync of
       (Ok (st, consumed, out), c') \<Rightarrow>
         consumed \<le> length input \<and> held c' + length out \<le> held c + 16 * consumed
     | (Err _, _) \<Rightarrow> True
     | (Panic, _) \<Rightarrow> False)"

definition compress_fits :: "('c, 'd) flate \<Rightarrow> nat \<Rightarrow> bool" where
  "compress_fits fl L \<longleftrightarrow> (\<exists>held. compress_within fl held \<and> (\<forall>c. held c \<le> L))"

text \<open>The bytes there may be in the end, while \<open>input\<close> is left and \<open>output\<close> is written.\<close>

abbreviation may_reach :: "('c \<Rightarrow> nat) \<Rightarrow> 'c \<Rightarrow> bytes \<Rightarrow> bytes \<Rightarrow> nat" where
  "may_reach held c output input \<equiv> held c + length output + 16 * length input"

lemma compress_step_within:
  assumes "compress_within fl held" "may_reach held c output input \<le> B" "B + CHUNK \<le> isize_max"
  shows "case compress_step fl input sync output c of
      (Ok (go, input', output'), c') \<Rightarrow> may_reach held c' output' input' \<le> B
    | (Err e, _) \<Rightarrow> e = Protocol Compression
    | (Panic, _) \<Rightarrow> False"
proof -
  have call: "case compress_call fl c input sync of
       (Ok (st, consumed, out), c') \<Rightarrow>
         consumed \<le> length input \<and> held c' + length out \<le> held c + 16 * consumed
     | (Err _, _) \<Rightarrow> True | (Panic, _) \<Rightarrow> False"
    using assms(1) unfolding compress_within_def by (elim allE)
  have room: "\<not> length output + CHUNK > isize_max" using assms(2,3) by simp
  obtain r c1 where cc: "compress_call fl c input sync = (r, c1)" by fastforce
  show ?thesis
  proof (cases r)
    case (Ok v)
    obtain st consumed out where v: "v = (st, consumed, out)" by (cases v)
    have le: "consumed \<le> length input" "held c1 + length out \<le> held c + 16 * consumed"
      using call cc Ok v by simp_all
    then have "may_reach held c1 (output @ out) (drop consumed input) \<le> B" using assms(2) by simp
    moreover have "made_progress st consumed (length out) = Err e \<Longrightarrow> e = Protocol Compression" for e
      by (auto simp: made_progress.simps split: if_splits status.splits)
    ultimately show ?thesis
      using cc Ok v room le(1)
      by (cases "made_progress st consumed (length out)") (simp_all add: compress_step_def)
  qed (use call cc room in \<open>simp_all add: compress_step_def\<close>)
qed

lemma compress_input_within:
  assumes "compress_within fl held" "B + CHUNK \<le> isize_max" "may_reach held c output input \<le> B"
  shows "case compress_input fl input output c of
      (Ok out, c') \<Rightarrow> may_reach held c' out [] \<le> B
    | (Err e, _) \<Rightarrow> e = Protocol Compression
    | (Panic, _) \<Rightarrow> False"
  using assms
proof (induction fl input "output" c rule: compress_input.induct)
  case (1 fl input out0 c)
  show ?case
  proof (cases "input = []")
    case False
    note step = compress_step_within [OF "1.prems"(1,3,2), of False]
    obtain r c1 where s: "compress_step fl input False out0 c = (r, c1)" by fastforce
    show ?thesis
    proof (cases r)
      case (Ok v)
      obtain go input1 output1 where v: "v = (go, input1, output1)" by (cases v)
      have le: "may_reach held c1 output1 input1 \<le> B" using step s Ok v by simp
      then have "may_reach held c1 output1 [] \<le> B" by simp
      moreover have "case compress_input fl input1 output1 c1 of
          (Ok out, c') \<Rightarrow> may_reach held c' out [] \<le> B
        | (Err e, _) \<Rightarrow> e = Protocol Compression | (Panic, _) \<Rightarrow> False" if "go"
        by (rule "1.IH" [OF False s [symmetric] Ok v [symmetric] refl that "1.prems"(1,2) le])
      ultimately show ?thesis using False s Ok v by (simp add: compress_input.simps [of fl input])
    qed (use step s False in \<open>simp_all add: compress_input.simps [of fl input]\<close>)
  qed (use "1.prems" in \<open>simp add: compress_input.simps\<close>)
qed

lemma compress_flush_within:
  assumes "compress_within fl held" "B + CHUNK \<le> isize_max" "may_reach held c output [] \<le> B"
  shows "case compress_flush fl output c of
      (Ok out, c') \<Rightarrow> may_reach held c' out [] \<le> B
    | (Err e, _) \<Rightarrow> e = Protocol Compression
    | (Panic, _) \<Rightarrow> False"
  using assms
proof (induction fl "output" c rule: compress_flush.induct)
  case (1 fl out0 c)
  note step = compress_step_within [OF "1.prems"(1,3,2), of True]
  obtain r c1 where s: "compress_step fl [] True out0 c = (r, c1)" by fastforce
  show ?case
  proof (cases r)
    case (Ok v)
    obtain go input1 output1 where v: "v = (go, input1, output1)" by (cases v)
    have le: "may_reach held c1 output1 [] \<le> B" using step s Ok v by simp
    have "case compress_flush fl output1 c1 of
        (Ok out, c') \<Rightarrow> may_reach held c' out [] \<le> B
      | (Err e, _) \<Rightarrow> e = Protocol Compression | (Panic, _) \<Rightarrow> False" if "go"
      by (rule "1.IH" [OF s [symmetric] Ok v [symmetric] refl that "1.prems"(1,2) le])
    then show ?thesis using s Ok v le by (simp add: compress_flush.simps [of fl out0])
  qed (use step s in \<open>simp_all add: compress_flush.simps [of fl out0]\<close>)
qed

text \<open>Compressing a message that leaves room in the address space returns.\<close>

lemma compress_bounded:
  assumes "compress_fits fl L" "L + 16 * length input + CHUNK \<le> isize_max"
  shows "case compress fl input s of
      (Ok output, _) \<Rightarrow> length output \<le> L + 16 * length input + 1
    | (Err e, _) \<Rightarrow> e = Protocol Compression
    | (Panic, _) \<Rightarrow> False"
proof -
  obtain held where h: "compress_within fl held" "\<And>c. held c \<le> L"
    using assms(1) by (auto simp: compress_fits_def)
  let ?B = "L + 16 * length input"
  show ?thesis
  proof (cases "input = []")
    case False
    have start: "may_reach held (encoder s) [] input \<le> ?B" using h(2) by simp
    note first = compress_input_within [OF h(1) assms(2) start]
    obtain r c1 where i: "compress_input fl input [] (encoder s) = (r, c1)" by fastforce
    show ?thesis
    proof (cases r)
      case (Ok out)
      then have "may_reach held c1 out [] \<le> ?B" using first i by simp
      from compress_flush_within [OF h(1) assms(2) this]
      show ?thesis
        using i Ok False by (auto simp: compress_def split: outcome.splits prod.splits)
    qed (use first i False in \<open>simp_all add: compress_def\<close>)
  qed (simp add: compress_def)
qed

lemma copying_compress_fits: "compress_fits copying L"
  by (rule compress_fits_def [THEN iffD2])
    (intro exI [of _ "\<lambda>_. 0"], simp add: compress_within_def copying_def)

end
