(* ===== verification/WebSocket_Safety.thy ===== *)
theory WebSocket_Safety
  imports Message_Exchange Deflate_Bounds
begin

text \<open>
  No operation of a connection panics: neither the bytes of the peer, nor the chunks and
  failures of the stream, nor the messages of the application reach one of the \<open>expect\<close>s,
  \<open>unreachable!\<close>s and slices of the engine, the frame codec and the compression codec. What
  the theorem needs is that \<open>flate2\<close> keeps its contract and that the address space holds the
  buffers, which the limits of the configuration see to; without a limit on frames a
  peer does make \<open>read\<close> panic. The invariant does not tie what is held to the limits of the
  configuration, so it survives a change of them.
\<close>

section \<open>Calls that do not panic\<close>

definition safe :: "('e, 'a) outcome \<times> 's \<Rightarrow> bool" where
  "safe p \<longleftrightarrow> fst p \<noteq> Panic"

named_theorems safe_rules \<open>calls that do not panic\<close>

lemma safe_simps [simp]: "safe (Ok a, s)" "safe (Err e, s)" "\<not> safe (Panic, s)"
  by (simp_all add: safe_def)

lemma safe_and_then [safe_rules]:
  "safe p \<Longrightarrow> (\<And>a t. p = (Ok a, t) \<Longrightarrow> safe (k a t)) \<Longrightarrow> safe (and_then p k)"
  by (cases "(p, k)" rule: and_then.cases) simp_all

lemma safe_pair [simp]: "safe (r, s) \<longleftrightarrow> r \<noteq> Panic"
  by (simp add: safe_def)

lemma check_connection_reset_Panic [simp]: "check_connection_reset st r = Panic \<longleftrightarrow> r = Panic"
  by (cases r) (simp_all add: check_connection_reset_def split: error.split)

section \<open>Writing\<close>

lemma ctx_buffer_frame_safe [safe_rules]: "safe (ctx_buffer_frame f s)"
proof -
  obtain x w where s: "s = (x, w)" by (rule prod.exhaust)
  obtain r y v where b: "ctx_buffer_frame f (x, w) = (r, y, v)" by (metis prod.exhaust)
  show ?thesis using ctx_buffer_frame_spec [OF b] b s by (auto split: if_splits)
qed

lemma ctx_write_out_safe [safe_rules]: "safe (ctx_write_out s)"
proof -
  obtain r c v where b: "write_out_buffer (frame_codec (fst s), snd s) = (r, c, v)" by (metis prod.exhaust)
  have "r \<noteq> Panic" using write_out_buffer_spec [OF b] by auto
  then show ?thesis using b by (cases s) (simp add: ctx_write_out_def)
qed

lemma ctx_stream_flush_safe [safe_rules]: "safe (ctx_stream_flush s)"
proof -
  obtain r w1 where "stream_flush (snd s) = (r, w1)" by fastforce
  then show ?thesis by (cases r) (simp_all add: ctx_stream_flush_def)
qed

text \<open>The frame that \<open>WriteBufferFull\<close> hands back is the queued reply itself.\<close>

lemma send_additional_safe [safe_rules]: "safe (send_additional s)"
proof -
  obtain x w where s: "s = (x, w)" by (rule prod.exhaust)
  show ?thesis
  proof (cases "additional_send x")
    case (Some msg)
    obtain r y v where b: "ctx_buffer_frame msg (x\<lparr>additional_send := None\<rparr>, w) = (r, y, v)" by (metis prod.exhaust)
    have "r \<noteq> Panic" "\<And>m. r = Err (WriteBufferFull m) \<Longrightarrow> \<exists>f. m = RawFrame f"
      using ctx_buffer_frame_spec [OF b] by (auto split: if_splits)
    then show ?thesis
      using Some b s by (auto simp: send_additional_def split: outcome.split error.split message.split)
  qed (simp add: s send_additional_def)
qed

lemma finish_write_safe [safe_rules]: "safe (finish_write b s)"
  by (auto simp: finish_write_def intro!: safe_rules)

lemma inner_write_safe [safe_rules]: "safe (inner_write data s)"
  by (auto simp: inner_write_def intro!: safe_rules split: option.split)

lemma ctx_flush_safe [safe_rules]: "safe (ctx_flush s)"
  by (auto simp: ctx_flush_def intro!: safe_rules)

lemma ctx_close_safe [safe_rules]: "safe (ctx_close code s)"
  by (auto simp: ctx_close_def intro!: safe_rules split: prod.split)

lemma write_frame_safe [safe_rules]: "safe (write_frame f s)"
  by (auto simp: write_frame_def intro!: safe_rules)

text \<open>A message that leaves room in the address space once it is compressed.\<close>

fun op_fits :: "nat \<Rightarrow> ws_op \<Rightarrow> bool" where
  "op_fits L (OpWrite (Text d)) \<longleftrightarrow> L + 16 * length d + CHUNK \<le> isize_max"
| "op_fits L (OpWrite (Binary d)) \<longleftrightarrow> L + 16 * length d + CHUNK \<le> isize_max"
| "op_fits L _ \<longleftrightarrow> True"

lemma prepare_data_safe:
  assumes "compress_fits fl L" "L + 16 * length data + CHUNK \<le> isize_max"
  shows "safe (prepare_data fl data opc x)"
proof (cases "deflate x")
  case (Some d)
  obtain r d1 where c: "compress fl data d = (r, d1)" by fastforce
  then have "r \<noteq> Panic" using compress_bounded [OF assms, of d] by auto
  moreover have "payload (data_frame data opc) = data" by (simp add: data_frame_def frame_message_def)
  ultimately show ?thesis using Some c by (cases r) (simp_all add: prepare_data_def Let_def)
qed (simp add: prepare_data_def)

lemma write_data_safe:
  assumes "compress_fits fl L" "L + 16 * length data + CHUNK \<le> isize_max"
  shows "safe (write_data fl data opc s)"
proof -
  obtain r x1 where "prepare_data fl data opc (fst s) = (r, x1)" by fastforce
  then show ?thesis
    using prepare_data_safe [OF assms, of opc "fst s"] write_frame_safe
    by (cases s; cases r) (simp_all add: write_data_def)
qed

lemma ctx_write_safe:
  assumes "compress_fits fl L" "op_fits L (OpWrite msg)"
  shows "safe (ctx_write fl msg s)"
  using assms
  by (cases msg; cases s) (auto simp: ctx_write_def write_data_safe intro!: safe_rules)

section \<open>Reading a frame\<close>

text \<open>
  The limits are set, and what is still to come fits the address space together with the
  payload of one more frame.
\<close>

definition reading_fits :: "('c, 'd) ws \<Rightarrow> bool" where
  "reading_fits s \<longleftrightarrow>
     (\<exists>m l. max_frame_size (cfg (fst s)) = Some m \<and> max_message_size (cfg (fst s)) = Some l \<and> l < isize_max \<and>
        ws_left s + max m header_max_size \<le> isize_max)"

lemma reserve_in_safe:
  "length (in_buffer c) + n \<le> isize_max \<Longrightarrow> safe (reserve_in n c w)"
  by (auto simp: reserve_in_def Let_def split: prod.split)

lemma parse_step_safe:
  assumes "input_left (c, w) + max m header_max_size \<le> isize_max"
  shows "safe (parse_step m (c, w))"
proof (cases "codec_header c")
  case None
  obtain r n where p: "parse_internal (in_buffer c) = (r, n)" by fastforce
  have len: "length (in_buffer (advance_in k (c\<lparr>codec_header := h\<rparr>))) + j \<le> isize_max"
    if "j \<le> max m header_max_size" for k h j
    using assms that by (simp add: input_left_def advance_in_def)
  show ?thesis
  proof (cases r)
    case (Ok hdr)
    show ?thesis
    proof (cases hdr)
      case (Some hl)
      obtain h l where hl: "hl = (h, l)" by fastforce
      have "safe (reserve_in (as_usize l) (advance_in n (c\<lparr>codec_header := Some (h, l)\<rparr>)) w)" if "l \<le> m"
      proof -
        have "l \<le> usize_max" using that assms isize_less_usize by linarith
        then show ?thesis using that by (intro reserve_in_safe len) (simp add: as_usize_id)
      qed
      then show ?thesis using None p Ok Some hl by (simp add: parse_step_def header_parse_def Let_def)
    qed (use None p Ok in \<open>auto simp: parse_step_def header_parse_def intro!: reserve_in_safe len\<close>)
  qed (use None p parse_internal_no_panic [of "in_buffer c"] in \<open>simp_all add: parse_step_def header_parse_def\<close>)
qed (simp add: parse_step_def)

lemma read_loop_safe:
  assumes "input_left s + max m header_max_size \<le> isize_max"
  shows "safe (read_loop m s)"
  using assms
proof (induction m s rule: read_loop.induct)
  case (1 m s)
  obtain c w where s: "s = (c, w)" by (cases s)
  obtain r1 c1 w1 where p: "parse_step m (c, w) = (r1, c1, w1)" by (metis prod.exhaust)
  note left = parse_step_left [OF p]
  show ?case
  proof (cases r1)
    case (Ok u)
    show ?thesis
    proof (cases "split_payload c1")
      case None
      obtain r2 c2 w2 where rd: "read_in (c1, w1) = (r2, c2, w2)" by (metis prod.exhaust)
      have np: "r2 \<noteq> Panic" using rd stream_read_no_panic by (auto simp: read_in_def Let_def split: prod.splits outcome.splits)
      have "input_left (c2, w2) + max m header_max_size \<le> isize_max"
        using "1.prems" left read_in_bytes [OF rd] s by simp
      then have "safe (read_loop m (c2, w2))" if "r2 = Ok n" "n \<noteq> 0" for n
        using "1.IH" [of r1 "(c1, w1)" u c1 w1 r2 "(c2, w2)" n] p Ok None rd s that by simp
      then show ?thesis using p Ok None rd s np by (cases r2) (simp_all add: read_loop.simps [of m "(c, w)"])
    qed (use p Ok s in \<open>auto simp: read_loop.simps\<close>)
  qed (use p s parse_step_safe [of c w m] "1.prems" in \<open>simp_all add: read_loop.simps\<close>)
qed

lemma read_frame_safe:
  assumes "input_left s + max m header_max_size \<le> isize_max"
  shows "safe (read_frame (Some m) u a s)"
proof -
  obtain r c1 w1 where l: "read_loop m s = (r, c1, w1)" by (metis prod.exhaust)
  have "r \<noteq> Panic" using read_loop_safe [OF assms] l by simp
  moreover have "\<exists>h n. codec_header c1 = Some (h, n)" if "r = Ok (Some data)" for data
    using read_loop_left [of m "fst s" "snd s"] l that by (cases "codec_header c1") auto
  ultimately show ?thesis
    using l by (auto simp: read_frame_def Let_def split: outcome.split option.split)
qed

lemma fetch_frame_safe:
  assumes "reading_fits s"
  shows "safe (fetch_frame s)"
proof -
  obtain x w where s: "s = (x, w)" by (rule prod.exhaust)
  obtain m where m: "max_frame_size (cfg x) = Some m" "input_left (frame_codec x, w) + max m header_max_size \<le> isize_max"
    using assms by (auto simp: reading_fits_def ws_left_def s)
  obtain r c v where f: "read_frame (Some m) (ctx_role x = Server) (accept_unmasked_frames (cfg x)) (frame_codec x, w) = (r, c, v)"
    by (metis prod.exhaust)
  have "check_connection_reset (ws_state x) r \<noteq> Panic"
    using read_frame_safe [OF m(2)] f by (metis check_connection_reset_Panic fst_conv safe_def)
  then show ?thesis
    using f m(1) s by (auto simp: fetch_frame_def Let_def split: outcome.split option.split)
qed

section \<open>Handling a frame\<close>

text \<open>A compressed message is under assembly only where compression has been negotiated.\<close>

definition inflatable :: "('c, 'd) ctx \<Rightarrow> bool" where
  "inflatable x \<longleftrightarrow> (compressed_incomplete x \<longrightarrow> is_some (deflate x))"

lemma frame_into_close_no_panic [simp]: "frame_into_close f \<noteq> Panic"
  by (auto simp: frame_into_close_def utf8_try_from_def split: list.split utf8_check.split)

lemma do_close_safe [safe_rules]: "ws_state x \<noteq> Terminated \<Longrightarrow> safe (do_close c x)"
  by (simp add: do_close_def Let_def split: ws_state.split)

lemma handle_control_safe: "ws_state x \<noteq> Terminated \<Longrightarrow> safe (handle_control f ctl x)"
  by (auto simp: handle_control_def intro!: safe_rules split: control_op.split)

definition limited :: "config \<Rightarrow> bool" where
  "limited c \<longleftrightarrow> (\<exists>l. max_message_size c = Some l \<and> l < isize_max)"

lemma isize_limit_ok: "l < isize_max \<Longrightarrow> limit_ok (Some l)"
  using isize_less_usize by (simp add: limit_ok_def im_max_def)

lemma limited_limit_ok: "limited c \<Longrightarrow> limit_ok (max_message_size c)"
  by (auto simp: limited_def isize_limit_ok)

text \<open>A message that is already over the limit does not grow: the first byte is refused.\<close>

lemma decompress_over:
  assumes "decompress_fits fl" "l < isize_max" "l < already"
  shows "fst (decompress fl data fin already (Some l) d) \<noteq> Panic"
proof -
  have "l < usize_max" using assms(2) isize_less_usize by simp
  then have over: "sat_add already n > l" for n using assms(3) by (simp add: sat_add_def)
  have "l - sat_add already 0 = 0" using over [of 0] by simp
  then have room: "min (sat_add (l - sat_add already 0) 1) CHUNK = 1"
    by (simp only:) (simp add: sat_add_def CHUNK_def usize_max_def usize_bits_def)
  obtain r e where call: "decompress_call fl (dec_stream (decoder_of d)) data 1 = (r, e)" by (rule prod.exhaust)
  have "case (r, e) of (Ok (st, consumed, produced), _) \<Rightarrow> length produced \<le> 1 \<and> consumed \<le> length data
      | (Err _, _) \<Rightarrow> True | (Panic, _) \<Rightarrow> False"
    using assms(1) unfolding decompress_fits_def call [symmetric] by (elim allE)
  then have "\<exists>e d1. inflate_step fl already l data [] (decoder_of d) = (Err e, d1)"
    using over call room
    by (auto simp: inflate_step_def decoder_decompress_def Let_def CHUNK_def isize_max_def usize_bits_def
        split: outcome.splits prod.splits)
  then show ?thesis by (auto simp: decompress_def inflate.simps [of fl])
qed

lemma ctx_decompress_safe:
  assumes "decompress_fits fl" "is_some (deflate x)" "limited (cfg x)"
  shows "safe (ctx_decompress fl data fin x)"
proof -
  obtain d l where d: "deflate x = Some d" and l: "max_message_size (cfg x) = Some l" "l < isize_max"
    using assms(2,3) by (cases "deflate x") (auto simp: limited_def)
  let ?already = "case incomplete_msg x of Some m \<Rightarrow> im_len m | None \<Rightarrow> 0"
  have "safe (decompress fl data fin ?already (Some l) d)"
  proof (cases "?already \<le> l")
    case True
    then show ?thesis
      using decompress_within [OF assms(1) l(2) True, of data fin d] by (auto simp: safe_def split: prod.splits outcome.splits)
  next
    case False
    then show ?thesis using decompress_over [OF assms(1) l(2)] by (simp add: safe_def)
  qed
  then show ?thesis
    using d l(1) by (auto simp: ctx_decompress_def Let_def split: prod.split outcome.split)
qed

lemma inflate_frame_safe:
  assumes "decompress_fits fl" "inflatable x" "limited (cfg x)" "\<not> reserved_bits_set f x"
  shows "safe (inflate_frame fl f x)"
proof (cases "hdr_opcode (header f)")
  case (DataOp d)
  have "is_some (deflate x)" if "frame_compressed d f x"
    using that assms(2,4) DataOp
    by (cases d) (auto simp: frame_compressed_def inflatable_def reserved_bits_set_def)
  then have "frame_compressed d f x \<Longrightarrow> safe (inflate_payload fl f x)"
    using ctx_decompress_safe [OF assms(1) _ assms(3)] by (auto simp: inflate_payload_def intro!: safe_rules)
  then show ?thesis using DataOp by (auto simp: inflate_frame_def Let_def intro!: safe_rules)
qed (simp add: inflate_frame_def)

lemma im_extend_safe:
  "im_inv is_txt lim m \<Longrightarrow> limit_ok lim \<Longrightarrow> safe (im_extend m tail lim)"
  using im.ext_no_panic [of is_txt lim m tail] by (simp add: safe_def)

lemma collect_data_safe:
  assumes "held_ok x" "limited (cfg x)"
  shows "safe (collect_data f d x)"
proof -
  have "bind_out r k \<noteq> Panic" if "r \<noteq> Panic" "\<And>a. k a \<noteq> Panic" for r :: "unit result" and k :: "unit \<Rightarrow> (bytes \<times> message_type) option result"
    using that by (cases r) simp_all
  moreover have "fst (im_extend m (payload f) (max_message_size (cfg x))) \<noteq> Panic" if "incomplete_msg x = Some m" for m
  proof -
    have "im_inv (im_is_text m) None m" using assms(1) \<open>incomplete_msg x = Some m\<close> by (simp add: held_ok_def)
    from im_extend_held [OF this limited_limit_ok [OF assms(2)] prod.collapse [symmetric]] show ?thesis by blast
  qed
  ultimately show ?thesis
    by (auto simp: collect_data_def split: data_op.split option.split prod.split)
qed

lemma collect_data_None:
  "collect_data f d x = (Ok None, y) \<Longrightarrow> incomplete_msg y \<noteq> None"
  by (auto simp: collect_data_def split: data_op.splits option.splits prod.splits)

lemma deliver_data_safe:
  assumes "p = None \<Longrightarrow> incomplete_msg x \<noteq> None" "limit_ok (max_message_size (cfg x))"
  shows "safe (deliver_data p fin x)"
proof -
  have new: "fst (im_extend (im_new t) data (max_message_size (cfg x))) \<noteq> Panic" for t data
    using im_extend_safe [OF _ assms(2), of "t = MessageText" "im_new t" data] im_new_inv
    by (cases t) (simp_all add: safe_def)
  have size_ok: "check_max_size n lim \<noteq> Panic" for n lim by (simp add: check_max_size_def split: option.split)
  have utf: "bind_out (utf8_try_from data) (\<lambda>s. Ok (Some (Text s))) \<noteq> Panic" for data
    by (simp add: utf8_try_from_def split: utf8_check.split)
  show ?thesis
  proof (cases p)
    case None
    then obtain m where "incomplete_msg x = Some m" using assms(1) by auto
    then show ?thesis
      using None im_complete_no_panic [of m]
      by (cases fin; cases "im_complete m") (simp_all add: deliver_data_def)
  next
    case (Some dt)
    obtain data t where dt: "dt = (data, t)" by fastforce
    show ?thesis
    proof (cases fin)
      case True
      then show ?thesis
        using Some dt size_ok [of "length data" "max_message_size (cfg x)"] utf
        by (cases "check_max_size (length data) (max_message_size (cfg x))")
          (simp_all add: deliver_data_def split: message_type.split)
    next
      case False
      then show ?thesis
        using Some dt new [of t data] by (auto simp: deliver_data_def split: prod.split outcome.split)
    qed
  qed
qed

lemma handle_data_safe:
  assumes "held_ok x" "limited (cfg x)"
  shows "safe (handle_data f d x)"
  unfolding handle_data_def
proof (rule safe_and_then [OF collect_data_safe [OF assms]])
  fix p y
  assume c: "collect_data f d x = (Ok p, y)"
  then have "cfg y = cfg x" using collect_data_assembling by blast
  then show "safe (deliver_data p (is_final (header f)) y)"
    using c collect_data_None limited_limit_ok [OF assms(2)] by (intro deliver_data_safe) auto
qed

lemma handle_frame_safe:
  assumes "decompress_fits fl" "inflatable x" "held_ok x" "limited (cfg x)"
  shows "safe (handle_frame fl f x)"
  unfolding handle_frame_def
proof (rule safe_and_then)
  show "safe (check_frame f x)" by (simp add: check_frame_def)
next
  fix u x1
  assume c: "check_frame f x = (Ok u, x1)"
  then have x1: "x1 = x" "can_read (ws_state x)" "\<not> reserved_bits_set f x"
    by (auto simp: check_frame_def split: if_splits)
  show "safe (and_then (inflate_frame fl f x1) (\<lambda>f1 x2. case hdr_opcode (header f1) of
      DataOp d \<Rightarrow> handle_data f1 d x2 | ControlOp ctl \<Rightarrow> handle_control f1 ctl x2))"
  proof (rule safe_and_then)
    show "safe (inflate_frame fl f x1)" using inflate_frame_safe [OF assms(1,2,4) x1(3)] x1(1) by simp
  next
    fix f1 x2
    assume i: "inflate_frame fl f x1 = (Ok f1, x2)"
    have "assembly x2 = assembly x" using arg_cong [OF i, of "\<lambda>p. assembly (snd p)"] x1(1) by simp
    then have x2: "cfg x2 = cfg x" "held_ok x2" using assms(3) by (simp_all add: assembly_def held_ok_def)
    show "safe (case hdr_opcode (header f1) of
        DataOp d \<Rightarrow> handle_data f1 d x2 | ControlOp ctl \<Rightarrow> handle_control f1 ctl x2)"
    proof (cases "hdr_opcode (header f1)")
      case (ControlOp ctl)
      then have "x2 = x" using inflate_frame_control [OF i] x1(1) by blast
      moreover have "ws_state x \<noteq> Terminated" using x1(2) by auto
      ultimately show ?thesis using ControlOp handle_control_safe by simp
    qed (use handle_data_safe [OF x2(2)] assms(4) x2(1) in simp)
  qed
qed

section \<open>The whole of \<open>read\<close>\<close>

text \<open>What \<open>read\<close> relies on between two frames is kept by every building block.\<close>

definition steady_rel :: "('c, 'd) ws \<Rightarrow> ('c, 'd) ws \<Rightarrow> bool" where
  "steady_rel s t \<longleftrightarrow> holding (fst s) (fst t) \<and> ws_left t \<le> ws_left s \<and>
     is_some (deflate (fst t)) = is_some (deflate (fst s)) \<and> (inflatable (fst s) \<longrightarrow> inflatable (fst t))"

lemma steady_rel_trans: "steady_rel s t \<Longrightarrow> steady_rel t u \<Longrightarrow> steady_rel s u"
  by (auto simp: steady_rel_def intro: holding_trans)

lemma steady_same:
  "cfg (fst t) = cfg (fst s) \<Longrightarrow> incomplete_msg (fst t) = incomplete_msg (fst s) \<Longrightarrow> ws_left t \<le> ws_left s \<Longrightarrow>
   is_some (deflate (fst t)) = is_some (deflate (fst s)) \<Longrightarrow>
   compressed_incomplete (fst t) = compressed_incomplete (fst s) \<Longrightarrow> steady_rel s t"
  by (simp add: steady_rel_def holding_same assembly_def inflatable_def)

lemma writes_only_steady: "writes_only s t \<Longrightarrow> steady_rel s t"
  using writes_only_left [of s t] by (intro steady_same) (simp_all add: writes_only_def)

lemma fail_compression_more [simp]:
  "compressed_incomplete (fail_compression x) = compressed_incomplete x"
  "compressed_incomplete (fail_compression_on_discarded_frame f x) = compressed_incomplete x"
  "deflate (fail_compression_on_discarded_frame f x) = deflate x"
  by (simp_all add: fail_compression_def fail_compression_on_discarded_frame_def Let_def)

lemma fetch_frame_steady: "steady_rel s (snd (fetch_frame s))"
proof -
  obtain x w where s: "s = (x, w)" by (rule prod.exhaust)
  obtain r c v where f: "read_frame (max_frame_size (cfg x)) (ctx_role x = Server)
      (accept_unmasked_frames (cfg x)) (frame_codec x, w) = (r, c, v)" by (metis prod.exhaust)
  show ?thesis
    using f fetch_frame_left(1) [OF prod.collapse [symmetric], of s]
    by (intro steady_same) (auto simp: s fetch_frame_def Let_def split: outcome.split option.split)
qed

text \<open>Handling a frame keeps a compressed message inflatable, because \<open>check_frame\<close> comes first.\<close>

definition keeps_deflate :: "('c, 'd) ctx \<Rightarrow> ('c, 'd) ctx \<Rightarrow> bool" where
  "keeps_deflate x y \<longleftrightarrow> is_some (deflate y) = is_some (deflate x) \<and> (inflatable x \<longrightarrow> inflatable y)"

lemma keeps_deflate_same [simp]:
  "is_some (deflate y) = is_some (deflate x) \<Longrightarrow> compressed_incomplete y = compressed_incomplete x \<Longrightarrow> keeps_deflate x y"
  by (simp add: keeps_deflate_def inflatable_def)

lemma keeps_deflate_and_then:
  assumes "keeps_deflate x (snd p)" "\<And>a y. p = (Ok a, y) \<Longrightarrow> keeps_deflate x y \<Longrightarrow> keeps_deflate y (snd (k a y))"
  shows "keeps_deflate x (snd (and_then p k))"
proof -
  obtain r t where "p = (r, t)" by (rule prod.exhaust)
  then show ?thesis using assms by (cases r) (auto simp: keeps_deflate_def)
qed

lemma ctx_decompress_keeps_deflate: "keeps_deflate x (snd (ctx_decompress fl d fin x))"
  by (auto simp: ctx_decompress_def Let_def split: option.split prod.split outcome.split)

lemma inflate_frame_keeps_deflate:
  assumes "\<not> reserved_bits_set f x"
  shows "keeps_deflate x (snd (inflate_frame fl f x))"
proof (cases "hdr_opcode (header f)")
  case (DataOp d)
  have i: "keeps_deflate x (snd (inflate_payload fl f x))"
    unfolding inflate_payload_def by (rule keeps_deflate_and_then [OF ctx_decompress_keeps_deflate]) simp
  have "keeps_deflate y (remember_compressed d fin (frame_compressed d f x) y)"
    if "is_some (deflate y) = is_some (deflate x)" for fin y
    using that assms DataOp
    by (auto simp: keeps_deflate_def inflatable_def remember_compressed_def frame_compressed_def reserved_bits_set_def)
  then show ?thesis
    using DataOp i
    by (auto simp: inflate_frame_def Let_def intro!: keeps_deflate_and_then) (auto simp: keeps_deflate_def)
qed (simp add: inflate_frame_def)

lemma handle_control_keeps_deflate: "keeps_deflate x (snd (handle_control f ctl x))"
proof -
  have "keeps_deflate y (snd (do_close c y))" for c and y :: "('a, 'b) ctx"
    by (simp add: do_close_def Let_def split: ws_state.split)
  then show ?thesis
    by (auto simp: handle_control_def split: control_op.split intro!: keeps_deflate_and_then)
qed

lemma handle_data_keeps_deflate: "keeps_deflate x (snd (handle_data f d x))"
  unfolding handle_data_def
  by (rule keeps_deflate_and_then)
    (auto simp: collect_data_def deliver_data_def split: data_op.split option.split prod.split outcome.split bool.split)

lemma handle_frame_keeps_deflate: "keeps_deflate x (snd (handle_frame fl f x))"
  unfolding handle_frame_def
proof (rule keeps_deflate_and_then)
  show "keeps_deflate x (snd (check_frame f x))" by (simp add: check_frame_def)
next
  fix u x1
  assume "check_frame f x = (Ok u, x1)"
  then have x1: "x1 = x" "\<not> reserved_bits_set f x1" by (auto simp: check_frame_def split: if_splits)
  show "keeps_deflate x1 (snd (and_then (inflate_frame fl f x1) (\<lambda>f1 x2. case hdr_opcode (header f1) of
      DataOp d \<Rightarrow> handle_data f1 d x2 | ControlOp ctl \<Rightarrow> handle_control f1 ctl x2)))"
    by (rule keeps_deflate_and_then [OF inflate_frame_keeps_deflate [OF x1(2)]])
      (auto simp: handle_control_keeps_deflate handle_data_keeps_deflate split: opcode.split)
qed

lemma handle_frame_steady: "steady_rel (x, w) (snd (handle_frame fl f x), w)"
  using handle_frame_keeps_deflate [of x fl f] handle_frame_holding [of x fl f]
  by (simp add: steady_rel_def keeps_deflate_def ws_left_def)

lemma prepare_data_compressed [simp]:
  "is_some (deflate (snd (prepare_data fl d opc x))) = is_some (deflate x)"
  "compressed_incomplete (snd (prepare_data fl d opc x)) = compressed_incomplete x"
  by (simp_all add: prepare_data_def Let_def split: option.split prod.split outcome.split)

interpretation sd: engine_relation fl "\<lambda>_. True" steady_rel for fl
proof unfold_locales
  show "steady_rel s u" if "steady_rel s t" "steady_rel t u" for s t u :: "('a, 'b) ws"
    using that by (rule steady_rel_trans)
  show "steady_rel (x, w) (snd (prepare_data fl d opc x), w)" for fl d opc and x :: "('a, 'b) ctx" and w
    by (rule steady_same) (simp_all add: prepare_data_simps ws_left_def)
qed (auto intro: writes_only_steady inner_write_writes_only ctx_write_out_writes_only ctx_stream_flush_writes_only
    fetch_frame_steady handle_frame_steady steady_same simp: ws_left_def)

text \<open>The invariant of a connection that reads, and that each iteration keeps.\<close>

definition steady :: "('c, 'd) ws \<Rightarrow> bool" where
  "steady s \<longleftrightarrow> held_ok (fst s) \<and> inflatable (fst s) \<and> reading_fits s"

lemma steady_rel_steady: "steady_rel s t \<Longrightarrow> steady s \<Longrightarrow> steady t"
  by (fastforce simp: steady_rel_def steady_def holding_def reading_fits_def isize_limit_ok)

lemma before_read_safe [safe_rules]: "safe (before_read s)"
  using ctx_flush_safe [of s] by (auto simp: before_read_def split: prod.split outcome.split)

lemma read_message_frame_safe:
  assumes "decompress_fits fl" "steady s"
  shows "safe (read_message_frame fl s)"
  unfolding read_message_frame_def
proof (rule safe_and_then)
  show "safe (fetch_frame s)" using assms(2) by (intro fetch_frame_safe) (simp add: steady_def)
next
  fix f t
  assume "fetch_frame s = (Ok f, t)"
  then have "steady t" using steady_rel_steady [OF fetch_frame_steady assms(2)] by simp
  then have t: "inflatable (fst t)" "held_ok (fst t)" "limited (cfg (fst t))"
    by (auto simp: steady_def reading_fits_def limited_def)
  obtain r y where "handle_frame fl f (fst t) = (r, y)" by (rule prod.exhaust)
  then show "safe (case t of (x, w) \<Rightarrow> case handle_frame fl f x of (r, x1) \<Rightarrow> (r, x1, w))"
    using handle_frame_safe [OF assms(1) t, of f] by (cases t) simp
qed

lemma read_messages_safe:
  "decompress_fits fl \<Longrightarrow> steady s \<Longrightarrow> safe (read_messages fl s)"
proof (induction fl s rule: read_messages.induct)
  case (1 fl s)
  obtain r s1 where b: "before_read s = (r, s1)" by (cases "before_read s")
  have s1: "steady s1" using steady_rel_steady [OF sd.rel_before_read "1.prems"(2)] b by (metis snd_conv)
  have np: "r \<noteq> Panic" using before_read_safe [of s] b by simp
  show ?case
  proof (cases r)
    case (Ok u)
    obtain r2 s2 where m: "read_message_frame fl s1 = (r2, s2)" by (cases "read_message_frame fl s1")
    have np2: "r2 \<noteq> Panic" using read_message_frame_safe [OF "1.prems"(1) s1] m by simp
    show ?thesis
    proof (cases "r2 = Ok None")
      case True
      have "steady s2" using steady_rel_steady [OF sd.rel_read_message_frame s1] m by (metis snd_conv)
      then have "safe (read_messages fl s2)"
        using "1.IH" [OF b [symmetric] Ok m [symmetric] True refl] "1.prems"(1) by blast
      then show ?thesis using b m Ok True by (simp add: read_messages.simps [of fl s])
    next
      case False
      then show ?thesis
        using b m Ok np2 by (cases r2) (auto simp: read_messages.simps [of fl s] split: option.split)
    qed
  qed (use np b in \<open>simp_all add: read_messages.simps [of fl s]\<close>)
qed

lemma run_op_steady: "steady_rel s (snd (run_op fl opn s))"
  by (rule sd.rel_run_op) (simp add: raw_ok_def split: ws_op.split message.split)

lemma reachable_inflatable: "reachable fl r C s \<Longrightarrow> inflatable (fst s)"
proof (induction rule: reachable.induct)
  case (start c fc x w)
  then show ?case by (auto simp: ctx_create_def bind_out_Ok_iff inflatable_def split: if_splits)
next
  case (step s opn res t)
  then show ?case using run_op_steady [of s fl opn] by (simp add: steady_rel_def)
qed (auto simp: set_config_Ok_iff inflatable_def)

lemma run_op_safe:
  assumes "decompress_fits fl" "compress_fits fl L" "steady s" "op_fits L opn"
  shows "safe (run_op fl opn s)"
proof -
  have "safe (ctx_read fl s)" using read_messages_safe [OF assms(1,3)] by (simp add: ctx_read_def)
  moreover have "safe (ctx_write fl msg s)" if "opn = OpWrite msg" for msg
    by (rule ctx_write_safe [OF assms(2)]) (use assms(4) that in simp)
  ultimately show ?thesis by (cases opn) (auto simp: run_op_def intro!: safe_rules)
qed

text \<open>The limits that an application keeps to: a frame is at most \<open>m\<close> bytes, a message is limited.\<close>

definition limits :: "nat \<Rightarrow> config \<Rightarrow> bool" where
  "limits m c \<longleftrightarrow> (\<exists>k. max_frame_size c = Some k \<and> k \<le> m) \<and> limited c"

lemma reachable_steady:
  assumes "reachable fl r C s" "\<forall>c \<in> C. limits m c" "ws_left s + max m header_max_size \<le> isize_max"
  shows "steady s"
proof -
  have "limits m (cfg (fst s))" using reachable_inv [OF assms(1)] assms(2) by simp
  then have "reading_fits s" using assms(3) by (auto simp: reading_fits_def limits_def limited_def)
  moreover have "held_ok (fst s)"
    by (rule reachable_held [OF assms(1)]) (use assms(2) in \<open>simp add: limits_def limited_limit_ok\<close>)
  ultimately show ?thesis using reachable_inflatable [OF assms(1)] by (simp add: steady_def)
qed

section \<open>Properties\<close>

text \<open>
  No operation of a connection panics: in every reachable connection, whatever the
  peer has sent and however the stream behaves, \<open>read\<close>, \<open>write\<close>, \<open>flush\<close> and \<open>close\<close> return a
  result or an error, provided that \<open>flate2\<close> keeps its contract, a frame and a message are
  limited, and the address space holds what has arrived, one more frame, and the message
  written. In particular the codec always has a header when it has a payload, a full write
  buffer always hands back the frame it was given, a compressed frame always finds a
  decoder, a continuation always finds its message, and no closing state handles a frame.
\<close>

theorem run_op_never_panics:
  assumes "reachable fl r C s" "decompress_fits fl" "compress_fits fl L" "\<forall>c \<in> C. limits m c"
    and "length (in_buffer (frame_codec (fst s))) + length (script_bytes (reads (snd s))) + max m 14 < isize_max"
    and "case opn of OpWrite (Text d) \<Rightarrow> L + 16 * length d + 4096 \<le> isize_max
       | OpWrite (Binary d) \<Rightarrow> L + 16 * length d + 4096 \<le> isize_max | _ \<Rightarrow> True"
  shows "fst (run_op fl opn s) \<noteq> Panic"
proof -
  have "ws_left s + max m header_max_size \<le> isize_max"
    using assms(5) by (simp add: ws_left_def input_left_def header_max_size_def)
  then have "steady s" by (rule reachable_steady [OF assms(1,4)])
  moreover have "op_fits L opn" using assms(6) by (auto simp: CHUNK_def split: ws_op.splits message.splits)
  ultimately have "safe (run_op fl opn s)" by (rule run_op_safe [OF assms(2,3)])
  then show ?thesis by (simp add: safe_def)
qed

text \<open>A server that agreed on compression reads a compressed frame with a reserved opcode behind it.\<close>

theorem run_op_never_panics_witness:
  "fst (run_op copying OpRead (sample_ctx Server [0xC1, 0x81, 1, 2, 3, 4, 0xFF, 0x83], idle_world)) \<noteq> Panic \<and>
   fst (run_op copying (OpWrite (Text [65])) (sample_ctx Server [], idle_world)) \<noteq> Panic"
proof -
  have lims: "\<forall>c \<in> {deflate_config}. limits (16 * 2 ^ 20) c"
    by (simp add: deflate_config_def default_config_def limits_def limited_def isize_max_def usize_bits_def)
  have fits: "decompress_fits copying" by (simp add: decompress_fits_def copying_def)
  note panics = run_op_never_panics [OF sample_reachable fits copying_compress_fits [of 0] lims]
  show ?thesis
    by (intro conjI panics)
      (simp_all add: sample_ctx_def codec_new_def idle_world_def isize_max_def usize_bits_def)
qed

text \<open>
  The limit on frames is needed: without one, a header that announces more than
  \<open>isize::MAX\<close> bytes makes the reservation of the payload panic.
\<close>

lemma unlimited_frame_panics:
  assumes "codec_header c = None" "parse_internal (in_buffer c) = (Ok (Some (h, len)), n)"
    and "isize_max < len" "len \<le> usize_max" "in_cap c \<le> isize_max"
  shows "fst (read_frame None u a (c, w)) = Panic"
proof -
  let ?c = "advance_in n (c\<lparr>codec_header := Some (h, len)\<rparr>)"
  have "reserve_in (as_usize len) ?c w = (Panic, ?c, w)"
    using assms(3-5) by (simp add: reserve_in_def advance_in_def as_usize_id Let_def)
  then have "parse_step usize_max (c, w) = (Panic, ?c, w)"
    using assms(1,2,4) by (simp add: parse_step_def header_parse_def Let_def)
  then show ?thesis by (simp add: read_frame_def read_loop.simps)
qed

lemma unlimited_frame_panics_example:
  "fst (read_frame None True False ((codec_new 20)\<lparr>in_buffer := [0x82, 0x7F, 0x80, 0, 0, 0, 0, 0, 0, 0]\<rparr>, idle_world)) = Panic"
proof (rule unlimited_frame_panics)
  show "parse_internal (in_buffer ((codec_new 20)\<lparr>in_buffer := [0x82, 0x7F, 0x80, 0, 0, 0, 0, 0, 0, 0]\<rparr>)) =
      (Ok (Some (default_header\<lparr>hdr_opcode := DataOp BinaryOp\<rparr>, 2 ^ 63)), 10)"
    by (simp add: parse_internal_def opcode_from_u8_def read_length_def for_byte_def default_header_def
        be_nat_def Let_def)
qed (simp_all add: codec_new_def isize_max_def usize_max_def usize_bits_def)

end
