(* ===== verification/WebSocket_Api.thy ===== *)
theory WebSocket_Api
  imports WebSocket_Sending
begin

text \<open>
  The public methods of \<open>WebSocket\<close>, \<open>src/src/protocol/mod.rs\<close>: each runs an operation of the
  context on the stream that the struct owns. A session is a list of calls, one after the
  other; it stays among the reachable connections.
\<close>

section \<open>The methods\<close>

definition websocket_get_ref :: "('c, 'd) ws \<Rightarrow> world" where
  "websocket_get_ref s = snd s"

text \<open>\<open>get_mut\<close>: what the caller does to the stream.\<close>

definition websocket_get_mut :: "(world \<Rightarrow> world) \<Rightarrow> ('c, 'd) ws \<Rightarrow> ('c, 'd) ws" where
  "websocket_get_mut f s = (fst s, f (snd s))"

definition websocket_set_config :: "(config \<Rightarrow> config) \<Rightarrow> ('c, 'd) ws \<Rightarrow> unit result \<times> ('c, 'd) ws" where
  "websocket_set_config set_func s = (case set_config set_func (fst s) of (r, x) \<Rightarrow> (r, x, snd s))"

definition get_config :: "('c, 'd) ctx \<Rightarrow> config" where
  "get_config x = cfg x"

definition websocket_get_config :: "('c, 'd) ws \<Rightarrow> config" where
  "websocket_get_config s = get_config (fst s)"

definition websocket_can_read :: "('c, 'd) ws \<Rightarrow> bool" where
  "websocket_can_read s = ctx_can_read (fst s)"

definition websocket_can_write :: "('c, 'd) ws \<Rightarrow> bool" where
  "websocket_can_write s = ctx_can_write (fst s)"

definition websocket_read :: "('c, 'd) flate \<Rightarrow> ('c, 'd) ws \<Rightarrow> message result \<times> ('c, 'd) ws" where
  "websocket_read fl s = ctx_read fl s"

definition websocket_write :: "('c, 'd) flate \<Rightarrow> message \<Rightarrow> ('c, 'd) ws \<Rightarrow> unit result \<times> ('c, 'd) ws" where
  "websocket_write fl msg s = ctx_write fl msg s"

definition websocket_flush :: "('c, 'd) ws \<Rightarrow> unit result \<times> ('c, 'd) ws" where
  "websocket_flush s = ctx_flush s"

definition websocket_close :: "close_frame option \<Rightarrow> ('c, 'd) ws \<Rightarrow> unit result \<times> ('c, 'd) ws" where
  "websocket_close code s = ctx_close code s"

text \<open>The deprecated names.\<close>

definition read_message :: "('c, 'd) flate \<Rightarrow> ('c, 'd) ws \<Rightarrow> message result \<times> ('c, 'd) ws" where
  "read_message fl s = websocket_read fl s"

definition write_message :: "('c, 'd) flate \<Rightarrow> message \<Rightarrow> ('c, 'd) ws \<Rightarrow> unit result \<times> ('c, 'd) ws" where
  "write_message fl msg s = websocket_send fl msg s"

definition write_pending :: "('c, 'd) ws \<Rightarrow> unit result \<times> ('c, 'd) ws" where
  "write_pending s = websocket_flush s"

text \<open>\<open>set_config\<close> of a build without compression: nothing is asked of the settings.\<close>

definition set_config_uncompressed :: "(config \<Rightarrow> config) \<Rightarrow> ('c, 'd) ctx \<Rightarrow> unit result \<times> ('c, 'd) ctx" where
  "set_config_uncompressed set_func x =
     (let x1 = x\<lparr>cfg := set_func (cfg x)\<rparr> in
      if \<not> config_valid (cfg x1) then (Panic, x1)
      else (Ok (), x1\<lparr>frame_codec :=
             set_out_buffer_write_len (write_buffer_size (cfg x1))
               (set_max_out_buffer_len (max_write_buffer_size (cfg x1)) (frame_codec x1))\<rparr>))"

lemma set_config_uncompressed_eq:
  "cfg_deflate (set_func (cfg x)) = cfg_deflate (cfg x) \<Longrightarrow>
     set_config_uncompressed set_func x = set_config set_func x"
  by (simp add: set_config_uncompressed_def set_config_def Let_def)

section \<open>Sessions\<close>

datatype api_call =
    ApiRead | ApiWrite message | ApiFlush | ApiClose "close_frame option" | ApiSend message
  | ApiReadMessage | ApiWriteMessage message | ApiWritePending | ApiSetConfig "config \<Rightarrow> config"

fun api_step :: "('c, 'd) flate \<Rightarrow> api_call \<Rightarrow> ('c, 'd) ws \<Rightarrow> message option result \<times> ('c, 'd) ws" where
  "api_step fl ApiRead s = and_then (websocket_read fl s) (\<lambda>m t. (Ok (Some m), t))"
| "api_step fl (ApiWrite m) s = and_then (websocket_write fl m s) (\<lambda>_ t. (Ok None, t))"
| "api_step fl ApiFlush s = and_then (websocket_flush s) (\<lambda>_ t. (Ok None, t))"
| "api_step fl (ApiClose c) s = and_then (websocket_close c s) (\<lambda>_ t. (Ok None, t))"
| "api_step fl (ApiSend m) s = and_then (websocket_send fl m s) (\<lambda>_ t. (Ok None, t))"
| "api_step fl ApiReadMessage s = and_then (read_message fl s) (\<lambda>m t. (Ok (Some m), t))"
| "api_step fl (ApiWriteMessage m) s = and_then (write_message fl m s) (\<lambda>_ t. (Ok None, t))"
| "api_step fl ApiWritePending s = and_then (write_pending s) (\<lambda>_ t. (Ok None, t))"
| "api_step fl (ApiSetConfig f) s = and_then (websocket_set_config f s) (\<lambda>_ t. (Ok None, t))"

fun run_session :: "('c, 'd) flate \<Rightarrow> api_call list \<Rightarrow> ('c, 'd) ws \<Rightarrow> message option result list \<times> ('c, 'd) ws" where
  "run_session fl [] s = ([], s)"
| "run_session fl (call # calls) s =
     (case api_step fl call s of (r, t) \<Rightarrow> (case run_session fl calls t of (rs, u) \<Rightarrow> (r # rs, u)))"

fun reconfigures :: "api_call \<Rightarrow> bool" where
  "reconfigures (ApiSetConfig f) = True"
| "reconfigures _ = False"

text \<open>
  Any call but \<open>set_config\<close> is one operation of the engine, or a write and, if it succeeds, a flush.
\<close>

fun api_ops :: "api_call \<Rightarrow> ws_op list" where
  "api_ops ApiRead = [OpRead]"
| "api_ops (ApiWrite m) = [OpWrite m]"
| "api_ops ApiFlush = [OpFlush]"
| "api_ops (ApiClose c) = [OpClose c]"
| "api_ops (ApiSend m) = [OpWrite m, OpFlush]"
| "api_ops ApiReadMessage = [OpRead]"
| "api_ops (ApiWriteMessage m) = [OpWrite m, OpFlush]"
| "api_ops ApiWritePending = [OpFlush]"
| "api_ops (ApiSetConfig f) = []"

fun run_ops :: "('c, 'd) flate \<Rightarrow> ws_op list \<Rightarrow> ('c, 'd) ws \<Rightarrow> message option result \<times> ('c, 'd) ws" where
  "run_ops fl [] s = (Ok None, s)"
| "run_ops fl [opn] s = run_op fl opn s"
| "run_ops fl (opn # opn2 # ops) s = and_then (run_op fl opn s) (\<lambda>_ t. run_ops fl (opn2 # ops) t)"

lemma run_ops_send:
  "run_ops fl [OpWrite m, OpFlush] s = and_then (websocket_send fl m s) (\<lambda>_ t. (Ok None, t))"
proof -
  obtain r t where "ctx_write fl m s = (r, t)" by (rule prod.exhaust)
  then show ?thesis by (cases r) (simp_all add: run_op_def websocket_send_def)
qed

lemma api_step_ops: "\<not> reconfigures call \<Longrightarrow> api_step fl call s = run_ops fl (api_ops call) s"
  by (cases call)
    (simp_all add: run_ops_send run_op_def websocket_read_def websocket_write_def websocket_flush_def
      websocket_close_def read_message_def write_message_def write_pending_def del: run_ops.simps(3))

text \<open>What every operation of the engine keeps, every call but \<open>set_config\<close> keeps.\<close>

lemma run_ops_keeps:
  assumes "\<And>opn s. opn \<in> set ops \<Longrightarrow> P s \<Longrightarrow> P (snd (run_op fl opn s))" "P s"
  shows "P (snd (run_ops fl ops s))"
  using assms
proof (induction fl ops s rule: run_ops.induct)
  case (3 fl opn opn2 ops s)
  obtain r t where t: "run_op fl opn s = (r, t)" by (rule prod.exhaust)
  have "P t" using 3(2) [of opn s] 3(3) t by simp
  then show ?case using 3(1) 3(2) t by (cases r) (auto intro: 3(1))
qed simp_all

lemma run_session_keeps:
  assumes "\<And>call s. call \<in> set calls \<Longrightarrow> P s \<Longrightarrow> P (snd (api_step fl call s))" "P s"
  shows "P (snd (run_session fl calls s))"
  using assms
proof (induction calls arbitrary: s)
  case (Cons call calls)
  have "P (snd (api_step fl call s))" using Cons.prems by simp
  then have "P (snd (run_session fl calls (snd (api_step fl call s))))"
    by (rule Cons.IH [rotated]) (use Cons.prems(1) in simp)
  then show ?case by (simp add: split_beta)
qed simp

lemma run_session_results:
  assumes "\<And>call s. call \<in> set calls \<Longrightarrow> P s \<Longrightarrow> Q (fst (api_step fl call s)) \<and> P (snd (api_step fl call s))" "P s"
  shows "list_all Q (fst (run_session fl calls s))"
  using assms
proof (induction calls arbitrary: s)
  case (Cons call calls)
  have *: "Q (fst (api_step fl call s))" "P (snd (api_step fl call s))" using Cons.prems by simp_all
  from Cons.IH [OF _ *(2)] Cons.prems(1) * show ?case by (simp add: split_beta)
qed simp

text \<open>
  The configurations of a session: a call of \<open>set_config\<close> stays within \<open>C\<close>, keeps the
  configuration valid and leaves the agreed compression alone, as the assertions of
  \<open>set_config\<close> ask.
\<close>

fun call_within :: "config set \<Rightarrow> api_call \<Rightarrow> bool" where
  "call_within C (ApiSetConfig f) \<longleftrightarrow>
     (\<forall>c \<in> C. f c \<in> C \<and> config_valid (f c) \<and> cfg_deflate (f c) = cfg_deflate c)"
| "call_within C _ \<longleftrightarrow> True"

lemma run_op_reachable: "reachable fl r C t \<Longrightarrow> reachable fl r C (snd (run_op fl opn t))"
  using reachable.step [of fl r C t opn "fst (run_op fl opn t)" "snd (run_op fl opn t)"] by simp

lemma api_set_config:
  assumes "call_within C (ApiSetConfig f)" "cfg (fst t) \<in> C"
  shows "api_step fl (ApiSetConfig f) t = (Ok None, reconfigured (f (cfg (fst t))) (fst t), snd t)"
    and "set_config f (fst t) = (Ok (), reconfigured (f (cfg (fst t))) (fst t))"
proof -
  show *: "set_config f (fst t) = (Ok (), reconfigured (f (cfg (fst t))) (fst t))"
    using assms by (simp add: set_config_Ok_iff)
  then show "api_step fl (ApiSetConfig f) t = (Ok None, reconfigured (f (cfg (fst t))) (fst t), snd t)"
    by (simp add: websocket_set_config_def)
qed

lemma api_step_reachable:
  assumes "reachable fl r C t" "call_within C call"
  shows "reachable fl r C (snd (api_step fl call t))"
proof (cases "reconfigures call")
  case True
  then obtain f where f: "call = ApiSetConfig f" by (cases call) simp_all
  have c: "cfg (fst t) \<in> C" using reachable_inv [OF assms(1)] by simp
  note set = api_set_config [OF assms(2) [unfolded f] c]
  have "f (cfg (fst t)) \<in> C" using assms(2) f c by simp
  then show ?thesis
    unfolding f set(1) using reachable.configure [OF _ set(2), of fl r C "snd t"] assms(1) by simp
next
  case False
  then show ?thesis
    unfolding api_step_ops [OF False]
    by (intro run_ops_keeps [where P = "reachable fl r C", OF run_op_reachable assms(1)])
qed

lemma run_session_reachable:
  assumes "reachable fl r C s" "list_all (call_within C) calls"
  shows "reachable fl r C (snd (run_session fl calls s))"
proof (rule run_session_keeps [where P = "reachable fl r C", OF _ assms(1)])
  show "reachable fl r C (snd (api_step fl call t))" if "call \<in> set calls" "reachable fl r C t" for call t
    by (rule api_step_reachable [OF that(2)]) (use that(1) assms(2) in \<open>simp add: list_all_iff\<close>)
qed

end
