(* ===== verification/Deflate_Negotiate.thy ===== *)
theory Deflate_Negotiate
  imports Deflate_Settings
begin

text \<open>
  What the negotiation of permessage-deflate guarantees: the windows that come out of it
  are ones the codec can be built with, whatever the peer wrote, and two endpoints of this
  crate that negotiate with each other end up with compatible settings.
\<close>

section \<open>Splitting a generated text\<close>

definition plain :: "u8 \<Rightarrow> bytes \<Rightarrow> bool" where
  "plain d p \<longleftrightarrow> d \<notin> set p \<and> quote \<notin> set p"

lemma plain_append [simp]: "plain d (p @ q) \<longleftrightarrow> plain d p \<and> plain d q"
  by (auto simp: plain_def)

lemma split_scan_plain:
  "plain d p \<Longrightarrow> split_scan d False False cur parts (p @ rest) = split_scan d False False (cur @ p) parts rest"
  by (induction p arbitrary: cur) (auto simp: plain_def)

text \<open>Parts joined by the delimiter.\<close>

definition joined :: "u8 \<Rightarrow> bytes \<Rightarrow> bytes list \<Rightarrow> bytes" where
  "joined d p ps = p @ concat (map (\<lambda>q. d # q) ps)"

lemma split_scan_joined:
  assumes "list_all (plain d) (p # ps)" "d \<noteq> quote"
  shows "split_scan d False False cur parts (joined d p ps) = Ok (parts @ (cur @ p) # ps)"
  using assms
proof (induction ps arbitrary: p cur parts)
  case Nil
  then show ?case using split_scan_plain [of d p cur parts "[]"] by (simp add: joined_def)
next
  case (Cons q qs)
  then show ?case
    using split_scan_plain [of d p cur parts "joined d [] (q # qs)"]
    by (simp add: joined_def)
qed

lemma split_header_joined:
  "list_all (plain d) (p # ps) \<Longrightarrow> d \<noteq> quote \<Longrightarrow> split_header (joined d p ps) d = Ok (p # ps)"
  using split_scan_joined [of d p ps "[]" "[]"] by (simp add: split_header_def)

lemma split_header_plain: "plain d p \<Longrightarrow> split_header p d = Ok [p]"
  using split_scan_plain [of d p "[]" "[]" "[]"] by (simp add: split_header_def)

lemma check_utf8_parts_valid: "list_all valid_utf8 ps \<Longrightarrow> check_utf8_parts ps = Ok ps"
  by (induction ps) simp_all

section \<open>ASCII texts\<close>

definition ascii_text :: "bytes \<Rightarrow> bool" where
  "ascii_text = list_all (\<lambda>b. 32 \<le> unat b \<and> unat b < 127)"

lemma ascii_text_simps [simp]:
  "ascii_text []" "ascii_text (b # bs) \<longleftrightarrow> 32 \<le> unat b \<and> unat b < 127 \<and> ascii_text bs"
  "ascii_text (xs @ ys) \<longleftrightarrow> ascii_text xs \<and> ascii_text ys"
  by (auto simp: ascii_text_def)

lemma ascii_text_valid: "ascii_text bs \<Longrightarrow> valid_utf8 bs"
proof (induction bs)
  case (Cons b bs)
  then have "utf8_head (b # bs) = CharLen 1" by (simp add: utf8_head_def)
  with Cons show ?case by (simp add: valid_utf8_cons)
qed simp

section \<open>The parameters that the crate writes\<close>

definition server_nct_part :: bytes where "server_nct_part = ascii '' server_no_context_takeover''"
definition client_nct_part :: bytes where "client_nct_part = ascii '' client_no_context_takeover''"
definition server_bits_part :: "nat \<Rightarrow> bytes" where
  "server_bits_part n = ascii '' server_max_window_bits='' @ decimal n"
definition client_bits_part :: "nat \<Rightarrow> bytes" where
  "client_bits_part n = ascii '' client_max_window_bits='' @ decimal n"
definition client_window_part :: bytes where "client_window_part = ascii '' client_max_window_bits''"

definition good_part :: "bytes \<Rightarrow> bool" where
  "good_part p \<longleftrightarrow> plain semicolon p \<and> plain comma p \<and> ascii_text p"

lemma good_parts:
  "good_part DEFLATE_NAME" "good_part server_nct_part" "good_part client_nct_part" "good_part client_window_part"
  by code_simp+

lemma bits_cases:
  assumes "8 \<le> n" "n \<le> (15 :: nat)" "list_all P [8, 9, 10, 11, 12, 13, 14, 15]"
  shows "P n"
proof -
  have "n \<in> {8, 9, 10, 11, 12, 13, 14, 15}" using assms(1,2) by auto
  then show ?thesis using assms(3) by auto
qed

lemma good_bits_parts:
  assumes "8 \<le> n" "n \<le> 15"
  shows "good_part (server_bits_part n)" "good_part (client_bits_part n)"
  by (rule bits_cases [OF assms, of "\<lambda>n. good_part (server_bits_part n)"], code_simp,
      rule bits_cases [OF assms, of "\<lambda>n. good_part (client_bits_part n)"], code_simp)

lemma split_parameter_parts:
  "split_parameter server_nct_part = (ascii ''server_no_context_takeover'', None)"
  "split_parameter client_nct_part = (ascii ''client_no_context_takeover'', None)"
  "split_parameter client_window_part = (ascii ''client_max_window_bits'', None)"
  by code_simp+

lemma split_parameter_bits:
  assumes "8 \<le> n" "n \<le> 15"
  shows "split_parameter (server_bits_part n) = (ascii ''server_max_window_bits'', Some (decimal n))"
    and "split_parameter (client_bits_part n) = (ascii ''client_max_window_bits'', Some (decimal n))"
  by (rule bits_cases [OF assms, of "\<lambda>n. split_parameter (server_bits_part n) =
          (ascii ''server_max_window_bits'', Some (decimal n))"], code_simp,
      rule bits_cases [OF assms, of "\<lambda>n. split_parameter (client_bits_part n) =
          (ascii ''client_max_window_bits'', Some (decimal n))"], code_simp)

lemma parse_bits_decimal: "8 \<le> n \<Longrightarrow> n \<le> 15 \<Longrightarrow> parse_bits (decimal n) = Ok n"
  by (rule bits_cases [of n "\<lambda>n. parse_bits (decimal n) = Ok n"], assumption, assumption, code_simp)

lemma parameter_bits:
  "parameter_bit (ascii ''server_no_context_takeover'') = Some 1"
  "parameter_bit (ascii ''client_no_context_takeover'') = Some 2"
  "parameter_bit (ascii ''server_max_window_bits'') = Some 4"
  "parameter_bit (ascii ''client_max_window_bits'') = Some 8"
  by code_simp+

text \<open>One parameter, unless it has been seen before.\<close>

lemma parse_part:
  "parse_parameter server_nct_part p = (if p_seen p AND 1 \<noteq> 0 then Err invalid_header
     else Ok (p\<lparr>p_seen := p_seen p OR 1, p_server_nct := True\<rparr>))"
  "parse_parameter client_nct_part p = (if p_seen p AND 2 \<noteq> 0 then Err invalid_header
     else Ok (p\<lparr>p_seen := p_seen p OR 2, p_client_nct := True\<rparr>))"
  "parse_parameter client_window_part p = (if p_seen p AND 8 \<noteq> 0 then Err invalid_header
     else Ok (p\<lparr>p_seen := p_seen p OR 8, p_client_window := NoValue\<rparr>))"
  by (simp_all add: parse_parameter_def split_parameter_parts parameter_bits Let_def del: ascii_simps)

lemma parse_bits_part:
  assumes "8 \<le> n" "n \<le> 15"
  shows "parse_parameter (server_bits_part n) p = (if p_seen p AND 4 \<noteq> 0 then Err invalid_header
     else Ok (p\<lparr>p_seen := p_seen p OR 4, p_server_bits := Some n\<rparr>))"
    and "parse_parameter (client_bits_part n) p = (if p_seen p AND 8 \<noteq> 0 then Err invalid_header
     else Ok (p\<lparr>p_seen := p_seen p OR 8, p_client_window := Bits n\<rparr>))"
  using assms
  by (simp_all add: parse_parameter_def split_parameter_bits parameter_bits parse_bits_decimal Let_def
      del: ascii_simps)

text \<open>A generated extension: which flags, which windows.\<close>

definition extension_parts :: "bool \<Rightarrow> bool \<Rightarrow> nat option \<Rightarrow> client_window \<Rightarrow> bytes list" where
  "extension_parts s c sw cw =
     (if s then [server_nct_part] else []) @ (if c then [client_nct_part] else [])
     @ (case sw of Some n \<Rightarrow> [server_bits_part n] | None \<Rightarrow> [])
     @ (case cw of AbsentWindow \<Rightarrow> [] | NoValue \<Rightarrow> [client_window_part] | Bits n \<Rightarrow> [client_bits_part n])"

definition extension_text :: "bool \<Rightarrow> bool \<Rightarrow> nat option \<Rightarrow> client_window \<Rightarrow> bytes" where
  "extension_text s c sw cw = joined semicolon DEFLATE_NAME (extension_parts s c sw cw)"

definition windows_ok :: "nat option \<Rightarrow> client_window \<Rightarrow> bool" where
  "windows_ok sw cw \<longleftrightarrow> (case sw of Some n \<Rightarrow> 8 \<le> n \<and> n \<le> 15 | None \<Rightarrow> True) \<and>
     (case cw of Bits n \<Rightarrow> 8 \<le> n \<and> n \<le> 15 | _ \<Rightarrow> True)"

lemma good_extension_parts:
  "windows_ok sw cw \<Longrightarrow> list_all good_part (extension_parts s c sw cw)"
  by (auto simp: extension_parts_def windows_ok_def good_parts good_bits_parts
      split: option.split client_window.split)

lemma separators:
  "semicolon \<noteq> quote" "comma \<noteq> quote" "semicolon \<noteq> comma" "unat semicolon = 59"
  by (simp_all add: semicolon_def quote_def comma_def)

lemma joined_good:
  assumes "good_part p" "list_all good_part ps"
  shows "plain comma (joined semicolon p ps)" "ascii_text (joined semicolon p ps)"
proof -
  have "plain comma (concat (map (\<lambda>q. semicolon # q) ps)) \<and> ascii_text (concat (map (\<lambda>q. semicolon # q) ps))"
    using assms(2)
  proof (induction ps)
    case Nil
    show ?case by (simp add: plain_def)
  next
    case (Cons q qs)
    then show ?case using separators by (simp add: good_part_def) (simp add: plain_def)
  qed
  then show "plain comma (joined semicolon p ps)" "ascii_text (joined semicolon p ps)"
    using assms(1) by (simp_all add: joined_def good_part_def)
qed

lemma split_extension_text:
  assumes "windows_ok sw cw"
  shows "split_header (extension_text s c sw cw) comma = Ok [extension_text s c sw cw]"
    and "split_quoted (extension_text s c sw cw) semicolon = Ok (DEFLATE_NAME # extension_parts s c sw cw)"
    and "ascii_text (extension_text s c sw cw)"
proof -
  note good = good_parts(1) good_extension_parts [OF assms, of s c]
  show "split_header (extension_text s c sw cw) comma = Ok [extension_text s c sw cw]"
    unfolding extension_text_def by (intro split_header_plain joined_good good)
  show "ascii_text (extension_text s c sw cw)"
    unfolding extension_text_def by (intro joined_good good)
  have "list_all (plain semicolon) (DEFLATE_NAME # extension_parts s c sw cw)"
    "list_all valid_utf8 (DEFLATE_NAME # extension_parts s c sw cw)"
    using good by (auto simp: good_part_def list_all_iff intro: ascii_text_valid)
  then show "split_quoted (extension_text s c sw cw) semicolon = Ok (DEFLATE_NAME # extension_parts s c sw cw)"
    unfolding extension_text_def split_quoted_def
    by (simp add: split_header_joined check_utf8_parts_valid separators)
qed

lemma first_part_extension_text:
  "first_part semicolon (extension_text s c sw cw) = DEFLATE_NAME"
proof -
  have plain: "\<forall>b \<in> set DEFLATE_NAME. b \<noteq> semicolon"
    using good_parts(1) by (auto simp: good_part_def plain_def)
  have "takeWhile (\<lambda>b. b \<noteq> semicolon) (DEFLATE_NAME @ semicolon # zs) = DEFLATE_NAME" for zs
    by (subst takeWhile_append2) (use plain in simp_all)
  moreover have "takeWhile (\<lambda>b. b \<noteq> semicolon) DEFLATE_NAME = DEFLATE_NAME"
    using plain by (simp add: takeWhile_eq_all_conv)
  ultimately show ?thesis
    by (cases "extension_parts s c sw cw")
      (simp_all only: first_part_def extension_text_def joined_def list.map concat.simps append_Nil2 append_Cons)
qed

text \<open>What the parser makes of it.\<close>

lemma parse_extension_text:
  assumes "windows_ok sw cw"
  shows "\<exists>seen. parse_extension (extension_text s c sw cw) =
    Ok (Deflate \<lparr>p_server_nct = s, p_client_nct = c, p_server_bits = sw, p_client_window = cw, p_seen = seen\<rparr>)"
proof -
  have trim: "trim_ascii DEFLATE_NAME = DEFLATE_NAME" "DEFLATE_NAME \<noteq> []"
      "eq_ignore_ascii_case DEFLATE_NAME DEFLATE_NAME"
    by code_simp+
  have "\<exists>seen. parse_parameters (extension_parts s c sw cw) default_params =
      Ok \<lparr>p_server_nct = s, p_client_nct = c, p_server_bits = sw, p_client_window = cw, p_seen = seen\<rparr>"
    using assms
    by (cases s; cases c; cases sw; cases cw)
      (simp_all add: extension_parts_def parse_part parse_bits_part default_params_def windows_ok_def)
  then show ?thesis
    using split_extension_text [OF assms, of s c] trim
    by (auto simp: parse_extension_def first_part_extension_text ascii_text_valid Let_def)
qed

section \<open>What the parser accepts\<close>

lemma bind_out_Panic: "bind_out r k = Panic \<longleftrightarrow> r = Panic \<or> (\<exists>a. r = Ok a \<and> k a = Panic)"
  by (cases r) auto

lemma split_scan_no_panic: "split_scan d q e cur parts bs \<noteq> Panic"
  by (induction d q e cur parts bs rule: split_scan.induct) auto

lemma split_header_no_panic: "split_header v d \<noteq> Panic"
  by (simp add: split_header_def split_scan_no_panic)

lemma check_utf8_parts_no_panic: "check_utf8_parts ps \<noteq> Panic"
  by (induction ps) (simp_all add: bind_out_Panic)

lemma unquote_rest_cases: "(\<exists>w. unquote_rest out cs = Ok w) \<or> unquote_rest out cs = Err invalid_header"
  by (induction out cs rule: unquote_rest.induct) (auto split: list.split)

lemma unquote_cases: "(\<exists>w. unquote v = Ok w) \<or> unquote v = Err invalid_header"
proof (cases v)
  case (Cons b rest)
  then show ?thesis
    using unquote_rest_cases [of "[]" rest] by (simp add: unquote_def)
qed (simp add: unquote_def)

lemma parse_bits_cases: "parse_bits v = Err invalid_header \<or> (\<exists>n. parse_bits v = Ok n \<and> 8 \<le> n \<and> n \<le> 15)"
proof (cases "unquote v")
  case (Ok w)
  show ?thesis
  proof (cases "parse_u8 w")
    case None
    then show ?thesis by (simp add: parse_bits_def Ok)
  next
    case (Some n)
    then show ?thesis by (simp add: parse_bits_def Ok)
  qed
qed (use unquote_cases [of v] in \<open>simp_all add: parse_bits_def\<close>)

definition params_ok :: "params \<Rightarrow> bool" where
  "params_ok p \<longleftrightarrow> windows_ok (p_server_bits p) (p_client_window p)"

lemma parse_parameter_ok:
  assumes "params_ok p"
  shows "case parse_parameter q p of Ok p' \<Rightarrow> params_ok p' | Err e \<Rightarrow> e = invalid_header | Panic \<Rightarrow> False"
proof -
  have "case bind_out (parse_bits v) (\<lambda>n. Ok (f n)) of Ok p' \<Rightarrow> params_ok p' | Err e \<Rightarrow> e = invalid_header | Panic \<Rightarrow> False"
    if "\<And>n. 8 \<le> n \<Longrightarrow> n \<le> 15 \<Longrightarrow> params_ok (f n)" for v f
    using parse_bits_cases [of v] that by auto
  note bits = this
  show ?thesis
    using assms
    by (auto simp: parse_parameter_def Let_def params_ok_def windows_ok_def
        split: prod.split option.split intro!: bits)
qed

lemma parse_parameters_ok:
  "params_ok p \<Longrightarrow> case parse_parameters qs p of Ok p' \<Rightarrow> params_ok p' | Err e \<Rightarrow> e = invalid_header | Panic \<Rightarrow> False"
proof (induction qs arbitrary: p)
  case (Cons q qs)
  show ?case
    using parse_parameter_ok [OF Cons.prems, of q] Cons.IH
    by (cases "parse_parameter q p") auto
qed simp

lemma parse_extension_ok:
  "case parse_extension e of Ok (Deflate p) \<Rightarrow> params_ok p | Ok _ \<Rightarrow> True | Err err \<Rightarrow> True | Panic \<Rightarrow> False"
proof -
  have "params_ok default_params" by (simp add: params_ok_def default_params_def windows_ok_def)
  then have ps: "case parse_parameters qs default_params of Ok p' \<Rightarrow> params_ok p' | Err e \<Rightarrow> True | Panic \<Rightarrow> False" for qs
    using parse_parameters_ok [of default_params qs] by (auto split: outcome.splits)
  have "split_quoted e semicolon \<noteq> Panic"
    by (auto simp: split_quoted_def bind_out_Panic split_header_no_panic check_utf8_parts_no_panic)
  moreover have "case bind_out (parse_parameters qs default_params) (\<lambda>p. Ok (Deflate p)) of
      Ok (Deflate p) \<Rightarrow> params_ok p | Ok _ \<Rightarrow> True | Err err \<Rightarrow> True | Panic \<Rightarrow> False" for qs
    using ps [of qs] by (cases "parse_parameters qs default_params") auto
  ultimately show ?thesis
    by (cases "split_quoted e semicolon") (auto simp: parse_extension_def Let_def)
qed

lemma select_deflate_ok:
  "(\<forall>p. selected = Some p \<longrightarrow> params_ok p) \<Longrightarrow>
   case select_deflate es selected of Ok (Some p) \<Rightarrow> params_ok p | Ok None \<Rightarrow> True | Err e \<Rightarrow> True | Panic \<Rightarrow> False"
proof (induction es arbitrary: selected)
  case Nil
  then show ?case by (auto split: option.split)
next
  case (Cons e es)
  show ?case
    using parse_extension_ok [of e] Cons
    by (cases "parse_extension e") (auto split: extension.splits if_splits)
qed

lemma select_in_values_ok:
  "(\<forall>p. selected = Some p \<longrightarrow> params_ok p) \<Longrightarrow>
   case select_in_values vs selected of Ok (Some p) \<Rightarrow> params_ok p | Ok None \<Rightarrow> True | Err e \<Rightarrow> True | Panic \<Rightarrow> False"
proof (induction vs arbitrary: selected)
  case Nil
  then show ?case by (auto split: option.split)
next
  case (Cons v vs)
  show ?case
  proof (cases "split_header v comma")
    case (Ok exts)
    show ?thesis
    proof (cases "select_deflate exts selected")
      case sel: (Ok r)
      have "\<forall>p. r = Some p \<longrightarrow> params_ok p"
        using select_deflate_ok [OF Cons.prems, of exts] sel by auto
      from Cons.IH [OF this] show ?thesis by (simp add: Ok sel)
    qed (use select_deflate_ok [OF Cons.prems, of exts] in \<open>simp_all add: Ok\<close>)
  qed (simp_all add: split_header_no_panic)
qed

section \<open>The windows that come out\<close>

definition settings_ok :: "settings \<Rightarrow> bool" where
  "settings_ok s \<longleftrightarrow> 9 \<le> server_max_window_bits s \<and> server_max_window_bits s \<le> 15 \<and>
     9 \<le> client_max_window_bits s \<and> client_max_window_bits s \<le> 15"

text \<open>The default settings are in range and the setters keep them there.\<close>

lemma settings_ok_default: "settings_ok default_settings"
  by (simp add: settings_ok_def default_settings_def)

lemma settings_ok_setters:
  "settings_ok s \<Longrightarrow> max_window_bits r n s = Ok s' \<Longrightarrow> settings_ok s'"
  "settings_ok s \<Longrightarrow> settings_ok (no_context_takeover r on s)"
  "settings_ok s \<Longrightarrow> compression_level l s = Ok s' \<Longrightarrow> settings_ok s'"
  by (auto simp: settings_ok_def max_window_bits_def no_context_takeover_def compression_level_def
      split: role.splits if_splits)

lemma accept_response_within:
  assumes "settings_ok s"
  shows "case accept_response s values of
      Ok (Some t) \<Rightarrow> 9 \<le> client_max_window_bits t \<and> client_max_window_bits t \<le> client_max_window_bits s \<and>
        8 \<le> server_max_window_bits t \<and> server_max_window_bits t \<le> server_max_window_bits s \<and>
        (server_no_context_takeover s \<longrightarrow> server_no_context_takeover t) \<and>
        (client_no_context_takeover s \<longrightarrow> client_no_context_takeover t) \<and> compression t = compression s
    | Ok None \<Rightarrow> True
    | Err e \<Rightarrow> True
    | Panic \<Rightarrow> False"
proof (cases "select_in_values values None")
  case (Ok selected)
  show ?thesis
  proof (cases selected)
    case (Some p)
    then have "params_ok p" using select_in_values_ok [of None "values"] Ok by simp
    then show ?thesis
      using assms Ok Some
      by (auto simp: accept_response_def accept_params_def params_ok_def windows_ok_def settings_ok_def Let_def
          split: option.splits client_window.splits if_splits)
  qed (simp add: accept_response_def Ok)
next
  case (Err e)
  then show ?thesis by (simp add: accept_response_def)
next
  case Panic
  then show ?thesis using select_in_values_ok [of None "values"] by simp
qed

text \<open>
  Claim C34. Whatever a server answers, the client never panics on it, and settings it
  accepts keep within what it offered: its own compressor gets a window of 9 to 15 bits, no
  wider than configured, the server's window is no wider than the client asked for, and a
  demand for no context takeover is met.
\<close>

theorem accept_response_safe:
  assumes "settings_ok s"
  shows "case accept_response s values of
      Ok (Some t) \<Rightarrow> 9 \<le> client_max_window_bits t \<and> client_max_window_bits t \<le> client_max_window_bits s \<and>
        8 \<le> server_max_window_bits t \<and> server_max_window_bits t \<le> server_max_window_bits s \<and>
        (server_no_context_takeover s \<longrightarrow> server_no_context_takeover t) \<and>
        (client_no_context_takeover s \<longrightarrow> client_no_context_takeover t) \<and> compression t = compression s
    | Ok None \<Rightarrow> True
    | Err e \<Rightarrow> True
    | Panic \<Rightarrow> False"
  using accept_response_within [OF assms] .

text \<open>The conversion into a \<open>HeaderValue\<close> accepts visible ASCII, as documented.\<close>

definition accepts_ascii :: "(bytes \<Rightarrow> bytes option) \<Rightarrow> bool" where
  "accepts_ascii from_str \<longleftrightarrow> (\<forall>v. ascii_text v \<longrightarrow> from_str v = Some v)"

definition offer_window :: "settings \<Rightarrow> nat option" where
  "offer_window s = (if server_max_window_bits s < 15 then Some (server_max_window_bits s) else None)"

lemma offer_text:
  "offer from_str s = to_header from_str
     (extension_text (server_no_context_takeover s) (client_no_context_takeover s) (offer_window s) NoValue)"
  by (simp add: offer_def extension_text_def joined_def extension_parts_def offer_window_def server_nct_part_def
      client_nct_part_def server_bits_part_def client_window_part_def semicolon_def)

definition server_answer :: "settings \<Rightarrow> params \<Rightarrow> nat option" where
  "server_answer s p = (case p_server_bits p of
      Some bits \<Rightarrow> Some (min bits (server_max_window_bits s)) | None \<Rightarrow> offer_window s)"

definition client_answer :: "settings \<Rightarrow> params \<Rightarrow> nat" where
  "client_answer s p = (case p_client_window p of
      AbsentWindow \<Rightarrow> 15 | NoValue \<Rightarrow> client_max_window_bits s | Bits n \<Rightarrow> min n (client_max_window_bits s))"

definition answer_settings :: "settings \<Rightarrow> params \<Rightarrow> settings" where
  "answer_settings s p = s\<lparr>
     server_no_context_takeover := server_no_context_takeover s \<or> p_server_nct p,
     client_no_context_takeover := client_no_context_takeover s \<or> p_client_nct p,
     server_max_window_bits := (case server_answer s p of Some n \<Rightarrow> n | None \<Rightarrow> server_max_window_bits s),
     client_max_window_bits := client_answer s p\<rparr>"

lemma accept_offer_text:
  "accept_offer from_str s p =
     (if p_server_bits p = Some 8 then Ok None
      else bind_out (to_header from_str
          (extension_text (server_no_context_takeover s \<or> p_server_nct p) (client_no_context_takeover s \<or> p_client_nct p)
            (server_answer s p) (if client_answer s p < 15 then Bits (client_answer s p) else AbsentWindow)))
        (\<lambda>response. Ok (Some (answer_settings s p, response))))"
  by (simp add: accept_offer_def extension_text_def joined_def extension_parts_def offer_window_def server_nct_part_def
      client_nct_part_def server_bits_part_def client_bits_part_def semicolon_def Let_def server_answer_def
      client_answer_def answer_settings_def split: option.split)

lemma answer_windows_ok:
  assumes "settings_ok s" "params_ok p" "p_server_bits p \<noteq> Some 8"
  shows "windows_ok (server_answer s p) (if client_answer s p < 15 then Bits (client_answer s p) else AbsentWindow)"
    and "9 \<le> server_max_window_bits (answer_settings s p)"
    and "server_max_window_bits (answer_settings s p) \<le> server_max_window_bits s"
    and "8 \<le> client_max_window_bits (answer_settings s p)" "client_max_window_bits (answer_settings s p) \<le> 15"
  using assms
  by (auto simp: settings_ok_def params_ok_def windows_ok_def server_answer_def client_answer_def
      answer_settings_def offer_window_def split: option.splits client_window.splits)

theorem accept_response_safe_witness:
  "settings_ok default_settings \<and>
   (case accept_response default_settings [ascii ''permessage-deflate; server_max_window_bits=20''] of
      Ok (Some t) \<Rightarrow> 9 \<le> client_max_window_bits t | Panic \<Rightarrow> False | _ \<Rightarrow> True)"
  using accept_response_safe [OF settings_ok_default, of "[ascii ''permessage-deflate; server_max_window_bits=20'']"]
  by (simp add: settings_ok_default split: outcome.splits option.splits del: ascii_simps)

definition offer_result_ok :: "settings \<Rightarrow> settings \<times> bytes \<Rightarrow> bool" where
  "offer_result_ok s a \<longleftrightarrow> (case a of (t, response) \<Rightarrow>
     9 \<le> server_max_window_bits t \<and> server_max_window_bits t \<le> server_max_window_bits s \<and>
     8 \<le> client_max_window_bits t \<and> client_max_window_bits t \<le> 15 \<and>
     (server_no_context_takeover s \<longrightarrow> server_no_context_takeover t) \<and>
     (client_no_context_takeover s \<longrightarrow> client_no_context_takeover t) \<and>
     compression t = compression s \<and> ascii_text response)"

lemma accept_offer_ok:
  assumes "settings_ok s" "params_ok p" "accepts_ascii from_str"
  shows "case accept_offer from_str s p of Ok (Some a) \<Rightarrow> offer_result_ok s a | Ok None \<Rightarrow> True | _ \<Rightarrow> False"
proof (cases "p_server_bits p = Some 8")
  case True
  then show ?thesis by (simp add: accept_offer_text)
next
  case False
  note w = answer_windows_ok [OF assms(1,2) False]
  note visible = split_extension_text(3) [OF w(1), of "server_no_context_takeover s \<or> p_server_nct p"
      "client_no_context_takeover s \<or> p_client_nct p"]
  then have "accept_offer from_str s p = Ok (Some (answer_settings s p,
      extension_text (server_no_context_takeover s \<or> p_server_nct p) (client_no_context_takeover s \<or> p_client_nct p)
        (server_answer s p) (if client_answer s p < 15 then Bits (client_answer s p) else AbsentWindow)))"
    using False assms(3) by (simp add: accept_offer_text to_header_def accepts_ascii_def)
  then show ?thesis
    using w visible by (simp add: offer_result_ok_def) (simp add: answer_settings_def)
qed

lemma accept_offers_within:
  assumes "settings_ok s" "accepts_ascii from_str"
  shows "case accept_offers from_str s offers of
      Ok (Some (t, response)) \<Rightarrow>
        9 \<le> server_max_window_bits t \<and> server_max_window_bits t \<le> server_max_window_bits s \<and>
        8 \<le> client_max_window_bits t \<and> client_max_window_bits t \<le> 15 \<and>
        (server_no_context_takeover s \<longrightarrow> server_no_context_takeover t) \<and>
        (client_no_context_takeover s \<longrightarrow> client_no_context_takeover t) \<and>
        compression t = compression s \<and> ascii_text response
    | Ok None \<Rightarrow> True
    | Err e \<Rightarrow> False
    | Panic \<Rightarrow> False"
proof -
  have "case choose_offer from_str s es fallback of
      Ok (Some a) \<Rightarrow> offer_result_ok s a | Ok None \<Rightarrow> True | _ \<Rightarrow> False"
    if "case fallback of Some a \<Rightarrow> offer_result_ok s a | None \<Rightarrow> True" for es fallback
    using that
  proof (induction es arbitrary: fallback)
    case Nil
    then show ?case by (simp split: option.splits)
  next
    case (Cons e es)
    show ?case
    proof (cases "\<exists>p. parse_extension e = Ok (Deflate p)")
      case True
      then obtain p where p: "parse_extension e = Ok (Deflate p)" by blast
      then have "params_ok p" using parse_extension_ok [of e] by simp
      note acc = accept_offer_ok [OF assms(1) this assms(2)]
      then obtain r where r: "accept_offer from_str s p = Ok r" by (auto split: outcome.splits)
      show ?thesis
      proof (cases r)
        case None
        then show ?thesis using Cons.IH [OF Cons.prems] by (simp add: p r)
      next
        case (Some a)
        then have a: "offer_result_ok s a" using acc r by simp
        then have "case (case fallback of Some f \<Rightarrow> Some f | None \<Rightarrow> Some a) of Some a \<Rightarrow> offer_result_ok s a | None \<Rightarrow> True"
          using Cons.prems by (cases fallback) simp_all
        from Cons.IH [OF this] show ?thesis using a by (simp add: p r Some)
      qed
    next
      case False
      then have "choose_offer from_str s (e # es) fallback = choose_offer from_str s es fallback"
        using parse_extension_ok [of e] by (auto split: outcome.splits extension.splits)
      then show ?thesis using Cons.IH [OF Cons.prems] by simp
    qed
  qed
  from this [of None "offered_extensions offers"] show ?thesis
    by (auto simp: accept_offers_def offer_result_ok_def split: outcome.splits option.splits prod.splits)
qed



lemma accept_params_Ok:
  assumes "settings_ok s" "server_no_context_takeover s \<Longrightarrow> p_server_nct q"
    and "case p_server_bits q of Some n \<Rightarrow> 9 \<le> n \<and> n \<le> server_max_window_bits s | None \<Rightarrow> server_max_window_bits s = 15"
    and "case p_client_window q of Bits n \<Rightarrow> 9 \<le> n | NoValue \<Rightarrow> False | AbsentWindow \<Rightarrow> True"
  shows "\<exists>t. accept_params s q = Ok t \<and> settings_ok t \<and>
    server_no_context_takeover t = p_server_nct q \<and>
    client_no_context_takeover t = (client_no_context_takeover s \<or> p_client_nct q) \<and>
    server_max_window_bits t = (case p_server_bits q of Some n \<Rightarrow> n | None \<Rightarrow> 15) \<and>
    client_max_window_bits t = (case p_client_window q of Bits n \<Rightarrow> min n (client_max_window_bits s) | _ \<Rightarrow> client_max_window_bits s)"
  using assms
  by (cases "p_server_bits q"; cases "p_client_window q")
    (auto simp: accept_params_def settings_ok_def Let_def)

lemma negotiation_succeeds:
  assumes "settings_ok cs" "settings_ok ss" "accepts_ascii from_str"
  shows "\<exists>request response srv cli.
    offer from_str cs = Ok request \<and>
    accept_offers from_str ss [request] = Ok (Some (srv, response)) \<and>
    accept_response cs [response] = Ok (Some cli) \<and>
    server_no_context_takeover cli = server_no_context_takeover srv \<and>
    client_no_context_takeover cli = client_no_context_takeover srv \<and>
    server_max_window_bits cli = server_max_window_bits srv \<and>
    client_max_window_bits cli \<le> client_max_window_bits srv \<and>
    settings_ok srv \<and> settings_ok cli \<and> ascii_text request \<and> ascii_text response"
proof -
  let ?sn = "server_no_context_takeover cs" and ?cn = "client_no_context_takeover cs"
  have win: "windows_ok (offer_window cs) NoValue"
    using assms(1) by (simp add: windows_ok_def offer_window_def settings_ok_def)
  obtain seen where req: "parse_extension (extension_text ?sn ?cn (offer_window cs) NoValue) =
      Ok (Deflate \<lparr>p_server_nct = ?sn, p_client_nct = ?cn, p_server_bits = offer_window cs,
        p_client_window = NoValue, p_seen = seen\<rparr>)" (is "_ = Ok (Deflate ?p)")
    using parse_extension_text [OF win] by blast
  have p: "params_ok ?p" "p_server_bits ?p \<noteq> Some 8"
    using win assms(1) by (auto simp: params_ok_def offer_window_def settings_ok_def)
  let ?srv = "answer_settings ss ?p"
  let ?cw = "if client_answer ss ?p < 15 then Bits (client_answer ss ?p) else AbsentWindow"
  let ?sn' = "server_no_context_takeover ss \<or> ?sn" and ?cn' = "client_no_context_takeover ss \<or> ?cn"
  let ?resp = "extension_text ?sn' ?cn' (server_answer ss ?p) ?cw"
  note ans = answer_windows_ok [OF assms(2) p]
  have acc: "accept_offer from_str ss ?p = Ok (Some (?srv, ?resp))"
    using assms(3) p(2) split_extension_text(3) [OF ans(1), of ?sn' ?cn']
    by (simp add: accept_offer_text to_header_def accepts_ascii_def)
  have o: "offer from_str cs = Ok (extension_text ?sn ?cn (offer_window cs) NoValue)"
    using assms(3) split_extension_text(3) [OF win, of ?sn ?cn]
    by (simp add: offer_text to_header_def accepts_ascii_def)
  have s: "accept_offers from_str ss [extension_text ?sn ?cn (offer_window cs) NoValue] = Ok (Some (?srv, ?resp))"
    by (simp add: accept_offers_def offered_extensions_def split_extension_text(1) [OF win] req acc)
  obtain seen' where resp: "parse_extension ?resp = Ok (Deflate \<lparr>p_server_nct = ?sn', p_client_nct = ?cn',
      p_server_bits = server_answer ss ?p, p_client_window = ?cw, p_seen = seen'\<rparr>)" (is "_ = Ok (Deflate ?q)")
    using parse_extension_text [OF ans(1)] by blast
  have c: "accept_response cs [?resp] = bind_out (accept_params cs ?q) (\<lambda>agreed. Ok (Some agreed))"
    by (simp add: accept_response_def split_extension_text(1) [OF ans(1)] resp)
  have sa: "case server_answer ss ?p of Some n \<Rightarrow> 9 \<le> n \<and> n \<le> server_max_window_bits cs | None \<Rightarrow> server_max_window_bits cs = 15"
    using assms(1,2) by (simp add: server_answer_def offer_window_def settings_ok_def)
  have ca: "case ?cw of Bits n \<Rightarrow> 9 \<le> n | NoValue \<Rightarrow> False | AbsentWindow \<Rightarrow> True"
    using assms(2) by (simp add: client_answer_def settings_ok_def)
  obtain cli where cli: "accept_params cs ?q = Ok cli" "settings_ok cli"
    "server_no_context_takeover cli = ?sn'" "client_no_context_takeover cli = (?cn \<or> ?cn')"
    "server_max_window_bits cli = (case server_answer ss ?p of Some n \<Rightarrow> n | None \<Rightarrow> 15)"
    "client_max_window_bits cli = (case ?cw of Bits n \<Rightarrow> min n (client_max_window_bits cs) | _ \<Rightarrow> client_max_window_bits cs)"
    using accept_params_Ok [of cs ?q, unfolded params.simps, OF assms(1) disjI2 sa ca] by blast
  have agree: "server_max_window_bits cli = server_max_window_bits ?srv"
    "client_max_window_bits cli \<le> client_max_window_bits ?srv"
    using cli(5,6) assms(1,2)
    by (auto simp: answer_settings_def server_answer_def client_answer_def offer_window_def settings_ok_def)
  have "settings_ok ?srv" using ans assms(2) by (auto simp: settings_ok_def answer_settings_def client_answer_def)
  then show ?thesis
    using o s c cli agree split_extension_text(3) [OF win, of ?sn ?cn] split_extension_text(3) [OF ans(1), of ?sn' ?cn']
    by (auto simp: answer_settings_def)
qed

text \<open>
  Claim C9. Two endpoints of this crate that negotiate with each other agree: the server
  accepts the client's offer, the client accepts the answer, both then have the same
  context-takeover flags and the same server window, and the window the client compresses
  with is no wider than the one the server decompresses with.
\<close>

theorem negotiation_agrees:
  assumes "settings_ok cs" "settings_ok ss" "accepts_ascii from_str"
  shows "\<exists>request response srv cli.
    offer from_str cs = Ok request \<and>
    accept_offers from_str ss [request] = Ok (Some (srv, response)) \<and>
    accept_response cs [response] = Ok (Some cli) \<and>
    server_no_context_takeover cli = server_no_context_takeover srv \<and>
    client_no_context_takeover cli = client_no_context_takeover srv \<and>
    server_max_window_bits cli = server_max_window_bits srv \<and>
    client_max_window_bits cli \<le> client_max_window_bits srv \<and>
    settings_ok srv \<and> settings_ok cli"
  using negotiation_succeeds [OF assms] by blast

theorem negotiation_agrees_witness:
  "\<exists>request response srv cli.
    offer Some (default_settings\<lparr>client_max_window_bits := 10\<rparr>) = Ok request \<and>
    accept_offers Some (default_settings\<lparr>server_max_window_bits := 12\<rparr>) [request] = Ok (Some (srv, response)) \<and>
    accept_response (default_settings\<lparr>client_max_window_bits := 10\<rparr>) [response] = Ok (Some cli) \<and>
    client_max_window_bits cli \<le> client_max_window_bits srv"
  using negotiation_agrees [of "default_settings\<lparr>client_max_window_bits := 10\<rparr>"
      "default_settings\<lparr>server_max_window_bits := 12\<rparr>" Some]
  by (auto simp: settings_ok_def default_settings_def accepts_ascii_def)

end
