(* ===== verification/Http.thy ===== *)
theory Http
  imports Deflate_Negotiate
begin

text \<open>
  HTTP as the handshake uses it: requests, responses and header maps, and the functions of
  the crates \<open>http\<close>, \<open>httparse\<close>, \<open>sha1\<close> and \<open>data-encoding\<close> that the code calls. These are
  no code of this repository, so they are the parameter \<open>http_lib\<close>; what the properties need
  of them is stated by \<open>header_map_laws\<close> and the other predicates below.

  Also \<open>src/src/handshake/headers.rs\<close> and the helpers of \<open>src/src/handshake/mod.rs\<close>.
\<close>

section \<open>Versions\<close>

datatype http_version = Http09 | Http10 | Http11 | Http2 | Http3

fun version_rank :: "http_version \<Rightarrow> nat" where
  "version_rank Http09 = 0"
| "version_rank Http10 = 1"
| "version_rank Http11 = 2"
| "version_rank Http2 = 3"
| "version_rank Http3 = 4"

instantiation http_version :: linorder
begin

definition less_eq_http_version :: "http_version \<Rightarrow> http_version \<Rightarrow> bool" where
  "less_eq_http_version a b \<longleftrightarrow> version_rank a \<le> version_rank b"

definition less_http_version :: "http_version \<Rightarrow> http_version \<Rightarrow> bool" where
  "less_http_version a b \<longleftrightarrow> version_rank a < version_rank b"

instance
proof
  fix a b :: http_version
  show "a \<le> b \<Longrightarrow> b \<le> a \<Longrightarrow> a = b"
    by (cases a; cases b) (simp_all add: less_eq_http_version_def)
qed (auto simp: less_eq_http_version_def less_http_version_def)

end

fun version_as_str :: "http_version \<Rightarrow> bytes result" where
  "version_as_str Http09 = Ok (ascii ''HTTP/0.9'')"
| "version_as_str Http10 = Ok (ascii ''HTTP/1.0'')"
| "version_as_str Http11 = Ok (ascii ''HTTP/1.1'')"
| "version_as_str _ = Err (Protocol WrongHttpVersion)"

section \<open>The libraries\<close>

text \<open>A \<open>HeaderMap\<close> is what iterating over it yields: names in lower case with their values.\<close>

type_synonym header_map = "(bytes \<times> bytes) list"

text \<open>What \<open>httparse\<close> hands over.\<close>

record raw_request =
  raw_method :: "bytes option"
  raw_path :: "bytes option"
  raw_version :: "nat option"
  raw_headers :: "(bytes \<times> bytes) list"

record raw_response =
  raw_response_version :: "nat option"
  raw_code :: "nat option"
  raw_response_headers :: "(bytes \<times> bytes) list"

record 'u http_lib =
  header_name :: "bytes \<Rightarrow> bytes option"           \<comment> \<open>\<open>HeaderName::from_bytes\<close>\<close>
  header_value :: "bytes \<Rightarrow> bytes option"          \<comment> \<open>\<open>HeaderValue::from_bytes\<close>\<close>
  header_value_str :: "bytes \<Rightarrow> bytes option"      \<comment> \<open>\<open>HeaderValue::from_str\<close>\<close>
  to_str :: "bytes \<Rightarrow> bytes option"                \<comment> \<open>\<open>HeaderValue::to_str\<close>\<close>
  hm_get :: "bytes \<Rightarrow> header_map \<Rightarrow> bytes option"
  hm_get_all :: "bytes \<Rightarrow> header_map \<Rightarrow> bytes list"
  hm_contains :: "bytes \<Rightarrow> header_map \<Rightarrow> bool"
  hm_append :: "bytes \<Rightarrow> bytes \<Rightarrow> header_map \<Rightarrow> header_map"
  hm_remove :: "bytes \<Rightarrow> header_map \<Rightarrow> bytes option \<times> header_map"
  status_from_u16 :: "nat \<Rightarrow> nat option"
  status_display :: "nat \<Rightarrow> bytes"
  status_is_success :: "nat \<Rightarrow> bool"
  status_is_redirection :: "nat \<Rightarrow> bool"
  uri_parse :: "bytes \<Rightarrow> 'u option"
  uri_scheme :: "'u \<Rightarrow> bytes option"
  uri_authority :: "'u \<Rightarrow> bytes option"
  uri_path_and_query :: "'u \<Rightarrow> bytes option"
  uri_host :: "'u \<Rightarrow> bytes option"
  uri_port :: "'u \<Rightarrow> nat option"
  uri_display :: "'u \<Rightarrow> bytes"
  parse_request :: "nat \<Rightarrow> bytes \<Rightarrow> (httparse_error, (nat \<times> raw_request) option) outcome"
  parse_response :: "nat \<Rightarrow> bytes \<Rightarrow> (httparse_error, (nat \<times> raw_response) option) outcome"
  parse_headers :: "nat \<Rightarrow> bytes \<Rightarrow> (httparse_error, (nat \<times> (bytes \<times> bytes) list) option) outcome"
  sha1 :: "bytes \<Rightarrow> bytes"
  base64_encode :: "bytes \<Rightarrow> bytes"
  base64_decode :: "bytes \<Rightarrow> bytes option"

definition MAX_HEADERS :: nat where
  "MAX_HEADERS = 124"

definition derive_accept_key :: "'u http_lib \<Rightarrow> bytes \<Rightarrow> bytes" where
  "derive_accept_key H request_key =
     base64_encode H (sha1 H (request_key @ ascii ''258EAFA5-E914-47DA-95CA-C5AB0DC85B11''))"

section \<open>Requests and responses\<close>

record 'u http_request =
  rq_method :: bytes
  rq_uri :: 'u
  rq_version :: http_version
  rq_headers :: header_map

record 'b http_reply =
  rp_status :: nat
  rp_version :: http_version
  rp_headers :: header_map
  rp_body :: 'b

text \<open>A response inside \<open>Error::Http\<close>.\<close>

definition http_error :: "bytes option http_reply \<Rightarrow> error" where
  "http_error r = Http \<lparr>resp_status = rp_status r, resp_headers = rp_headers r, resp_body = rp_body r\<rparr>"

definition lift_httparse :: "(httparse_error, 'a) outcome \<Rightarrow> 'a result" where
  "lift_httparse r = (case r of Ok a \<Rightarrow> Ok a | Err e \<Rightarrow> Err (error_from_httparse e) | Panic \<Rightarrow> Panic)"

fun headers_from_httparse :: "'u http_lib \<Rightarrow> header_map \<Rightarrow> (bytes \<times> bytes) list \<Rightarrow> header_map result" where
  "headers_from_httparse H headers [] = Ok headers"
| "headers_from_httparse H headers ((n, v) # raw) =
     bind_out (ok_or error_from_invalid_header_name (header_name H n)) (\<lambda>name.
     bind_out (ok_or error_from_invalid_header_value (header_value H v)) (\<lambda>val.
       headers_from_httparse H (hm_append H name val headers) raw))"

definition headers_try_parse :: "'u http_lib \<Rightarrow> bytes \<Rightarrow> (nat \<times> header_map) option result" where
  "headers_try_parse H buf =
     bind_out (lift_httparse (parse_headers H MAX_HEADERS buf)) (\<lambda>status.
       case status of
         None \<Rightarrow> Ok None
       | Some (len, raw) \<Rightarrow> bind_out (headers_from_httparse H [] raw) (\<lambda>h. Ok (Some (len, h))))"

text \<open>\<open>header\<close> of a request or response builder with texts, which \<open>body\<close> reports on failure.\<close>

definition builder_header ::
  "'u http_lib \<Rightarrow> bytes \<Rightarrow> bytes \<Rightarrow> header_map result \<Rightarrow> header_map result" where
  "builder_header H n v b =
     bind_out b (\<lambda>headers.
     bind_out (ok_or error_from_invalid_header_name (header_name H n)) (\<lambda>name.
     bind_out (ok_or error_from_invalid_header_value (header_value_str H v)) (\<lambda>val.
       Ok (hm_append H name val headers))))"

text \<open>\<open>str::split\<close> on a set of characters.\<close>

fun split_on :: "u8 set \<Rightarrow> bytes \<Rightarrow> bytes list" where
  "split_on ds [] = [[]]"
| "split_on ds (b # bs) =
     (if b \<in> ds then [] # split_on ds bs
      else case split_on ds bs of [] \<Rightarrow> [[b]] | p # ps \<Rightarrow> (b # p) # ps)"

lemma split_on_ne [simp]: "split_on ds bs \<noteq> []"
  by (induction bs) (auto split: list.split)

lemma split_on_whole: "set bs \<inter> ds = {} \<Longrightarrow> split_on ds bs = [bs]"
  by (induction bs) auto

text \<open>A header that is there, is text and satisfies \<open>P\<close>: \<open>get(..).and_then(to_str().ok()).map(P)\<close>.\<close>

definition header_text_is :: "'u http_lib \<Rightarrow> bytes \<Rightarrow> (bytes \<Rightarrow> bool) \<Rightarrow> header_map \<Rightarrow> bool" where
  "header_text_is H name P headers \<longleftrightarrow>
     (case hm_get H name headers of
        None \<Rightarrow> False
      | Some h \<Rightarrow> (case to_str H h of None \<Rightarrow> False | Some s \<Rightarrow> P s))"

section \<open>What the libraries document\<close>

definition same_name :: "bytes \<Rightarrow> bytes \<Rightarrow> bool" where
  "same_name a b \<longleftrightarrow> eq_ignore_ascii_case a b"

text \<open>The values of a name in a list of headers, in order.\<close>

definition values_of :: "bytes \<Rightarrow> header_map \<Rightarrow> bytes list" where
  "values_of n h = map snd (filter (\<lambda>(k, v). same_name k n) h)"

text \<open>
  \<open>HeaderMap\<close> is a multimap whose lookup ignores the case of the name: \<open>get\<close> gives the first
  value, \<open>get_all\<close> all of them in order, \<open>append\<close> adds one behind them, \<open>remove\<close> removes all
  of them and gives the first.
\<close>

definition header_map_laws :: "'u http_lib \<Rightarrow> bool" where
  "header_map_laws H \<longleftrightarrow>
     (\<forall>n. hm_get_all H n [] = []) \<and>
     (\<forall>n h. hm_get H n h = (case hm_get_all H n h of [] \<Rightarrow> None | v # _ \<Rightarrow> Some v)) \<and>
     (\<forall>n h. hm_contains H n h \<longleftrightarrow> hm_get_all H n h \<noteq> []) \<and>
     (\<forall>n m v h. hm_get_all H m (hm_append H n v h) = hm_get_all H m h @ (if same_name n m then [v] else [])) \<and>
     (\<forall>n h. fst (hm_remove H n h) = hm_get H n h) \<and>
     (\<forall>n m h. hm_get_all H m (snd (hm_remove H n h)) = (if same_name n m then [] else hm_get_all H m h)) \<and>
     (\<forall>n h. hm_get_all H n h = values_of n h)"

definition token_char :: "u8 \<Rightarrow> bool" where
  "token_char b \<longleftrightarrow> (48 \<le> unat b \<and> unat b \<le> 57) \<or> (65 \<le> unat b \<and> unat b \<le> 90) \<or>
     (97 \<le> unat b \<and> unat b \<le> 122) \<or> b = 45"

text \<open>Header names of letters, digits and hyphens are put in lower case; visible ASCII is a value.\<close>

definition header_text_laws :: "'u http_lib \<Rightarrow> bool" where
  "header_text_laws H \<longleftrightarrow>
     (\<forall>n. n \<noteq> [] \<and> list_all token_char n \<longrightarrow> header_name H n = Some (map ascii_lower n)) \<and>
     (\<forall>v. ascii_text v \<longrightarrow>
        header_value H v = Some v \<and> header_value_str H v = Some v \<and> to_str H v = Some v)"

text \<open>Base64 is visible ASCII; 16 bytes are 24 characters, which are decoded to 16 bytes again.\<close>

definition base64_laws :: "'u http_lib \<Rightarrow> bool" where
  "base64_laws H \<longleftrightarrow>
     (\<forall>d. ascii_text (base64_encode H d)) \<and>
     (\<forall>d. length d = 16 \<longrightarrow> length (base64_encode H d) = 24 \<and> map_option length (base64_decode H (base64_encode H d)) = Some 16)"

lemma header_map_lawsD:
  assumes "header_map_laws H"
  shows "hm_get_all H n [] = []"
    "hm_get H n h = (case hm_get_all H n h of [] \<Rightarrow> None | v # _ \<Rightarrow> Some v)"
    "hm_contains H n h \<longleftrightarrow> hm_get_all H n h \<noteq> []"
    "hm_get_all H m (hm_append H n v h) = hm_get_all H m h @ (if same_name n m then [v] else [])"
    "fst (hm_remove H n h) = hm_get H n h"
    "hm_get_all H m (snd (hm_remove H n h)) = (if same_name n m then [] else hm_get_all H m h)"
    "hm_get_all H n h = values_of n h"
  using assms unfolding header_map_laws_def by metis+

lemma header_text_lawsD:
  assumes "header_text_laws H"
  shows "n \<noteq> [] \<Longrightarrow> list_all token_char n \<Longrightarrow> header_name H n = Some (map ascii_lower n)"
    "ascii_text v \<Longrightarrow> header_value H v = Some v"
    "ascii_text v \<Longrightarrow> header_value_str H v = Some v"
    "ascii_text v \<Longrightarrow> to_str H v = Some v"
  using assms unfolding header_text_laws_def by simp_all

lemma map_ascii_lower_lower [simp]: "map ascii_lower (map ascii_lower xs) = map ascii_lower xs"
proof -
  have "ascii_lower (ascii_lower b) = ascii_lower b" for b
  proof (cases "65 \<le> b \<and> b \<le> 90")
    case True
    then have "65 \<le> unat b \<and> unat b \<le> 90" by (simp add: word_le_nat_alt)
    then have "\<not> (b + 32 \<le> 90)" by (simp add: word_le_nat_alt unat_word_ariths)
    then show ?thesis using True by (simp add: ascii_lower_def)
  qed (auto simp: ascii_lower_def)
  then show ?thesis by simp
qed

lemma same_name_lower [simp]:
  "same_name (map ascii_lower a) b \<longleftrightarrow> same_name a b"
  "same_name a (map ascii_lower b) \<longleftrightarrow> same_name a b"
  by (simp_all only: same_name_def eq_ignore_ascii_case_def map_ascii_lower_lower)

lemma same_name_refl [simp]: "same_name a a"
  by (simp add: same_name_def eq_ignore_ascii_case_def)

lemma same_name_sym: "same_name a b \<longleftrightarrow> same_name b a"
  by (auto simp: same_name_def eq_ignore_ascii_case_def)

lemma values_of_simps [simp]:
  "values_of n [] = []"
  "values_of n ((k, v) # h) = (if same_name k n then [v] else []) @ values_of n h"
  "values_of n (xs @ ys) = values_of n xs @ values_of n ys"
  by (simp_all add: values_of_def)

lemma values_of_in: "(k, v) \<in> set h \<Longrightarrow> v \<in> set (values_of k h)"
  by (force simp: values_of_def)

lemma values_of_from: "v \<in> set (values_of n h) \<Longrightarrow> \<exists>k. (k, v) \<in> set h \<and> same_name k n"
  by (auto simp: values_of_def)

end
