(* ===== verification/Read_Buffer.thy ===== *)
theory Read_Buffer
  imports Stream
begin

text \<open>
  The buffer that the handshake reads into, \<open>src/src/buffer.rs\<close>: a vector with a cursor,
  filled in chunks of \<open>CHUNK_SIZE\<close> bytes (\<open>READ_BUFFER_CHUNK_SIZE\<close> of \<open>src/src/lib.rs\<close>), and
  the contract it is used by, a queue of bytes.
\<close>

section \<open>Cursors\<close>

text \<open>\<open>Cursor<Vec<u8>>\<close>, also the state of the writing half of the handshake machine.\<close>

record cursor =
  cur_data :: bytes
  cur_pos :: nat

definition cursor_new :: "bytes \<Rightarrow> cursor" where
  "cursor_new part = \<lparr>cur_data = part, cur_pos = 0\<rparr>"

definition cursor_chunk :: "cursor \<Rightarrow> bytes" where
  "cursor_chunk c = drop (cur_pos c) (cur_data c)"

definition cursor_remaining :: "cursor \<Rightarrow> nat" where
  "cursor_remaining c = length (cur_data c) - cur_pos c"

definition cursor_advance :: "nat \<Rightarrow> cursor \<Rightarrow> ('e, unit) outcome \<times> cursor" where
  "cursor_advance cnt c =
     (if cnt \<le> cursor_remaining c then (Ok (), c\<lparr>cur_pos := cur_pos c + cnt\<rparr>) else (Panic, c))"

lemma length_cursor_chunk [simp]: "length (cursor_chunk c) = cursor_remaining c"
  by (simp add: cursor_chunk_def cursor_remaining_def)

lemma cursor_new_simps [simp]:
  "cursor_chunk (cursor_new d) = d" "cursor_remaining (cursor_new d) = length d"
  by (simp_all add: cursor_chunk_def cursor_remaining_def cursor_new_def)

lemma cursor_advance_Ok:
  "cursor_advance cnt c = (Ok (), c') \<longleftrightarrow>
     cnt \<le> cursor_remaining c \<and> c' = c\<lparr>cur_pos := cur_pos c + cnt\<rparr>"
  by (auto simp: cursor_advance_def)

lemma cursor_advance_chunk:
  "cursor_advance cnt c = (Ok (), c') \<Longrightarrow>
     cursor_chunk c' = drop cnt (cursor_chunk c) \<and> cursor_remaining c' = cursor_remaining c - cnt"
  by (simp add: cursor_advance_Ok cursor_chunk_def cursor_remaining_def)
    (simp add: add.commute)

section \<open>The buffer\<close>

record read_buffer =
  storage :: cursor

definition CHUNK_SIZE :: nat where
  "CHUNK_SIZE = 4096"

definition read_buffer_from_partially_read :: "bytes \<Rightarrow> read_buffer" where
  "read_buffer_from_partially_read part = \<lparr>storage = cursor_new part\<rparr>"

definition read_buffer_new :: read_buffer where
  "read_buffer_new = read_buffer_from_partially_read []"

definition clean_up :: "read_buffer \<Rightarrow> ('e, unit) outcome \<times> read_buffer" where
  "clean_up b =
     (let c = storage b in
      if cur_pos c > length (cur_data c) then (Panic, b)
      else (Ok (), b\<lparr>storage := \<lparr>cur_data = drop (cur_pos c) (cur_data c), cur_pos = 0\<rparr>\<rparr>))"

definition into_vec :: "read_buffer \<Rightarrow> ('e, bytes) outcome" where
  "into_vec b =
     (case clean_up b of (Ok _, b1) \<Rightarrow> Ok (cur_data (storage b1)) | (Err e, _) \<Rightarrow> Err e | (Panic, _) \<Rightarrow> Panic)"

definition read_from ::
  "read_buffer \<times> world \<Rightarrow> (io_kind, nat) outcome \<times> read_buffer \<times> world" where
  "read_from s =
     (case s of (b, w) \<Rightarrow>
       (case clean_up b of
          (Ok _, b1) \<Rightarrow>
            (case stream_read CHUNK_SIZE w of
               (Ok bs, w1) \<Rightarrow>
                 (Ok (length bs),
                  b1\<lparr>storage := (storage b1)\<lparr>cur_data := cur_data (storage b1) @ bs\<rparr>\<rparr>, w1)
             | (Err k, w1) \<Rightarrow> (Err k, b1, w1)
             | (Panic, w1) \<Rightarrow> (Panic, b1, w1))
        | (Err k, b1) \<Rightarrow> (Err k, b1, w)
        | (Panic, b1) \<Rightarrow> (Panic, b1, w)))"

definition buffer_chunk :: "read_buffer \<Rightarrow> bytes" where
  "buffer_chunk b = cursor_chunk (storage b)"

definition buffer_remaining :: "read_buffer \<Rightarrow> nat" where
  "buffer_remaining b = cursor_remaining (storage b)"

definition buffer_advance :: "nat \<Rightarrow> read_buffer \<Rightarrow> ('e, unit) outcome \<times> read_buffer" where
  "buffer_advance cnt b =
     (case cursor_advance cnt (storage b) of (r, c) \<Rightarrow> (r, b\<lparr>storage := c\<rparr>))"

text \<open>The cursor stays inside the vector.\<close>

definition buffer_ok :: "read_buffer \<Rightarrow> bool" where
  "buffer_ok b \<longleftrightarrow> cur_pos (storage b) \<le> length (cur_data (storage b))"

section \<open>The contract: a queue of bytes\<close>

locale byte_queue =
  fixes valid :: "'b \<Rightarrow> bool"
    and pending :: "'b \<Rightarrow> bytes"
    and fill :: "'b \<times> world \<Rightarrow> (io_kind, nat) outcome \<times> 'b \<times> world"
    and take_off :: "nat \<Rightarrow> 'b \<Rightarrow> (error, unit) outcome \<times> 'b"
    and finish :: "'b \<Rightarrow> (error, bytes) outcome"
  assumes fill_law: "valid b \<Longrightarrow> fill (b, w) = (r, b', w') \<Longrightarrow>
      valid b' \<and> r \<noteq> Panic \<and>
      (\<exists>bs. pending b' = pending b @ bs \<and> script_bytes (reads w) = bs @ script_bytes (reads w') \<and>
        (case r of Ok n \<Rightarrow> n = length bs | Err k \<Rightarrow> bs = [] | Panic \<Rightarrow> True))"
    and take_off_law: "valid b \<Longrightarrow> take_off n b = (q, b') \<Longrightarrow>
      valid b' \<and> (if n \<le> length (pending b) then q = Ok () \<and> pending b' = drop n (pending b)
        else q = Panic)"
    and finish_law: "valid b \<Longrightarrow> finish b = Ok (pending b)"
begin

text \<open>Bytes leave the buffer in the order in which the stream delivered them, none is lost.\<close>

lemma fill_conserves:
  "valid b \<Longrightarrow> fill (b, w) = (r, b', w') \<Longrightarrow>
     pending b' @ script_bytes (reads w') = pending b @ script_bytes (reads w)"
  using fill_law [of b w r b' w'] by auto

lemma fill_count:
  "valid b \<Longrightarrow> fill (b, w) = (Ok n, b', w') \<Longrightarrow> length (pending b') = length (pending b) + n"
  using fill_law [of b w "Ok n" b' w'] by auto

lemma split_off:
  "valid b \<Longrightarrow> take_off n b = (Ok (), b') \<Longrightarrow>
     valid b' \<and> pending b = take n (pending b) @ pending b' \<and> finish b' = Ok (pending b')"
  using take_off_law [of b n "Ok ()" b'] finish_law [of b'] by (auto split: if_splits)

end

lemma stream_read_law:
  assumes "stream_read n w = (r, w')"
  shows "r \<noteq> Panic \<and> (case r of
      Ok bs \<Rightarrow> script_bytes (reads w) = bs @ script_bytes (reads w')
    | Err k \<Rightarrow> script_bytes (reads w) = script_bytes (reads w')
    | Panic \<Rightarrow> True)"
proof (cases r)
  case (Ok bs)
  then show ?thesis using stream_read_bytes [of n w bs w'] assms by simp
next
  case (Err k)
  then have "reads w = RdErr k # reads w'" using stream_read_Err [of n w k w'] assms by blast
  then show ?thesis using Err by simp
next
  case Panic
  then show ?thesis using assms by simp
qed

lemma clean_up_ok:
  "buffer_ok b \<Longrightarrow> clean_up b = (Ok (), \<lparr>storage = cursor_new (buffer_chunk b)\<rparr>)"
  by (cases b) (simp add: clean_up_def buffer_ok_def buffer_chunk_def cursor_chunk_def cursor_new_def Let_def)

lemma read_from_ok:
  assumes "buffer_ok b" "stream_read CHUNK_SIZE w = (r, w')"
  shows "read_from (b, w) =
    (case r of
       Ok bs \<Rightarrow> (Ok (length bs), \<lparr>storage = cursor_new (buffer_chunk b @ bs)\<rparr>, w')
     | Err k \<Rightarrow> (Err k, \<lparr>storage = cursor_new (buffer_chunk b)\<rparr>, w')
     | Panic \<Rightarrow> (Panic, \<lparr>storage = cursor_new (buffer_chunk b)\<rparr>, w'))"
  using assms(2) by (cases r) (simp_all add: read_from_def clean_up_ok [OF assms(1)] cursor_new_def)

lemma buffer_of_cursor [simp]:
  "buffer_ok \<lparr>storage = cursor_new d\<rparr>" "buffer_chunk \<lparr>storage = cursor_new d\<rparr> = d"
  by (simp_all add: buffer_ok_def buffer_chunk_def cursor_new_def cursor_chunk_def)

interpretation rb: byte_queue buffer_ok buffer_chunk read_from buffer_advance into_vec
proof
  fix b w r b' w' and n :: nat
  show "buffer_ok b' \<and> r \<noteq> Panic \<and>
      (\<exists>bs. buffer_chunk b' = buffer_chunk b @ bs \<and> script_bytes (reads w) = bs @ script_bytes (reads w') \<and>
        (case r of Ok n \<Rightarrow> n = length bs | Err k \<Rightarrow> bs = [] | Panic \<Rightarrow> True))"
    if "buffer_ok b" "read_from (b, w) = (r, b', w')"
  proof -
    obtain r1 w1 where s: "stream_read CHUNK_SIZE w = (r1, w1)" by (rule prod.exhaust)
    show ?thesis
      using that(2) stream_read_law [OF s] by (cases r1) (auto simp: read_from_ok [OF that(1) s])
  qed
  show "buffer_ok b' \<and> (if n \<le> length (buffer_chunk b)
        then r' = Ok () \<and> buffer_chunk b' = drop n (buffer_chunk b) else r' = Panic)"
    if "buffer_ok b" "buffer_advance n b = (r', b')" for r' :: "(error, unit) outcome"
    using that
    by (auto simp: buffer_advance_def buffer_chunk_def cursor_advance_def cursor_chunk_def
        cursor_remaining_def buffer_ok_def add.commute split: if_splits)
  show "into_vec b = Ok (buffer_chunk b)" if "buffer_ok b"
    by (simp add: into_vec_def clean_up_ok [OF that] cursor_new_def)
qed

lemma buffer_ok_new [simp]:
  "buffer_ok (read_buffer_from_partially_read part)" "buffer_ok read_buffer_new"
  "buffer_chunk (read_buffer_from_partially_read part) = part" "buffer_chunk read_buffer_new = []"
  by (simp_all add: buffer_ok_def read_buffer_new_def read_buffer_from_partially_read_def cursor_new_def
      buffer_chunk_def cursor_chunk_def)

end
