(* ===== verification/Handshake_Machine.thy ===== *)
theory Handshake_Machine
  imports Read_Buffer
begin

text \<open>
  The handshake machine, \<open>src/src/handshake/machine.rs\<close>, and the loop that drives it for a
  role, \<open>MidHandshake::handshake\<close> of \<open>src/src/handshake/mod.rs\<close>.

  The machine owns its stream, which is the world that every operation returns. The trait
  \<open>TryParse\<close> is the parameter \<open>try_parse\<close>; the trait \<open>HandshakeRole\<close> is the parameter
  \<open>stage_finished\<close> on the state \<open>'r\<close> of the role.
\<close>

section \<open>The attack check\<close>

record attack_check =
  number_of_packets :: nat
  number_of_bytes :: nat

definition attack_check_new :: attack_check where
  "attack_check_new = \<lparr>number_of_packets = 0, number_of_bytes = 0\<rparr>"

definition MAX_BYTES :: nat where "MAX_BYTES = 65536"
definition MAX_PACKETS :: nat where "MAX_PACKETS = 512"
definition MIN_PACKET_SIZE :: nat where "MIN_PACKET_SIZE = 128"
definition MIN_PACKET_CHECK_THRESHOLD :: nat where "MIN_PACKET_CHECK_THRESHOLD = 64"

definition check_incoming_packet_size :: "nat \<Rightarrow> attack_check \<Rightarrow> unit result \<times> attack_check" where
  "check_incoming_packet_size packet a =
     (let a1 = \<lparr>number_of_packets = number_of_packets a + 1, number_of_bytes = number_of_bytes a + packet\<rparr> in
      if number_of_bytes a1 > MAX_BYTES then (Err AttackAttempt, a1)
      else if number_of_packets a1 > MAX_PACKETS then (Err AttackAttempt, a1)
      else if number_of_packets a1 > MIN_PACKET_CHECK_THRESHOLD \<and>
              number_of_packets a1 * MIN_PACKET_SIZE > number_of_bytes a1
      then (Err AttackAttempt, a1)
      else (Ok (), a1))"

definition attack_check_ok :: "attack_check \<Rightarrow> bool" where
  "attack_check_ok a \<longleftrightarrow> number_of_packets a \<le> MAX_PACKETS \<and> number_of_bytes a \<le> MAX_BYTES \<and>
     (number_of_packets a > MIN_PACKET_CHECK_THRESHOLD \<longrightarrow> number_of_packets a * MIN_PACKET_SIZE \<le> number_of_bytes a)"

lemma attack_check_new_ok [simp]: "attack_check_ok attack_check_new"
  by (simp add: attack_check_ok_def attack_check_new_def)

lemma check_incoming_packet_size_Ok:
  "check_incoming_packet_size n a = (Ok (), a') \<Longrightarrow>
     attack_check_ok a' \<and> number_of_packets a' = Suc (number_of_packets a) \<and>
     number_of_bytes a' = number_of_bytes a + n"
  by (auto simp: check_incoming_packet_size_def attack_check_ok_def Let_def split: if_splits)

lemma check_incoming_packet_size_cases:
  "check_incoming_packet_size n a = (r, a') \<Longrightarrow> r = Ok () \<or> r = Err AttackAttempt"
  by (auto simp: check_incoming_packet_size_def Let_def split: if_splits)

section \<open>One round\<close>

datatype handshake_state =
    Reading read_buffer attack_check
  | Writing cursor
  | Flushing

datatype 'o stage_result = DoneReading 'o bytes | DoneWriting

datatype 'o round_result =
    WouldBlockRound handshake_state
  | Incomplete handshake_state
  | StageFinished "'o stage_result"

definition start_read :: handshake_state where
  "start_read = Reading read_buffer_new attack_check_new"

definition start_write :: "bytes \<Rightarrow> handshake_state" where
  "start_write data = Writing (cursor_new data)"

text \<open>\<open>no_block()?\<close> on a result of the stream.\<close>

definition no_block_io :: "(io_kind, 'a) outcome \<Rightarrow> 'a option result" where
  "no_block_io r =
     (case no_block io_into_non_blocking r of Ok x \<Rightarrow> Ok x | Err k \<Rightarrow> Err (Io k) | Panic \<Rightarrow> Panic)"

definition finish_reading ::
  "(bytes \<Rightarrow> (nat \<times> 'o) option result) \<Rightarrow> read_buffer \<Rightarrow> attack_check \<Rightarrow> 'o round_result result" where
  "finish_reading try_parse b a =
     bind_out (try_parse (buffer_chunk b)) (\<lambda>parsed.
       case parsed of
         None \<Rightarrow> Ok (Incomplete (Reading b a))
       | Some (len, obj) \<Rightarrow>
           (case buffer_advance len b of (r, b1) \<Rightarrow>
             bind_out r (\<lambda>_. bind_out (into_vec b1) (\<lambda>tail. Ok (StageFinished (DoneReading obj tail))))))"

definition read_round ::
  "(bytes \<Rightarrow> (nat \<times> 'o) option result) \<Rightarrow> read_buffer \<Rightarrow> attack_check \<Rightarrow> world
     \<Rightarrow> 'o round_result result \<times> world" where
  "read_round try_parse b a w =
     (case read_from (b, w) of (r, b1, w1) \<Rightarrow>
       (bind_out (no_block_io r) (\<lambda>read.
          case read of
            None \<Rightarrow> Ok (WouldBlockRound (Reading b1 a))
          | Some count \<Rightarrow>
              (if count = 0 then Err (Protocol HandshakeIncomplete)
               else case check_incoming_packet_size count a of (checked, a1) \<Rightarrow>
                 bind_out checked (\<lambda>_. finish_reading try_parse b1 a1))), w1))"

definition write_round :: "cursor \<Rightarrow> world \<Rightarrow> 'o round_result result \<times> world" where
  "write_round c w =
     (if cursor_remaining c = 0 then (Panic, w)
      else case stream_write (cursor_chunk c) w of (r, w1) \<Rightarrow>
        (bind_out (no_block_io r) (\<lambda>written.
           case written of
             None \<Rightarrow> Ok (WouldBlockRound (Writing c))
           | Some n \<Rightarrow>
               (if n = 0 then Panic
                else case cursor_advance n c of (r, c1) \<Rightarrow>
                  bind_out r (\<lambda>_. Ok (Incomplete (if 0 < cursor_remaining c1 then Writing c1 else Flushing))))),
         w1))"

definition flush_round :: "world \<Rightarrow> 'o round_result result \<times> world" where
  "flush_round w =
     (case stream_flush w of (r, w1) \<Rightarrow>
       (bind_out (no_block_io r) (\<lambda>flushed.
          Ok (case flushed of Some _ \<Rightarrow> StageFinished DoneWriting | None \<Rightarrow> WouldBlockRound Flushing)), w1))"

definition single_round ::
  "(bytes \<Rightarrow> (nat \<times> 'o) option result) \<Rightarrow> handshake_state \<Rightarrow> world \<Rightarrow> 'o round_result result \<times> world" where
  "single_round try_parse st w =
     (case st of
        Reading b a \<Rightarrow> read_round try_parse b a w
      | Writing c \<Rightarrow> write_round c w
      | Flushing \<Rightarrow> flush_round w)"

section \<open>The loop\<close>

datatype 'r processing_result = Continue handshake_state | Done 'r

text \<open>What a handshake ends with: \<open>Err\<close> holds either variant of \<open>HandshakeError\<close>.\<close>

datatype 'role handshake_error = Interrupted 'role handshake_state | Failure error

definition lift_failure :: "'a result \<Rightarrow> ('role handshake_error, 'a) outcome" where
  "lift_failure r = (case r of Ok a \<Rightarrow> Ok a | Err e \<Rightarrow> Err (Failure e) | Panic \<Rightarrow> Panic)"

partial_function (option) handshake ::
  "(bytes \<Rightarrow> (nat \<times> 'o) option result)
   \<Rightarrow> ('o stage_result \<Rightarrow> 'role \<Rightarrow> world \<Rightarrow> 'r processing_result result \<times> 'role \<times> world)
   \<Rightarrow> 'role \<Rightarrow> handshake_state \<Rightarrow> world
   \<Rightarrow> (('role handshake_error, 'r) outcome \<times> world) option"
where
  "handshake try_parse stage_finished role mach w =
     (case single_round try_parse mach w of
        (Err e, w1) \<Rightarrow> Some (Err (Failure e), w1)
      | (Panic, w1) \<Rightarrow> Some (Panic, w1)
      | (Ok (WouldBlockRound m), w1) \<Rightarrow> Some (Err (Interrupted role m), w1)
      | (Ok (Incomplete m), w1) \<Rightarrow> handshake try_parse stage_finished role m w1
      | (Ok (StageFinished s), w1) \<Rightarrow>
          (case stage_finished s role w1 of
             (Err e, role1, w2) \<Rightarrow> Some (Err (Failure e), w2)
           | (Panic, role1, w2) \<Rightarrow> Some (Panic, w2)
           | (Ok (Continue m), role1, w2) \<Rightarrow> handshake try_parse stage_finished role1 m w2
           | (Ok (Done result), role1, w2) \<Rightarrow> Some (Ok result, w2)))"

section \<open>What a round keeps\<close>

fun is_reading :: "handshake_state \<Rightarrow> bool" where
  "is_reading (Reading b a) \<longleftrightarrow> True"
| "is_reading (Writing c) \<longleftrightarrow> False"
| "is_reading Flushing \<longleftrightarrow> False"

fun machine_ok :: "handshake_state \<Rightarrow> bool" where
  "machine_ok (Reading b a) \<longleftrightarrow>
     buffer_ok b \<and> attack_check_ok a \<and> length (buffer_chunk b) = number_of_bytes a"
| "machine_ok (Writing c) \<longleftrightarrow> True"
| "machine_ok Flushing \<longleftrightarrow> True"

text \<open>The input not yet consumed and the output already decided on.\<close>

fun machine_in :: "handshake_state \<Rightarrow> world \<Rightarrow> bytes" where
  "machine_in (Reading b a) w = buffer_chunk b @ script_bytes (reads w)"
| "machine_in (Writing c) w = script_bytes (reads w)"
| "machine_in Flushing w = script_bytes (reads w)"

fun machine_out :: "handshake_state \<Rightarrow> world \<Rightarrow> bytes" where
  "machine_out (Reading b a) w = sent w"
| "machine_out (Writing c) w = sent w @ cursor_chunk c"
| "machine_out Flushing w = sent w"

text \<open>How many rounds the stage can still take.\<close>

fun machine_work :: "handshake_state \<Rightarrow> nat" where
  "machine_work (Reading b a) = Suc MAX_PACKETS - number_of_packets a"
| "machine_work (Writing c) = Suc (cursor_remaining c)"
| "machine_work Flushing = 0"

lemma start_simps [simp]:
  "is_reading start_read" "\<not> is_reading (start_write d)" "machine_ok start_read" "machine_ok (start_write d)"
  "machine_in start_read w = script_bytes (reads w)" "machine_in (start_write d) w = script_bytes (reads w)"
  "machine_out start_read w = sent w" "machine_out (start_write d) w = sent w @ d"
  by (simp_all add: start_read_def start_write_def attack_check_new_def attack_check_ok_def)

definition same_stage :: "handshake_state \<Rightarrow> world \<Rightarrow> handshake_state \<Rightarrow> world \<Rightarrow> bool" where
  "same_stage m w m' w' \<longleftrightarrow>
     machine_ok m' \<and> is_reading m' = is_reading m \<and>
     machine_in m' w' = machine_in m w \<and> machine_out m' w' = machine_out m w"

text \<open>What a round that succeeds has done.\<close>

definition round_ok ::
  "(bytes \<Rightarrow> (nat \<times> 'o) option result) \<Rightarrow> handshake_state \<Rightarrow> world \<Rightarrow> 'o round_result \<Rightarrow> world \<Rightarrow> bool" where
  "round_ok try_parse m w res w' \<longleftrightarrow>
     (case res of
        WouldBlockRound m' \<Rightarrow> same_stage m w m' w'
      | Incomplete m' \<Rightarrow> same_stage m w m' w' \<and> machine_work m' < machine_work m
      | StageFinished (DoneReading obj tail) \<Rightarrow>
          is_reading m \<and> sent w' = machine_out m w \<and>
          (\<exists>data len. try_parse data = Ok (Some (len, obj)) \<and> len \<le> length data \<and> tail = drop len data \<and>
             machine_in m w = data @ script_bytes (reads w'))
      | StageFinished DoneWriting \<Rightarrow>
          \<not> is_reading m \<and> sent w' = machine_out m w \<and> script_bytes (reads w') = machine_in m w)"

lemma no_block_io_cases:
  "no_block_io r = Ok (Some a) \<longleftrightarrow> r = Ok a"
  "no_block_io r = Ok None \<longleftrightarrow> r = Err WouldBlock"
  "no_block_io r = Err e \<longleftrightarrow> (\<exists>k. r = Err k \<and> k \<noteq> WouldBlock \<and> e = Io k)"
  "no_block_io r = Panic \<longleftrightarrow> r = Panic"
  by (cases r; auto simp: no_block_io_def split: option.splits)+

lemma finish_reading_ok:
  assumes "finish_reading tp b a = Ok res" "buffer_ok b"
  shows "res = Incomplete (Reading b a) \<or>
    (\<exists>len obj. res = StageFinished (DoneReading obj (drop len (buffer_chunk b))) \<and>
       tp (buffer_chunk b) = Ok (Some (len, obj)) \<and> len \<le> length (buffer_chunk b))"
proof -
  obtain parsed where p: "tp (buffer_chunk b) = Ok parsed"
    using assms(1) by (auto simp: finish_reading_def bind_out_Ok_iff)
  show ?thesis
  proof (cases parsed)
    case None
    then show ?thesis using assms(1) p by (simp add: finish_reading_def)
  next
    case (Some lo)
    obtain len obj where lo: "lo = (len, obj)" by (cases lo)
    obtain q :: "unit result" and b1 where adv: "buffer_advance len b = (q, b1)" by (rule prod.exhaust)
    note law = rb.take_off_law [OF assms(2) adv]
    have q: "q = Ok ()" using assms(1) p Some lo adv by (auto simp: finish_reading_def bind_out_Ok_iff)
    then have "(into_vec b1 :: bytes result) = Ok (drop len (buffer_chunk b)) \<and> len \<le> length (buffer_chunk b)"
      using law rb.finish_law [of b1] by (auto split: if_splits)
    then show ?thesis using assms(1) p Some lo adv q by (simp add: finish_reading_def)
  qed
qed

lemma read_round_ok:
  assumes "read_round tp b a w = (Ok res, w')" "machine_ok (Reading b a)"
  shows "round_ok tp (Reading b a) w res w'"
proof -
  have ok: "buffer_ok b" using assms(2) by simp
  obtain r b1 w1 where f: "read_from (b, w) = (r, b1, w1)" by (metis prod.exhaust)
  have w1: "w' = w1" using assms(1) f by (simp add: read_round_def)
  have keep: "buffer_ok b1" "buffer_chunk b1 @ script_bytes (reads w1) = buffer_chunk b @ script_bytes (reads w)"
    using rb.fill_law [OF ok f] rb.fill_conserves [OF ok f] by simp_all
  have sent: "sent w1 = sent w"
  proof -
    obtain q w2 where s: "stream_read CHUNK_SIZE w = (q, w2)" by (rule prod.exhaust)
    show ?thesis
      using f stream_read_frame [OF s] read_from_ok [OF ok s] by (auto split: outcome.splits)
  qed
  obtain read where n: "no_block_io r = Ok read"
    using assms(1) f by (auto simp: read_round_def bind_out_Ok_iff)
  show ?thesis
  proof (cases read)
    case None
    then have "buffer_chunk b1 = buffer_chunk b"
      using rb.fill_law [OF ok f] n by (auto simp: no_block_io_cases)
    then show ?thesis
      using assms f n keep sent w1 None by (auto simp: read_round_def round_ok_def same_stage_def)
  next
    case (Some count)
    obtain checked a1 where c: "check_incoming_packet_size count a = (checked, a1)" by (rule prod.exhaust)
    have "checked = Ok ()" and fin: "finish_reading tp b1 a1 = Ok res"
      using assms(1) f n Some c by (auto simp: read_round_def bind_out_Ok_iff split: if_splits)
    note checked = check_incoming_packet_size_Ok [of count a a1]
    have work: "machine_work (Reading b1 a1) < machine_work (Reading b a)"
      using checked c \<open>checked = Ok ()\<close> by (auto simp: attack_check_ok_def)
    have "r = Ok count" using n Some by (simp add: no_block_io_cases)
    then have ok1: "machine_ok (Reading b1 a1)"
      using checked c \<open>checked = Ok ()\<close> rb.fill_count [OF ok, of w count b1 w1] f keep(1) assms(2) by simp
    show ?thesis
      using finish_reading_ok [OF fin keep(1)] work keep sent w1 ok1
      by (auto simp: round_ok_def same_stage_def intro!: exI [of _ "buffer_chunk b1"])
  qed
qed

lemma write_round_ok:
  assumes "write_round c w = (Ok res, w')"
  shows "round_ok tp (Writing c) w res w'"
proof -
  obtain r w1 where s: "stream_write (cursor_chunk c) w = (r, w1)" by (rule prod.exhaust)
  have ne: "cursor_remaining c \<noteq> 0" and w1: "w' = w1"
    using assms s by (auto simp: write_round_def split: if_splits)
  obtain written where n: "no_block_io r = Ok written"
    using assms s ne by (auto simp: write_round_def bind_out_Ok_iff)
  note keep = stream_write_frame [OF s]
  show ?thesis
  proof (cases written)
    case None
    then have "r = Err WouldBlock" using n by (simp add: no_block_io_cases)
    then show ?thesis
      using assms s ne n None keep w1 stream_write_Err [of "cursor_chunk c" w WouldBlock w1]
      by (auto simp: write_round_def round_ok_def same_stage_def)
  next
    case (Some k)
    then have "r = Ok k" using n by (simp add: no_block_io_cases)
    then have k: "k \<le> cursor_remaining c" "sent w1 = sent w @ take k (cursor_chunk c)"
      using stream_write_Ok [of "cursor_chunk c" w k w1] s by simp_all
    obtain c1 :: cursor where adv: "cursor_advance k c = (Ok () :: unit result, c1)"
      using k(1) by (simp add: cursor_advance_def)
    note chunk = cursor_advance_chunk [OF adv]
    have res: "k \<noteq> 0" "res = Incomplete (if 0 < cursor_remaining c1 then Writing c1 else Flushing)"
      using assms s ne n Some adv by (auto simp: write_round_def split: if_splits)
    have "cursor_chunk c1 = [] \<longleftrightarrow> cursor_remaining c1 = 0"
      using length_cursor_chunk [of c1] by (metis length_0_conv)
    then show ?thesis
      using res k chunk keep w1 ne
      by (auto simp: round_ok_def same_stage_def)
  qed
qed

lemma single_round_ok:
  assumes "single_round tp m w = (Ok res, w')" "machine_ok m"
  shows "round_ok tp m w res w'"
proof (cases m)
  case (Reading b a)
  then show ?thesis using assms read_round_ok by (simp add: single_round_def)
next
  case (Writing c)
  then show ?thesis using assms write_round_ok by (simp add: single_round_def)
next
  case Flushing
  obtain r w1 where s: "stream_flush w = (r, w1)" by (rule prod.exhaust)
  show ?thesis
    using assms Flushing s stream_flush_frame [OF s]
    by (auto simp: single_round_def flush_round_def round_ok_def same_stage_def bind_out_Ok_iff split: option.splits)
qed

section \<open>The contract of a role\<close>

text \<open>
  What the handshake promises for a role whose stages make progress (\<open>rank\<close>) and keep an
  invariant (\<open>inv\<close>) of the input left and the output so far.
\<close>

locale handshake_role =
  fixes try_parse :: "bytes \<Rightarrow> (nat \<times> 'o) option result"
    and stage_finished :: "'o stage_result \<Rightarrow> 'role \<Rightarrow> world \<Rightarrow> 'r processing_result result \<times> 'role \<times> world"
    and rank :: "bool \<Rightarrow> nat"
    and inv :: "'role \<Rightarrow> bool \<Rightarrow> bytes \<Rightarrow> bytes \<Rightarrow> bool"
    and post :: "'r \<Rightarrow> world \<Rightarrow> bool"
  assumes progress: "stage_finished st role w = (Ok (Continue m), role', w') \<Longrightarrow>
      machine_ok m \<and>
      rank (is_reading m) < rank (case st of DoneReading _ _ \<Rightarrow> True | DoneWriting \<Rightarrow> False)"
    and reading_law: "inv role True (data @ script_bytes (reads w)) (sent w) \<Longrightarrow>
      try_parse data = Ok (Some (len, obj)) \<Longrightarrow> len \<le> length data \<Longrightarrow>
      stage_finished (DoneReading obj (drop len data)) role w = (Ok res, role', w') \<Longrightarrow>
      (case res of
         Continue m \<Rightarrow> inv role' (is_reading m) (machine_in m w') (machine_out m w')
       | Done r \<Rightarrow> post r w')"
    and writing_law: "inv role False (script_bytes (reads w)) (sent w) \<Longrightarrow>
      stage_finished DoneWriting role w = (Ok res, role', w') \<Longrightarrow>
      (case res of
         Continue m \<Rightarrow> inv role' (is_reading m) (machine_in m w') (machine_out m w')
       | Done r \<Rightarrow> post r w')"
begin

definition inv_at :: "'role \<Rightarrow> handshake_state \<Rightarrow> world \<Rightarrow> bool" where
  "inv_at role m w \<longleftrightarrow> inv role (is_reading m) (machine_in m w) (machine_out m w)"

text \<open>The loop ends, and ends as the role promises; an interrupted handshake can go on.\<close>

lemma handshake_ends:
  "machine_ok m \<Longrightarrow> \<exists>r w'. handshake try_parse stage_finished role m w = Some (r, w') \<and>
     (inv_at role m w \<longrightarrow>
       (case r of
          Ok result \<Rightarrow> post result w'
        | Err (Interrupted role' m') \<Rightarrow> machine_ok m' \<and> inv_at role' m' w'
        | _ \<Rightarrow> True))"
proof (induction "(m, role, w)" arbitrary: m role w
    rule: wf_induct_rule [OF wf_measures [of "[\<lambda>(m, _, _). rank (is_reading m), \<lambda>(m, _, _). machine_work m]"]])
  case 1
  note IH = 1(1) and ok = 1(2)
  obtain r w1 where rd: "single_round try_parse m w = (r, w1)" by (rule prod.exhaust)
  show ?case
  proof (cases r)
    case (Ok res)
    note keep = single_round_ok [OF rd [unfolded Ok] ok]
    show ?thesis
    proof (cases res)
      case (WouldBlockRound m1)
      then show ?thesis
        using keep rd Ok by (subst handshake.simps) (simp add: round_ok_def same_stage_def inv_at_def)
    next
      case (Incomplete m1)
      then have "same_stage m w m1 w1" "machine_work m1 < machine_work m"
        using keep by (simp_all add: round_ok_def)
      then show ?thesis
        using IH [of m1 role w1] rd Ok Incomplete
        by (subst handshake.simps) (simp add: same_stage_def inv_at_def)
    next
      case (StageFinished st)
      obtain q role1 w2 where sf: "stage_finished st role w1 = (q, role1, w2)" by (metis prod.exhaust)
      have phase: "is_reading m = (case st of DoneReading _ _ \<Rightarrow> True | DoneWriting \<Rightarrow> False)"
        using keep StageFinished by (cases st) (simp_all add: round_ok_def)
      have law: "case res1 of
           Continue m1 \<Rightarrow> inv role1 (is_reading m1) (machine_in m1 w2) (machine_out m1 w2)
         | Done r \<Rightarrow> post r w2" if "inv_at role m w" "q = Ok res1" for res1
      proof (cases st)
        case (DoneReading obj tail)
        obtain data len where d: "try_parse data = Ok (Some (len, obj))" "len \<le> length data"
          "tail = drop len data" "machine_in m w = data @ script_bytes (reads w1)" "sent w1 = machine_out m w"
          "is_reading m"
          using keep StageFinished DoneReading by (auto simp: round_ok_def)
        then show ?thesis
          using reading_law [of role data w1 len obj res1 role1 w2] that sf DoneReading by (simp add: inv_at_def)
      next
        case DoneWriting
        then show ?thesis
          using writing_law [of role w1 res1 role1 w2] that sf keep StageFinished
          by (simp add: inv_at_def round_ok_def)
      qed
      show ?thesis
      proof (cases q)
        case q: (Ok res1)
        show ?thesis
        proof (cases res1)
          case (Continue m1)
          have "machine_ok m1" "rank (is_reading m1) < rank (is_reading m)"
            using progress [of st role w1 m1 role1 w2] sf q Continue phase by simp_all
          then obtain r' w' where "handshake try_parse stage_finished role1 m1 w2 = Some (r', w')"
            "inv_at role1 m1 w2 \<longrightarrow> (case r' of Ok result \<Rightarrow> post result w'
              | Err (Interrupted role' m') \<Rightarrow> machine_ok m' \<and> inv_at role' m' w' | _ \<Rightarrow> True)"
            using IH [of m1 role1 w2] by auto
          moreover have "inv_at role m w \<longrightarrow> inv_at role1 m1 w2"
            using law [OF _ q] Continue by (simp add: inv_at_def)
          ultimately show ?thesis
            using rd Ok StageFinished sf q Continue by (subst handshake.simps) auto
        next
          case (Done result)
          then show ?thesis
            using law [OF _ q] rd Ok StageFinished sf q by (subst handshake.simps) simp
        qed
      qed (use rd Ok StageFinished sf in \<open>(subst handshake.simps, simp)+\<close>)
    qed
  qed (use rd in \<open>(subst handshake.simps, simp)+\<close>)
qed

lemma handshake_returns: "machine_ok m \<Longrightarrow> \<exists>r. handshake try_parse stage_finished role m w = Some r"
  using handshake_ends [of m role w] by blast

lemma handshake_done:
  assumes "machine_ok m" "inv_at role m w" "handshake try_parse stage_finished role m w = Some (Ok result, w')"
  shows "post result w'"
  using handshake_ends [OF assms(1), of role w] assms(2,3) by auto

lemma handshake_interrupted:
  assumes "machine_ok m" "inv_at role m w"
    "handshake try_parse stage_finished role m w = Some (Err (Interrupted role' m'), w')"
  shows "machine_ok m' \<and> inv_at role' m' w'"
  using handshake_ends [OF assms(1), of role w] assms(2,3) by auto

end

end
