(* ===== verification/Client_Handshake.thy ===== *)
theory Client_Handshake
  imports Http Handshake_Machine WebSocket
begin

text \<open>
  The client side of the opening handshake, \<open>src/src/handshake/client.rs\<close>: the request that
  is sent, the verification of the response, and the role.
\<close>

section \<open>The mode of a URL\<close>

text \<open>\<open>uri_mode\<close> of \<open>src/src/client.rs\<close> and \<open>Mode\<close> of \<open>src/src/stream.rs\<close>.\<close>

datatype stream_mode = PlainMode | TlsMode

definition uri_mode :: "'u http_lib \<Rightarrow> 'u \<Rightarrow> stream_mode result" where
  "uri_mode H uri =
     (if uri_scheme H uri = Some (ascii ''ws'') then Ok PlainMode
      else if uri_scheme H uri = Some (ascii ''wss'') then Ok TlsMode
      else Err (Url UnsupportedUrlScheme))"

section \<open>The request\<close>

definition KEY_HEADERNAME :: bytes where
  "KEY_HEADERNAME = ascii ''Sec-WebSocket-Key''"

definition WEBSOCKET_HEADERS :: "bytes list" where
  "WEBSOCKET_HEADERS =
     [ascii ''Host'', ascii ''Connection'', ascii ''Upgrade'', ascii ''Sec-WebSocket-Version'', KEY_HEADERNAME]"

text \<open>
  \<open>ProtocolError::InvalidHeader(HeaderName::from_bytes(..).unwrap())\<close>.
\<close>

definition invalid_header_named :: "'u http_lib \<Rightarrow> bytes \<Rightarrow> 'a result" where
  "invalid_header_named H name =
     (case header_name H name of None \<Rightarrow> Panic | Some n \<Rightarrow> Err (Protocol (InvalidHeader n)))"

text \<open>The loop that takes the required headers out of the map and writes them.\<close>

fun write_required :: "'u http_lib \<Rightarrow> bytes list \<Rightarrow> bytes \<Rightarrow> header_map \<Rightarrow> (bytes \<times> header_map) result" where
  "write_required H [] req headers = Ok (req, headers)"
| "write_required H (name # names) req headers =
     (case hm_remove H name headers of
        (None, _) \<Rightarrow> invalid_header_named H name
      | (Some value, headers1) \<Rightarrow>
          bind_out (ok_or (Utf8 (FromHeader name value)) (to_str H value)) (\<lambda>s.
            write_required H names (req @ name @ ascii '': '' @ s @ [13, 10]) headers1))"

definition websocket_headers_contains :: "bytes \<Rightarrow> bool" where
  "websocket_headers_contains name \<longleftrightarrow> list_ex (\<lambda>h. eq_ignore_ascii_case h name) WEBSOCKET_HEADERS"

definition display_name :: "bytes \<Rightarrow> bytes" where
  "display_name name =
     (if name = ascii ''sec-websocket-protocol'' then ascii ''Sec-WebSocket-Protocol''
      else if name = ascii ''origin'' then ascii ''Origin''
      else name)"

fun write_rest :: "header_map \<Rightarrow> bytes \<Rightarrow> bytes result" where
  "write_rest [] req = Ok req"
| "write_rest ((k, v) # hs) req =
     (if websocket_headers_contains k then Err (Protocol (InvalidHeader k))
      else write_rest hs (req @ display_name k @ ascii '': '' @ v @ [13, 10]))"

definition generate_request :: "'u http_lib \<Rightarrow> 'u http_request \<Rightarrow> (bytes \<times> bytes) result" where
  "generate_request H request =
     bind_out (ok_or (Url NoPathOrQuery) (uri_path_and_query H (rq_uri request))) (\<lambda>path.
     bind_out (version_as_str (rq_version request)) (\<lambda>version.
     bind_out (case hm_get H KEY_HEADERNAME (rq_headers request) of
         None \<Rightarrow> invalid_header_named H KEY_HEADERNAME
       | Some v \<Rightarrow> ok_or error_from_to_str (to_str H v)) (\<lambda>key.
     bind_out (write_required H WEBSOCKET_HEADERS (ascii ''GET '' @ path @ [32] @ version @ [13, 10])
         (rq_headers request)) (\<lambda>(req, headers).
     bind_out (write_rest headers req) (\<lambda>req1.
       Ok (req1 @ [13, 10], key))))))"

definition extract_subprotocols_from_request :: "'u http_lib \<Rightarrow> 'u http_request \<Rightarrow> bytes list option result" where
  "extract_subprotocols_from_request H request =
     (case hm_get H (ascii ''Sec-WebSocket-Protocol'') (rq_headers request) of
        None \<Rightarrow> Ok None
      | Some v \<Rightarrow>
          bind_out (ok_or error_from_to_str (to_str H v)) (\<lambda>s.
            Ok (Some (map trim_str (split_on {44} s)))))"

section \<open>Verifying the response\<close>

record verify_data =
  accept_key :: bytes
  subprotocols :: "bytes list option"

definition verify_subprotocol :: "'u http_lib \<Rightarrow> verify_data \<Rightarrow> header_map \<Rightarrow> unit result" where
  "verify_subprotocol H vd headers =
     (case (hm_get H (ascii ''Sec-WebSocket-Protocol'') headers, subprotocols vd) of
        (None, None) \<Rightarrow> Ok ()
      | (None, Some _) \<Rightarrow> Err (Protocol (SecWebSocketSubProtocolError NoSubProtocol))
      | (Some _, None) \<Rightarrow> Err (Protocol (SecWebSocketSubProtocolError ServerSentSubProtocolNoneRequested))
      | (Some returned, Some accepted) \<Rightarrow>
          bind_out (ok_or error_from_to_str (to_str H returned)) (\<lambda>s.
            if s \<in> set accepted then Ok ()
            else Err (Protocol (SecWebSocketSubProtocolError InvalidSubProtocol))))"

definition verify_response ::
  "'u http_lib \<Rightarrow> verify_data \<Rightarrow> bytes option http_reply \<Rightarrow> bytes option http_reply result" where
  "verify_response H vd response =
     (if rp_status response \<noteq> 101 then Err (http_error response)
      else if \<not> header_text_is H (ascii ''Upgrade'')
          (\<lambda>h. eq_ignore_ascii_case h (ascii ''websocket'')) (rp_headers response)
      then Err (Protocol MissingUpgradeWebSocketHeader)
      else if \<not> header_text_is H (ascii ''Connection'')
          (\<lambda>h. eq_ignore_ascii_case h (ascii ''Upgrade'')) (rp_headers response)
      then Err (Protocol MissingConnectionUpgradeHeader)
      else if hm_get H (ascii ''Sec-WebSocket-Accept'') (rp_headers response) \<noteq> Some (accept_key vd)
      then Err (Protocol SecWebSocketAcceptKeyMismatch)
      else bind_out (verify_subprotocol H vd (rp_headers response)) (\<lambda>_. Ok response))"

definition verify_deflate_response ::
  "'u http_lib \<Rightarrow> bytes option http_reply \<Rightarrow> settings option \<Rightarrow> settings option result" where
  "verify_deflate_response H response offered =
     (let exts = hm_get_all H (ascii ''Sec-WebSocket-Extensions'') (rp_headers response) in
      case offered of
        Some s \<Rightarrow> accept_response s exts
      | None \<Rightarrow>
          bind_out (headers_select_deflate exts) (\<lambda>selects.
            if selects then Err invalid_header else Ok None))"

section \<open>Reading a response\<close>

definition response_from_httparse :: "'u http_lib \<Rightarrow> raw_response \<Rightarrow> bytes option http_reply result" where
  "response_from_httparse H raw =
     (case raw_response_version raw of
        None \<Rightarrow> Panic
      | Some v \<Rightarrow>
          (if v < 1 then Err (Protocol WrongHttpVersion)
           else
             bind_out (headers_from_httparse H [] (raw_response_headers raw)) (\<lambda>headers.
               case raw_code raw of
                 None \<Rightarrow> Panic
               | Some code \<Rightarrow>
                   bind_out (ok_or error_from_invalid_status_code (status_from_u16 H code)) (\<lambda>status.
                     Ok \<lparr>rp_status = status, rp_version = Http11, rp_headers = headers, rp_body = None\<rparr>))))"

definition response_try_parse ::
  "'u http_lib \<Rightarrow> bytes \<Rightarrow> (nat \<times> bytes option http_reply) option result" where
  "response_try_parse H buf =
     bind_out (lift_httparse (parse_response H MAX_HEADERS buf)) (\<lambda>status.
       case status of
         None \<Rightarrow> Ok None
       | Some (len, raw) \<Rightarrow> bind_out (response_from_httparse H raw) (\<lambda>response. Ok (Some (len, response))))"

section \<open>The role\<close>

record client_handshake =
  ch_verify_data :: verify_data
  ch_config :: "config option"

text \<open>The offer of compression, as the only extension.\<close>

definition add_offer :: "'u http_lib \<Rightarrow> config option \<Rightarrow> 'u http_request \<Rightarrow> 'u http_request result" where
  "add_offer H conf request =
     (case (case conf of Some c \<Rightarrow> cfg_deflate c | None \<Rightarrow> None) of
        None \<Rightarrow> Ok request
      | Some d \<Rightarrow>
          bind_out (offer (header_value_str H) d) (\<lambda>v.
            if hm_contains H (ascii ''Sec-WebSocket-Extensions'') (rq_headers request) then Err invalid_header
            else Ok (request\<lparr>rq_headers :=
              hm_append H (ascii ''sec-websocket-extensions'') v (rq_headers request)\<rparr>)))"

definition client_start ::
  "'u http_lib \<Rightarrow> 'u http_request \<Rightarrow> config option \<Rightarrow> (client_handshake \<times> handshake_state) result" where
  "client_start H request conf =
     (if rq_method request \<noteq> ascii ''GET'' then Err (Protocol WrongHttpMethod)
      else if rq_version request < Http11 then Err (Protocol WrongHttpVersion)
      else
        bind_out (uri_mode H (rq_uri request)) (\<lambda>_.
        bind_out (extract_subprotocols_from_request H request) (\<lambda>subprotocols.
        bind_out (add_offer H conf request) (\<lambda>request1.
        bind_out (generate_request H request1) (\<lambda>(req, key).
          Ok (\<lparr>ch_verify_data = \<lparr>accept_key = derive_accept_key H key, subprotocols = subprotocols\<rparr>,
               ch_config = conf\<rparr>, start_write req))))))"

text \<open>The settings that the response leaves in the configuration.\<close>

definition agree_deflate ::
  "'u http_lib \<Rightarrow> bytes option http_reply \<Rightarrow> config option \<Rightarrow> config option result" where
  "agree_deflate H response conf =
     bind_out (verify_deflate_response H response (case conf of Some c \<Rightarrow> cfg_deflate c | None \<Rightarrow> None)) (\<lambda>agreed.
       Ok (map_option (\<lambda>c. c\<lparr>cfg_deflate := agreed\<rparr>) conf))"

definition client_done_reading ::
  "('c, 'd) flate \<Rightarrow> 'u http_lib \<Rightarrow> nat \<Rightarrow> bytes option http_reply \<Rightarrow> bytes \<Rightarrow> client_handshake \<Rightarrow> world
     \<Rightarrow> (('c, 'd) ctx \<times> bytes option http_reply) processing_result result \<times> client_handshake \<times> world" where
  "client_done_reading fl H cap response tail role w =
     (case verify_response H (ch_verify_data role) response of
        Err (Http e) \<Rightarrow> (Err (Http (e\<lparr>resp_body := Some tail\<rparr>)), role, w)
      | Err e \<Rightarrow> (Err e, role, w)
      | Panic \<Rightarrow> (Panic, role, w)
      | Ok result \<Rightarrow>
          (case agree_deflate H result (ch_config role) of
             Err e \<Rightarrow> (Err e, role, w)
           | Panic \<Rightarrow> (Panic, role, w)
           | Ok conf \<Rightarrow>
               (case ctx_from_partially_read fl tail cap Client conf w of
                  (r, w1) \<Rightarrow> (bind_out r (\<lambda>x. Ok (Done (x, result))), role\<lparr>ch_config := conf\<rparr>, w1))))"

definition client_stage_finished ::
  "('c, 'd) flate \<Rightarrow> 'u http_lib \<Rightarrow> nat \<Rightarrow> bytes option http_reply stage_result \<Rightarrow> client_handshake \<Rightarrow> world
     \<Rightarrow> (('c, 'd) ctx \<times> bytes option http_reply) processing_result result \<times> client_handshake \<times> world" where
  "client_stage_finished fl H cap st role w =
     (case st of
        DoneWriting \<Rightarrow> (Ok (Continue start_read), role, w)
      | DoneReading response tail \<Rightarrow> client_done_reading fl H cap response tail role w)"

definition generate_key :: "'u http_lib \<Rightarrow> bytes \<Rightarrow> bytes" where
  "generate_key H r = base64_encode H r"

end
