(* ===== verification/Client.thy ===== *)
theory Client
  imports Client_Handshake
begin

text \<open>
  A client over a given stream, \<open>src/src/client.rs\<close>: the conversions into a request and the
  handshake. The 16 random bytes of a key are the argument \<open>key_bytes\<close>. A result is \<open>None\<close>
  if the handshake did not return; it always does.
\<close>

section \<open>Requests\<close>

definition uri_into_client_request :: "'u http_lib \<Rightarrow> bytes \<Rightarrow> 'u \<Rightarrow> 'u http_request result" where
  "uri_into_client_request H key_bytes uri =
     bind_out (ok_or (Url NoHostName) (uri_authority H uri)) (\<lambda>authority.
       let host = (case split_once 64 authority of Some (_, after) \<Rightarrow> after | None \<Rightarrow> authority) in
       if host = [] then Err (Url EmptyHostName)
       else
         bind_out
           (builder_header H (ascii ''Sec-WebSocket-Key'') (generate_key H key_bytes)
           (builder_header H (ascii ''Sec-WebSocket-Version'') (ascii ''13'')
           (builder_header H (ascii ''Upgrade'') (ascii ''websocket'')
           (builder_header H (ascii ''Connection'') (ascii ''Upgrade'')
           (builder_header H (ascii ''Host'') host (Ok []))))))
           (\<lambda>headers. Ok \<lparr>rq_method = ascii ''GET'', rq_uri = uri, rq_version = Http11, rq_headers = headers\<rparr>))"

definition str_into_client_request :: "'u http_lib \<Rightarrow> bytes \<Rightarrow> bytes \<Rightarrow> 'u http_request result" where
  "str_into_client_request H key_bytes s =
     bind_out (ok_or error_from_invalid_uri (uri_parse H s)) (uri_into_client_request H key_bytes)"

record 'u client_request_builder =
  crb_uri :: 'u
  additional_headers :: "(bytes \<times> bytes) list"
  crb_subprotocols :: "bytes list"

definition client_request_builder_new :: "'u \<Rightarrow> 'u client_request_builder" where
  "client_request_builder_new uri = \<lparr>crb_uri = uri, additional_headers = [], crb_subprotocols = []\<rparr>"

definition with_header :: "bytes \<Rightarrow> bytes \<Rightarrow> 'u client_request_builder \<Rightarrow> 'u client_request_builder" where
  "with_header key val b = b\<lparr>additional_headers := additional_headers b @ [(key, val)]\<rparr>"

definition with_sub_protocol :: "bytes \<Rightarrow> 'u client_request_builder \<Rightarrow> 'u client_request_builder" where
  "with_sub_protocol protocol b = b\<lparr>crb_subprotocols := crb_subprotocols b @ [protocol]\<rparr>"

fun append_headers :: "'u http_lib \<Rightarrow> (bytes \<times> bytes) list \<Rightarrow> header_map \<Rightarrow> header_map result" where
  "append_headers H [] headers = Ok headers"
| "append_headers H ((k, v) # kvs) headers =
     bind_out (ok_or error_from_invalid_header_name (header_name H k)) (\<lambda>key.
     bind_out (ok_or error_from_invalid_header_value (header_value_str H v)) (\<lambda>val.
       append_headers H kvs (hm_append H key val headers)))"

text \<open>\<open>join(", ")\<close>.\<close>

fun join_protocols :: "bytes list \<Rightarrow> bytes" where
  "join_protocols [] = []"
| "join_protocols [p] = p"
| "join_protocols (p # q # ps) = p @ [44, 32] @ join_protocols (q # ps)"

definition builder_into_client_request ::
  "'u http_lib \<Rightarrow> bytes \<Rightarrow> 'u client_request_builder \<Rightarrow> 'u http_request result" where
  "builder_into_client_request H key_bytes b =
     bind_out (uri_into_client_request H key_bytes (crb_uri b)) (\<lambda>request.
     bind_out (append_headers H (additional_headers b) (rq_headers request)) (\<lambda>headers.
       if crb_subprotocols b \<noteq> [] then
         bind_out (ok_or error_from_invalid_header_value (header_value_str H (join_protocols (crb_subprotocols b))))
           (\<lambda>protocols. Ok (request\<lparr>rq_headers := hm_append H (ascii ''sec-websocket-protocol'') protocols headers\<rparr>))
       else Ok (request\<lparr>rq_headers := headers\<rparr>)))"

section \<open>The handshake over a stream\<close>

definition client_with_config ::
  "('c, 'd) flate \<Rightarrow> 'u http_lib \<Rightarrow> nat \<Rightarrow> 'u http_request result \<Rightarrow> world \<Rightarrow> config option
     \<Rightarrow> ((client_handshake handshake_error, ('c, 'd) ctx \<times> bytes option http_reply) outcome \<times> world) option" where
  "client_with_config fl H cap into stream conf =
     (case bind_out into (\<lambda>request. client_start H request conf) of
        Err e \<Rightarrow> Some (Err (Failure e), stream)
      | Panic \<Rightarrow> Some (Panic, stream)
      | Ok (role, m) \<Rightarrow> handshake (response_try_parse H) (client_stage_finished fl H cap) role m stream)"

definition client ::
  "('c, 'd) flate \<Rightarrow> 'u http_lib \<Rightarrow> nat \<Rightarrow> 'u http_request result \<Rightarrow> world
     \<Rightarrow> ((client_handshake handshake_error, ('c, 'd) ctx \<times> bytes option http_reply) outcome \<times> world) option" where
  "client fl H cap into stream = client_with_config fl H cap into stream None"

end
