(* ===== verification/Streams.thy ===== *)
theory Streams
  imports Stream
begin

text \<open>
  Streams that may be protected with TLS, \<open>src/src/stream.rs\<close>: \<open>MaybeTlsStream\<close> and the traits
  \<open>Read\<close>, \<open>Write\<close> and \<open>NoDelay\<close> that it forwards. A stream type is its operations, the record
  \<open>byte_stream\<close>; the streams of \<open>native_tls\<close> (\<open>'t\<close>) and the connections of \<open>rustls\<close> (\<open>'k\<close>)
  are parameters, with their operations in the record \<open>tls_streams\<close>.

  The last section shows why the rest of the development may take every stream to be a
  \<open>world\<close>: whatever a stream does in a finite run, some world does the same.
\<close>

section \<open>The traits\<close>

record 's byte_stream =
  bs_read :: "nat \<Rightarrow> 's \<Rightarrow> (io_kind, bytes) outcome \<times> 's"
  bs_write :: "bytes \<Rightarrow> 's \<Rightarrow> (io_kind, nat) outcome \<times> 's"
  bs_flush :: "'s \<Rightarrow> (io_kind, unit) outcome \<times> 's"
  bs_set_nodelay :: "bool \<Rightarrow> 's \<Rightarrow> (io_kind, unit) outcome \<times> 's"

text \<open>\<open>TcpStream\<close> and the other streams of the development; \<open>TCP_NODELAY\<close> is the operating system's.\<close>

definition world_stream :: "(bool \<Rightarrow> world \<Rightarrow> (io_kind, unit) outcome \<times> world) \<Rightarrow> world byte_stream" where
  "world_stream nodelay = \<lparr>bs_read = stream_read, bs_write = stream_write, bs_flush = stream_flush,
     bs_set_nodelay = nodelay\<rparr>"

section \<open>MaybeTlsStream\<close>

datatype ('s, 't, 'k) maybe_tls_stream =
    PlainStream 's
  | NativeTlsStream 't
  | RustlsStream "'k \<times> 's"  \<comment> \<open>\<open>StreamOwned\<close>: the connection and the socket\<close>

record ('s, 't, 'k) tls_streams =
  native_read :: "nat \<Rightarrow> 't \<Rightarrow> (io_kind, bytes) outcome \<times> 't"
  native_write :: "bytes \<Rightarrow> 't \<Rightarrow> (io_kind, nat) outcome \<times> 't"
  native_flush :: "'t \<Rightarrow> (io_kind, unit) outcome \<times> 't"
  native_socket :: "'t \<Rightarrow> 's"  \<comment> \<open>\<open>get_mut\<close>, and the stream with the socket changed\<close>
  native_with_socket :: "'s \<Rightarrow> 't \<Rightarrow> 't"
  rustls_read :: "nat \<Rightarrow> 'k \<times> 's \<Rightarrow> (io_kind, bytes) outcome \<times> 'k \<times> 's"
  rustls_write :: "bytes \<Rightarrow> 'k \<times> 's \<Rightarrow> (io_kind, nat) outcome \<times> 'k \<times> 's"
  rustls_flush :: "'k \<times> 's \<Rightarrow> (io_kind, unit) outcome \<times> 'k \<times> 's"

text \<open>\<open>set_nodelay\<close> goes to the socket below the TLS session.\<close>

definition native_set_nodelay ::
  "'s byte_stream \<Rightarrow> ('s, 't, 'k) tls_streams \<Rightarrow> bool \<Rightarrow> 't \<Rightarrow> (io_kind, unit) outcome \<times> 't" where
  "native_set_nodelay P T nodelay t =
     (case bs_set_nodelay P nodelay (native_socket T t) of (r, s) \<Rightarrow> (r, native_with_socket T s t))"

definition rustls_set_nodelay ::
  "'s byte_stream \<Rightarrow> bool \<Rightarrow> 'k \<times> 's \<Rightarrow> (io_kind, unit) outcome \<times> 'k \<times> 's" where
  "rustls_set_nodelay P nodelay ks =
     (case ks of (k, s) \<Rightarrow> (case bs_set_nodelay P nodelay s of (r, s1) \<Rightarrow> (r, k, s1)))"

definition maybe_tls_read ::
  "'s byte_stream \<Rightarrow> ('s, 't, 'k) tls_streams \<Rightarrow> nat \<Rightarrow> ('s, 't, 'k) maybe_tls_stream
     \<Rightarrow> (io_kind, bytes) outcome \<times> ('s, 't, 'k) maybe_tls_stream" where
  "maybe_tls_read P T room st =
     (case st of
        PlainStream s \<Rightarrow> (case bs_read P room s of (r, s1) \<Rightarrow> (r, PlainStream s1))
      | NativeTlsStream t \<Rightarrow> (case native_read T room t of (r, t1) \<Rightarrow> (r, NativeTlsStream t1))
      | RustlsStream ks \<Rightarrow> (case rustls_read T room ks of (r, ks1) \<Rightarrow> (r, RustlsStream ks1)))"

definition maybe_tls_write ::
  "'s byte_stream \<Rightarrow> ('s, 't, 'k) tls_streams \<Rightarrow> bytes \<Rightarrow> ('s, 't, 'k) maybe_tls_stream
     \<Rightarrow> (io_kind, nat) outcome \<times> ('s, 't, 'k) maybe_tls_stream" where
  "maybe_tls_write P T buf st =
     (case st of
        PlainStream s \<Rightarrow> (case bs_write P buf s of (r, s1) \<Rightarrow> (r, PlainStream s1))
      | NativeTlsStream t \<Rightarrow> (case native_write T buf t of (r, t1) \<Rightarrow> (r, NativeTlsStream t1))
      | RustlsStream ks \<Rightarrow> (case rustls_write T buf ks of (r, ks1) \<Rightarrow> (r, RustlsStream ks1)))"

definition maybe_tls_flush ::
  "'s byte_stream \<Rightarrow> ('s, 't, 'k) tls_streams \<Rightarrow> ('s, 't, 'k) maybe_tls_stream
     \<Rightarrow> (io_kind, unit) outcome \<times> ('s, 't, 'k) maybe_tls_stream" where
  "maybe_tls_flush P T st =
     (case st of
        PlainStream s \<Rightarrow> (case bs_flush P s of (r, s1) \<Rightarrow> (r, PlainStream s1))
      | NativeTlsStream t \<Rightarrow> (case native_flush T t of (r, t1) \<Rightarrow> (r, NativeTlsStream t1))
      | RustlsStream ks \<Rightarrow> (case rustls_flush T ks of (r, ks1) \<Rightarrow> (r, RustlsStream ks1)))"

definition maybe_tls_set_nodelay ::
  "'s byte_stream \<Rightarrow> ('s, 't, 'k) tls_streams \<Rightarrow> bool \<Rightarrow> ('s, 't, 'k) maybe_tls_stream
     \<Rightarrow> (io_kind, unit) outcome \<times> ('s, 't, 'k) maybe_tls_stream" where
  "maybe_tls_set_nodelay P T nodelay st =
     (case st of
        PlainStream s \<Rightarrow> (case bs_set_nodelay P nodelay s of (r, s1) \<Rightarrow> (r, PlainStream s1))
      | NativeTlsStream t \<Rightarrow> (case native_set_nodelay P T nodelay t of (r, t1) \<Rightarrow> (r, NativeTlsStream t1))
      | RustlsStream ks \<Rightarrow> (case rustls_set_nodelay P nodelay ks of (r, ks1) \<Rightarrow> (r, RustlsStream ks1)))"

definition maybe_tls :: "'s byte_stream \<Rightarrow> ('s, 't, 'k) tls_streams \<Rightarrow> ('s, 't, 'k) maybe_tls_stream byte_stream" where
  "maybe_tls P T = \<lparr>bs_read = maybe_tls_read P T, bs_write = maybe_tls_write P T, bs_flush = maybe_tls_flush P T,
     bs_set_nodelay = maybe_tls_set_nodelay P T\<rparr>"

text \<open>\<open>Debug\<close>, with the renderings of the parts as parameters.\<close>

definition maybe_tls_debug ::
  "('s \<Rightarrow> bytes) \<Rightarrow> ('t \<Rightarrow> bytes) \<Rightarrow> ('k \<Rightarrow> bytes) \<Rightarrow> ('s, 't, 'k) maybe_tls_stream \<Rightarrow> bytes" where
  "maybe_tls_debug dbg_socket dbg_native dbg_conn st =
     (case st of
        PlainStream s \<Rightarrow> ascii ''MaybeTlsStream::Plain('' @ dbg_socket s @ ascii '')''
      | NativeTlsStream t \<Rightarrow> ascii ''MaybeTlsStream::NativeTls('' @ dbg_native t @ ascii '')''
      | RustlsStream (k, s) \<Rightarrow>
          ascii ''MaybeTlsStream::Rustls(StreamOwned { conn: '' @ dbg_conn k @ ascii '', sock: '' @ dbg_socket s @ ascii '' })'')"

section \<open>The contract of a stream\<close>

locale stream_contract =
  fixes B :: "'s byte_stream"
  assumes read_returns: "fst (bs_read B room s) \<noteq> Panic"
    and read_fits: "bs_read B room s = (Ok bs, s') \<Longrightarrow> length bs \<le> room"
    and write_returns: "fst (bs_write B buf s) \<noteq> Panic"
    and write_prefix: "bs_write B buf s = (Ok n, s') \<Longrightarrow> n \<le> length buf"
    and flush_returns: "fst (bs_flush B s) \<noteq> Panic"

text \<open>A run of the stream: a client that chooses each call by what it has got so far.\<close>

datatype io_call = CallRead nat | CallWrite bytes | CallFlush

datatype io_reply =
    GotRead "(io_kind, bytes) outcome" | GotWrite "(io_kind, nat) outcome" | GotFlush "(io_kind, unit) outcome"

fun io_step :: "'s byte_stream \<Rightarrow> io_call \<Rightarrow> 's \<Rightarrow> io_reply \<times> 's" where
  "io_step B (CallRead room) s = (case bs_read B room s of (r, s1) \<Rightarrow> (GotRead r, s1))"
| "io_step B (CallWrite buf) s = (case bs_write B buf s of (r, s1) \<Rightarrow> (GotWrite r, s1))"
| "io_step B CallFlush s = (case bs_flush B s of (r, s1) \<Rightarrow> (GotFlush r, s1))"

text \<open>Its value is all the answers and the stream that is left.\<close>

fun io_run :: "'s byte_stream \<Rightarrow> (io_reply list \<Rightarrow> io_call) \<Rightarrow> nat \<Rightarrow> io_reply list \<Rightarrow> 's \<Rightarrow> io_reply list \<times> 's" where
  "io_run B client 0 got s = (got, s)"
| "io_run B client (Suc n) got s = (case io_step B (client got) s of (r, s1) \<Rightarrow> io_run B client n (got @ [r]) s1)"

text \<open>What the writes of a run have taken, in order.\<close>

fun accepted_by :: "io_call \<Rightarrow> io_reply \<Rightarrow> bytes" where
  "accepted_by (CallWrite buf) (GotWrite (Ok n)) = take n buf"
| "accepted_by _ _ = []"

primrec accepted_after :: "(io_reply list \<Rightarrow> io_call) \<Rightarrow> io_reply list \<Rightarrow> io_reply list \<Rightarrow> bytes" where
  "accepted_after client got [] = []"
| "accepted_after client got (r # rs) = accepted_by (client got) r @ accepted_after client (got @ [r]) rs"

definition accepted_bytes :: "(io_reply list \<Rightarrow> io_call) \<Rightarrow> io_reply list \<Rightarrow> bytes" where
  "accepted_bytes client answers = accepted_after client [] answers"

lemma accepted_after_snoc:
  "accepted_after client got (rs @ [r]) = accepted_after client got rs @ accepted_by (client (got @ rs)) r"
  by (induction rs arbitrary: got) simp_all

lemma accepted_bytes_simps [simp]:
  "accepted_bytes client [] = []"
  "accepted_bytes client (got @ [r]) = accepted_bytes client got @ accepted_by (client got) r"
  by (simp_all add: accepted_bytes_def accepted_after_snoc)

text \<open>The scripts of a world, all that a run on it depends on.\<close>

definition plays :: "world \<Rightarrow> read_event list \<Rightarrow> write_event list \<Rightarrow> flush_event list \<Rightarrow> bool" where
  "plays w rs ws fs \<longleftrightarrow> reads w = rs \<and> writes w = ws \<and> flushes w = fs"

fun prepend :: "io_reply \<Rightarrow> read_event list \<times> write_event list \<times> flush_event list
     \<Rightarrow> read_event list \<times> write_event list \<times> flush_event list" where
  "prepend (GotRead (Ok bs)) (rs, ws, fs) = (RdBytes bs # rs, ws, fs)"
| "prepend (GotRead (Err k)) (rs, ws, fs) = (RdErr k # rs, ws, fs)"
| "prepend (GotWrite (Ok n)) (rs, ws, fs) = (rs, WrAccept n # ws, fs)"
| "prepend (GotWrite (Err k)) (rs, ws, fs) = (rs, WrErr k # ws, fs)"
| "prepend (GotFlush (Ok u)) (rs, ws, fs) = (rs, ws, FlOk # fs)"
| "prepend (GotFlush (Err k)) (rs, ws, fs) = (rs, ws, FlErr k # fs)"
| "prepend _ scripts = scripts"

context stream_contract
begin

lemma step_in_world:
  assumes "io_step B call s = (r, s1)" "\<And>room. call = CallRead room \<Longrightarrow> 0 < room"
    and "prepend r (rs, ws, fs) = (rs', ws', fs')" "plays w rs' ws' fs'"
  shows "\<exists>w1. io_step (world_stream nd) call w = (r, w1) \<and> plays w1 rs ws fs"
proof (cases call)
  case (CallRead room)
  obtain q s2 where b: "bs_read B room s = (q, s2)" by fastforce
  have r: "r = GotRead q" "0 < room" using assms(1,2) b CallRead by simp_all
  show ?thesis
  proof (cases q)
    case (Ok bs)
    then have "length bs \<le> room" using read_fits b by simp
    then show ?thesis
      using assms(3,4) r Ok CallRead by (auto simp: plays_def world_stream_def stream_read_def)
  next
    case (Err k)
    then show ?thesis
      using assms(3,4) r CallRead by (auto simp: plays_def world_stream_def stream_read_def)
  next
    case Panic
    then show ?thesis using read_returns [of room s] b by simp
  qed
next
  case (CallWrite buf)
  obtain q s2 where b: "bs_write B buf s = (q, s2)" by fastforce
  have r: "r = GotWrite q" using assms(1) b CallWrite by simp
  show ?thesis
  proof (cases q)
    case (Ok n)
    then have "n \<le> length buf" using write_prefix b by simp
    then show ?thesis
      using assms(3,4) r Ok CallWrite by (auto simp: plays_def world_stream_def stream_write_def)
  next
    case (Err k)
    then show ?thesis
      using assms(3,4) r CallWrite by (auto simp: plays_def world_stream_def stream_write_def)
  next
    case Panic
    then show ?thesis using write_returns [of buf s] b by simp
  qed
next
  case CallFlush
  obtain q s2 where b: "bs_flush B s = (q, s2)" by fastforce
  have r: "r = GotFlush q" using assms(1) b CallFlush by simp
  show ?thesis
    using assms(3,4) r CallFlush flush_returns [of s] b
    by (cases q) (auto simp: plays_def world_stream_def stream_flush_def)
qed

lemma run_in_world:
  assumes "\<And>got room. client got = CallRead room \<Longrightarrow> 0 < room"
  shows "\<exists>rs ws fs. \<forall>w. plays w rs ws fs \<longrightarrow>
    fst (io_run (world_stream nd) client n got w) = fst (io_run B client n got s)"
proof (induction n arbitrary: got s)
  case 0
  then show ?case by simp
next
  case (Suc n)
  obtain r s1 where st: "io_step B (client got) s = (r, s1)" by fastforce
  obtain rs ws fs where ih: "\<And>w. plays w rs ws fs \<Longrightarrow>
      fst (io_run (world_stream nd) client n (got @ [r]) w) = fst (io_run B client n (got @ [r]) s1)"
    using Suc.IH [of "got @ [r]" s1] by blast
  obtain rs' ws' fs' where p: "prepend r (rs, ws, fs) = (rs', ws', fs')" by (metis prod.exhaust)
  have "fst (io_run (world_stream nd) client (Suc n) got w) = fst (io_run B client (Suc n) got s)"
    if w: "plays w rs' ws' fs'" for w
  proof -
    obtain w1 where "io_step (world_stream nd) (client got) w = (r, w1)" "plays w1 rs ws fs"
      using step_in_world [OF st _ p w, of nd] assms by blast
    then show ?thesis using ih [of w1] st by simp
  qed
  then show ?case by blast
qed

lemma some_world:
  assumes "\<And>got room. client got = CallRead room \<Longrightarrow> 0 < room"
  shows "\<exists>w. sent w = [] \<and> fst (io_run (world_stream nd) client n [] w) = fst (io_run B client n [] s)"
proof -
  obtain rs ws fs where r: "\<And>w. plays w rs ws fs \<Longrightarrow>
      fst (io_run (world_stream nd) client n [] w) = fst (io_run B client n [] s)"
    using run_in_world [of client nd n "[]" s] assms by blast
  let ?w = "\<lparr>reads = rs, writes = ws, flushes = fs, sent = [], masks = (\<lambda>_. (0, 0, 0, 0)), draws = 0, slack = []\<rparr>"
  have "plays ?w rs ws fs" by (simp add: plays_def)
  then show ?thesis using r by (intro exI [of _ ?w]) simp
qed

end

interpretation ws: stream_contract "world_stream nd" for nd
proof
  show "fst (bs_read (world_stream nd) room s) \<noteq> Panic" for room s
    using stream_read_no_panic [of room s] by (cases "stream_read room s") (auto simp: world_stream_def)
  show "length bs \<le> room" if "bs_read (world_stream nd) room s = (Ok bs, s')" for room s bs s'
    using that stream_read_bytes by (simp add: world_stream_def)
  show "fst (bs_write (world_stream nd) buf s) \<noteq> Panic" for buf s
    using stream_write_no_panic [of buf s] by (cases "stream_write buf s") (auto simp: world_stream_def)
  show "n \<le> length buf" if "bs_write (world_stream nd) buf s = (Ok n, s')" for buf s n s'
    using that stream_write_Ok by (simp add: world_stream_def)
  show "fst (bs_flush (world_stream nd) s) \<noteq> Panic" for s
    using stream_flush_no_panic [of s] by (cases "stream_flush s") (auto simp: world_stream_def)
qed

section \<open>A stream that may be TLS is a stream\<close>

text \<open>The two TLS streams with the operations of their libraries.\<close>

definition native_stream :: "'s byte_stream \<Rightarrow> ('s, 't, 'k) tls_streams \<Rightarrow> 't byte_stream" where
  "native_stream P T = \<lparr>bs_read = native_read T, bs_write = native_write T, bs_flush = native_flush T,
     bs_set_nodelay = native_set_nodelay P T\<rparr>"

definition rustls_stream :: "'s byte_stream \<Rightarrow> ('s, 't, 'k) tls_streams \<Rightarrow> ('k \<times> 's) byte_stream" where
  "rustls_stream P T = \<lparr>bs_read = rustls_read T, bs_write = rustls_write T, bs_flush = rustls_flush T,
     bs_set_nodelay = rustls_set_nodelay P\<rparr>"

lemma maybe_tls_contract:
  assumes p: "stream_contract P" and n: "stream_contract (native_stream P T)" and k: "stream_contract (rustls_stream P T)"
  shows "stream_contract (maybe_tls P T)"
proof
  note laws = stream_contract.read_returns stream_contract.write_returns stream_contract.flush_returns
  show "fst (bs_read (maybe_tls P T) room st) \<noteq> Panic" for room st
    using laws(1) [OF p, of room] laws(1) [OF n, of room] laws(1) [OF k, of room]
    by (cases st) (auto simp: maybe_tls_def maybe_tls_read_def native_stream_def rustls_stream_def split_beta)
  show "fst (bs_write (maybe_tls P T) buf st) \<noteq> Panic" for buf st
    using laws(2) [OF p, of buf] laws(2) [OF n, of buf] laws(2) [OF k, of buf]
    by (cases st) (auto simp: maybe_tls_def maybe_tls_write_def native_stream_def rustls_stream_def split_beta)
  show "fst (bs_flush (maybe_tls P T) st) \<noteq> Panic" for st
    using laws(3) [OF p] laws(3) [OF n] laws(3) [OF k]
    by (cases st) (auto simp: maybe_tls_def maybe_tls_flush_def native_stream_def rustls_stream_def split_beta)
  show "length bs \<le> room" if "bs_read (maybe_tls P T) room st = (Ok bs, st')" for room st bs st'
    using that stream_contract.read_fits [OF p, of room _ bs] stream_contract.read_fits [OF n, of room _ bs]
      stream_contract.read_fits [OF k, of room _ bs]
    by (cases st)
      (auto simp: maybe_tls_def maybe_tls_read_def native_stream_def rustls_stream_def split: prod.splits)
  show "n \<le> length buf" if "bs_write (maybe_tls P T) buf st = (Ok n, st')" for buf st n st'
    using that stream_contract.write_prefix [OF p, of buf _ n] stream_contract.write_prefix [OF n, of buf _ n]
      stream_contract.write_prefix [OF k, of buf _ n]
    by (cases st)
      (auto simp: maybe_tls_def maybe_tls_write_def native_stream_def rustls_stream_def split: prod.splits)
qed

text \<open>What a world has sent is what the writes of the run have taken.\<close>

lemma io_step_sent:
  assumes "io_step (world_stream nd) call w = (r, w1)"
  shows "sent w1 = sent w @ accepted_by call r"
proof (cases call)
  case (CallRead room)
  then show ?thesis using assms by (auto simp: world_stream_def dest: stream_read_frame split: prod.splits)
next
  case (CallWrite buf)
  obtain q w2 where s: "stream_write buf w = (q, w2)" by fastforce
  then have r: "w1 = w2" "r = GotWrite q" using assms CallWrite by (simp_all add: world_stream_def)
  show ?thesis
  proof (cases q)
    case (Ok n)
    then show ?thesis using stream_write_Ok [of buf w n w2] s r CallWrite by simp
  next
    case (Err k)
    then show ?thesis using stream_write_Err [of buf w k w2] s r CallWrite by simp
  qed (use s in simp)
next
  case CallFlush
  then show ?thesis using assms by (auto simp: world_stream_def dest: stream_flush_frame split: prod.splits)
qed

lemma io_run_sent:
  "io_run (world_stream nd) client n got w = (answers, w') \<Longrightarrow> sent w = before @ accepted_bytes client got \<Longrightarrow>
     sent w' = before @ accepted_bytes client answers"
proof (induction n arbitrary: got w)
  case (Suc n)
  obtain r w1 where st: "io_step (world_stream nd) (client got) w = (r, w1)" by fastforce
  show ?case using Suc.IH [of "got @ [r]" w1] Suc.prems st io_step_sent [OF st] by simp
qed simp

text \<open>A run on a \<open>MaybeTlsStream\<close> is a run on the stream it holds.\<close>

fun run_below ::
  "'s byte_stream \<Rightarrow> ('s, 't, 'k) tls_streams \<Rightarrow> (io_reply list \<Rightarrow> io_call) \<Rightarrow> nat \<Rightarrow> io_reply list
     \<Rightarrow> ('s, 't, 'k) maybe_tls_stream \<Rightarrow> io_reply list \<times> ('s, 't, 'k) maybe_tls_stream" where
  "run_below P T client n got (PlainStream s) =
     (case io_run P client n got s of (answers, s1) \<Rightarrow> (answers, PlainStream s1))"
| "run_below P T client n got (NativeTlsStream t) =
     (case io_run (native_stream P T) client n got t of (answers, t1) \<Rightarrow> (answers, NativeTlsStream t1))"
| "run_below P T client n got (RustlsStream ks) =
     (case io_run (rustls_stream P T) client n got ks of (answers, ks1) \<Rightarrow> (answers, RustlsStream ks1))"

lemma io_step_maybe_tls:
  "io_step (maybe_tls P T) call (PlainStream s) = (case io_step P call s of (r, s1) \<Rightarrow> (r, PlainStream s1))"
  "io_step (maybe_tls P T) call (NativeTlsStream t) =
     (case io_step (native_stream P T) call t of (r, t1) \<Rightarrow> (r, NativeTlsStream t1))"
  "io_step (maybe_tls P T) call (RustlsStream ks) =
     (case io_step (rustls_stream P T) call ks of (r, ks1) \<Rightarrow> (r, RustlsStream ks1))"
  by (cases call; simp add: maybe_tls_def maybe_tls_read_def maybe_tls_write_def maybe_tls_flush_def native_stream_def
      rustls_stream_def split: prod.split)+

lemma io_run_maybe_tls: "io_run (maybe_tls P T) client n got st = run_below P T client n got st"
proof (induction n arbitrary: got st)
  case 0
  then show ?case by (cases st) simp_all
next
  case (Suc n)
  then show ?case by (cases st) (simp_all add: io_step_maybe_tls split: prod.split)
qed

text \<open>
  Claim C27. A \<open>MaybeTlsStream\<close> adds nothing and loses nothing. In every run of reads (into a
  buffer that is not empty), writes and flushes, whatever calls follow from the answers, it gives
  the answers of the stream it holds (the socket, or the session of \<open>native_tls\<close> or \<open>rustls\<close>) and
  leaves that stream as the same run on it would. If the socket and the sessions keep the
  contracts of \<open>Read\<close> and \<open>Write\<close>, some world of the model answers the run in the same way, and
  what that world has sent is what the writes of the run have taken: what the development proves
  of connections on worlds holds on a stream that may be protected with TLS.
\<close>

theorem maybe_tls_is_a_world:
  assumes "stream_contract P" "stream_contract (native_stream P T)" "stream_contract (rustls_stream P T)"
    and "\<forall>got room. client got = CallRead room \<longrightarrow> 0 < room"
  shows "io_run (maybe_tls P T) client n [] st = run_below P T client n [] st \<and>
    (\<exists>w answers w' st'. io_run (maybe_tls P T) client n [] st = (answers, st') \<and>
       io_run (world_stream nd) client n [] w = (answers, w') \<and> sent w = [] \<and>
       sent w' = accepted_bytes client answers)"
proof -
  obtain answers st' where run: "io_run (maybe_tls P T) client n [] st = (answers, st')" by fastforce
  obtain w where w: "sent w = []" "fst (io_run (world_stream nd) client n [] w) = answers"
    using stream_contract.some_world [OF maybe_tls_contract [OF assms(1-3)], of client nd n st] assms(4) run by auto
  then obtain w' where w': "io_run (world_stream nd) client n [] w = (answers, w')" by (metis prod.collapse)
  from io_run_sent [OF this, of "[]"] w have "sent w' = accepted_bytes client answers" by simp
  with run w w' io_run_maybe_tls show ?thesis by blast
qed

text \<open>A TLS library that adds nothing to the socket below it.\<close>

definition bare_tls :: "(world, world, unit) tls_streams" where
  "bare_tls = \<lparr>native_read = stream_read, native_write = stream_write, native_flush = stream_flush,
     native_socket = (\<lambda>t. t), native_with_socket = (\<lambda>s t. s),
     rustls_read = (\<lambda>room (k, s). case stream_read room s of (r, s1) \<Rightarrow> (r, k, s1)),
     rustls_write = (\<lambda>buf (k, s). case stream_write buf s of (r, s1) \<Rightarrow> (r, k, s1)),
     rustls_flush = (\<lambda>(k, s). case stream_flush s of (r, s1) \<Rightarrow> (r, k, s1))\<rparr>"

definition still_nodelay :: "bool \<Rightarrow> world \<Rightarrow> (io_kind, unit) outcome \<times> world" where
  "still_nodelay nodelay w = (Ok (), w)"

lemma bare_native: "stream_contract (native_stream (world_stream still_nodelay) bare_tls)"
proof -
  have "native_stream (world_stream still_nodelay) bare_tls = world_stream still_nodelay"
    by (auto simp: native_stream_def world_stream_def bare_tls_def native_set_nodelay_def still_nodelay_def fun_eq_iff)
  then show ?thesis using ws.stream_contract_axioms by simp
qed

lemma bare_rustls: "stream_contract (rustls_stream (world_stream still_nodelay) bare_tls)"
proof
  note simps = rustls_stream_def bare_tls_def
  show "fst (bs_read (rustls_stream (world_stream still_nodelay) bare_tls) room ks) \<noteq> Panic" for room ks
    using stream_read_no_panic [of room "snd ks"]
    by (cases ks; cases "stream_read room (snd ks)") (auto simp: simps)
  show "fst (bs_write (rustls_stream (world_stream still_nodelay) bare_tls) buf ks) \<noteq> Panic" for buf ks
    using stream_write_no_panic [of buf "snd ks"]
    by (cases ks; cases "stream_write buf (snd ks)") (auto simp: simps)
  show "fst (bs_flush (rustls_stream (world_stream still_nodelay) bare_tls) ks) \<noteq> Panic" for ks
    using stream_flush_no_panic [of "snd ks"]
    by (cases ks; cases "stream_flush (snd ks)") (auto simp: simps)
  show "length bs \<le> room" if "bs_read (rustls_stream (world_stream still_nodelay) bare_tls) room ks = (Ok bs, ks')"
    for room ks bs ks'
    using that stream_read_bytes [of room "snd ks"] by (cases ks) (auto simp: simps split: prod.splits)
  show "n \<le> length buf" if "bs_write (rustls_stream (world_stream still_nodelay) bare_tls) buf ks = (Ok n, ks')"
    for buf ks n ks'
    using that stream_write_Ok [of buf "snd ks"] by (cases ks) (auto simp: simps split: prod.splits)
qed

definition sample_client :: "io_reply list \<Rightarrow> io_call" where
  "sample_client got = (case got of [] \<Rightarrow> CallWrite [1, 2] | [_] \<Rightarrow> CallFlush | _ \<Rightarrow> CallRead 4)"

text \<open>
  A \<open>rustls\<close> session takes one of two bytes, cannot be flushed yet and has three bytes to read:
  the socket below has sent that one byte.
\<close>

lemma maybe_tls_is_a_world_witness:
  "\<exists>w w' s.
     io_run (maybe_tls (world_stream still_nodelay) bare_tls) sample_client 3 []
         (RustlsStream ((), \<lparr>reads = [RdBytes [5, 6, 7]], writes = [WrAccept 1], flushes = [FlErr WouldBlock], sent = [],
            masks = (\<lambda>_. (0, 0, 0, 0)), draws = 0, slack = []\<rparr>)) =
       ([GotWrite (Ok 1), GotFlush (Err WouldBlock), GotRead (Ok [5, 6, 7])], RustlsStream ((), s)) \<and>
     sent s = [1] \<and>
     io_run (world_stream still_nodelay) sample_client 3 [] w =
       ([GotWrite (Ok 1), GotFlush (Err WouldBlock), GotRead (Ok [5, 6, 7])], w') \<and>
     sent w' = [1]"
proof -
  let ?s = "\<lparr>reads = [RdBytes [5, 6, 7]], writes = [WrAccept 1], flushes = [FlErr WouldBlock], sent = [],
    masks = (\<lambda>_. (0, 0, 0, 0)), draws = 0, slack = []\<rparr> :: world"
  let ?got = "[GotWrite (Ok 1), GotFlush (Err WouldBlock), GotRead (Ok [5, 6, 7])]"
  have below: "run_below (world_stream still_nodelay) bare_tls sample_client 3 [] (RustlsStream ((), ?s)) =
      (?got, RustlsStream ((), ?s\<lparr>reads := [], writes := [], flushes := [], sent := [1]\<rparr>))"
    by (simp add: numeral_3_eq_3 sample_client_def rustls_stream_def bare_tls_def stream_read_def stream_write_def
        stream_flush_def)
  have acc: "accepted_bytes sample_client ?got = [1]"
    by (simp add: accepted_bytes_def sample_client_def)
  have pos: "\<forall>got room. sample_client got = CallRead room \<longrightarrow> 0 < room"
    by (auto simp: sample_client_def split: list.splits)
  note law = maybe_tls_is_a_world [where client = sample_client and n = 3 and nd = still_nodelay
      and st = "RustlsStream ((), ?s)", OF ws.stream_contract_axioms bare_native bare_rustls pos]
  note run = law [THEN conjunct1, unfolded below]
  from law obtain w w' where "io_run (world_stream still_nodelay) sample_client 3 [] w = (?got, w')" "sent w' = [1]"
    unfolding run by (auto simp: acc simp del: One_nat_def)
  with run show ?thesis by auto
qed

end
