(* ===== verification/Tls.thy ===== *)
theory Tls
  imports Client Streams
begin

text \<open>
  Upgrading a stream to TLS, \<open>src/src/tls.rs\<close>: the connectors, \<open>wrap_stream\<close> of each backend,
  and the client handshake over the stream that results. The crate's features are the record
  \<open>features\<close>; \<open>native_tls\<close>, \<open>rustls\<close> and its companions are the parameter \<open>tls_lib\<close>.

  A \<open>MaybeTlsStream\<close> that a handshake runs on is seen through \<open>stream_view\<close>, the \<open>world\<close> that
  answers as it does (\<open>maybe_tls_is_a_world\<close> of \<open>Streams\<close>). When a call fails, its stream is
  dropped, and the world that comes with the error means nothing.
\<close>

section \<open>Features and libraries\<close>

record features =
  feature_native_tls :: bool
  feature_rustls_tls :: bool     \<comment> \<open>\<open>__rustls-tls\<close>\<close>
  feature_native_roots :: bool   \<comment> \<open>\<open>rustls-tls-native-roots\<close>\<close>
  feature_webpki_roots :: bool   \<comment> \<open>\<open>rustls-tls-webpki-roots\<close>\<close>

definition tls_enabled :: "features \<Rightarrow> bool" where
  "tls_enabled F \<longleftrightarrow> feature_native_tls F \<or> feature_rustls_tls F"

text \<open>What \<open>TlsConnector::connect\<close> returns.\<close>

datatype 't native_connected = NativeConnected 't | NativeFailure | NativeWouldBlock

record ('t, 'k, 'n, 'g, 'r) tls_lib =
  native_connector_new :: "'n option"                \<comment> \<open>\<open>TlsConnector::new\<close>\<close>
  native_connect :: "'n \<Rightarrow> bytes \<Rightarrow> world \<Rightarrow> 't native_connected"
  native_certs :: "bytes list"                       \<comment> \<open>\<open>load_native_certs\<close>\<close>
  root_store_empty :: 'r
  add_parsable_certificates :: "bytes list \<Rightarrow> 'r \<Rightarrow> 'r"
  add_webpki_roots :: "'r \<Rightarrow> 'r"                      \<comment> \<open>\<open>extend(TLS_SERVER_ROOTS)\<close>\<close>
  client_config_build :: "'r \<Rightarrow> 'g option"            \<comment> \<open>\<open>None\<close>: no default \<open>CryptoProvider\<close>, a panic\<close>
  server_name :: "bytes \<Rightarrow> bytes option"              \<comment> \<open>\<open>ServerName::try_from\<close>\<close>
  client_connection_new :: "'g \<Rightarrow> bytes \<Rightarrow> 'k option" \<comment> \<open>\<open>ClientConnection::new\<close>\<close>
  native_view :: "'t \<Rightarrow> world"
  rustls_view :: "'k \<times> world \<Rightarrow> world"

type_synonym ('t, 'k) any_stream = "(world, 't, 'k) maybe_tls_stream"

fun stream_view :: "('t, 'k, 'n, 'g, 'r) tls_lib \<Rightarrow> ('t, 'k) any_stream \<Rightarrow> world" where
  "stream_view L (PlainStream s) = s"
| "stream_view L (NativeTlsStream t) = native_view L t"
| "stream_view L (RustlsStream ks) = rustls_view L ks"

datatype ('n, 'g) connector = PlainConnector | NativeTlsConnector 'n | RustlsConnector 'g

section \<open>Wrapping a stream\<close>

definition native_wrap_stream ::
  "('t, 'k, 'n, 'g, 'r) tls_lib \<Rightarrow> world \<Rightarrow> bytes \<Rightarrow> stream_mode \<Rightarrow> 'n option \<Rightarrow> ('t, 'k) any_stream result" where
  "native_wrap_stream L socket domain mode tls_connector =
     (case mode of
        PlainMode \<Rightarrow> Ok (PlainStream socket)
      | TlsMode \<Rightarrow>
          bind_out
            (ok_or (Tls NativeTlsError)
              (case tls_connector of None \<Rightarrow> native_connector_new L | Some c \<Rightarrow> Some c)) (\<lambda>connector.
            case native_connect L connector domain socket of
              NativeFailure \<Rightarrow> Err (Tls NativeTlsError)
            | NativeWouldBlock \<Rightarrow> Panic
            | NativeConnected s \<Rightarrow> Ok (NativeTlsStream s)))"

text \<open>\<open>ErrorKind::NotFound\<close>.\<close>

definition io_not_found :: io_kind where
  "io_not_found = OtherKind 0"

definition rustls_default_config :: "features \<Rightarrow> ('t, 'k, 'n, 'g, 'r) tls_lib \<Rightarrow> 'g result" where
  "rustls_default_config F L =
     (if feature_native_roots F \<and> \<not> feature_webpki_roots F \<and> native_certs L = [] then Err (Io io_not_found)
      else
        let store = (if feature_native_roots F then add_parsable_certificates L (native_certs L) (root_store_empty L)
                     else root_store_empty L);
            store1 = (if feature_webpki_roots F then add_webpki_roots L store else store)
        in case client_config_build L store1 of None \<Rightarrow> Panic | Some config \<Rightarrow> Ok config)"

definition rustls_wrap_stream ::
  "features \<Rightarrow> ('t, 'k, 'n, 'g, 'r) tls_lib \<Rightarrow> world \<Rightarrow> bytes \<Rightarrow> stream_mode \<Rightarrow> 'g option
     \<Rightarrow> ('t, 'k) any_stream result" where
  "rustls_wrap_stream F L socket domain mode tls_connector =
     (case mode of
        PlainMode \<Rightarrow> Ok (PlainStream socket)
      | TlsMode \<Rightarrow>
          bind_out (case tls_connector of Some config \<Rightarrow> Ok config | None \<Rightarrow> rustls_default_config F L) (\<lambda>config.
          bind_out (ok_or (Tls InvalidDnsName) (server_name L domain)) (\<lambda>name.
          bind_out (ok_or (Tls RustlsError) (client_connection_new L config name)) (\<lambda>conn.
            Ok (RustlsStream (conn, socket))))))"

definition plain_wrap_stream :: "world \<Rightarrow> stream_mode \<Rightarrow> ('t, 'k) any_stream result" where
  "plain_wrap_stream socket mode =
     (case mode of PlainMode \<Rightarrow> Ok (PlainStream socket) | TlsMode \<Rightarrow> Err (Url TlsFeatureNotEnabled))"

text \<open>The choice of the backend in \<open>client_tls_with_config\<close>.\<close>

definition wrap_stream ::
  "features \<Rightarrow> ('t, 'k, 'n, 'g, 'r) tls_lib \<Rightarrow> world \<Rightarrow> bytes \<Rightarrow> stream_mode \<Rightarrow> ('n, 'g) connector option
     \<Rightarrow> ('t, 'k) any_stream result" where
  "wrap_stream F L stream domain mode conn =
     (case conn of
        Some (NativeTlsConnector c) \<Rightarrow> native_wrap_stream L stream domain mode (Some c)
      | Some (RustlsConnector c) \<Rightarrow> rustls_wrap_stream F L stream domain mode (Some c)
      | Some PlainConnector \<Rightarrow> plain_wrap_stream stream mode
      | None \<Rightarrow>
          (if feature_native_tls F then native_wrap_stream L stream domain mode None
           else if feature_rustls_tls F then rustls_wrap_stream F L stream domain mode None
           else plain_wrap_stream stream mode))"

section \<open>The client handshake over TLS\<close>

text \<open>Everything of \<open>client_tls_with_config\<close> before the handshake: the request and its stream.\<close>

definition tls_prepare ::
  "features \<Rightarrow> ('t, 'k, 'n, 'g, 'r) tls_lib \<Rightarrow> 'u http_lib \<Rightarrow> 'u http_request result \<Rightarrow> world
     \<Rightarrow> ('n, 'g) connector option \<Rightarrow> ('u http_request \<times> ('t, 'k) any_stream) result" where
  "tls_prepare F L H into stream conn =
     bind_out into (\<lambda>request.
     bind_out (ok_or (Url NoHostName) (uri_host H (rq_uri request))) (\<lambda>domain.
     bind_out (uri_mode H (rq_uri request)) (\<lambda>mode.
     bind_out (wrap_stream F L stream domain mode conn) (\<lambda>wrapped. Ok (request, wrapped)))))"

definition client_tls_with_config ::
  "features \<Rightarrow> ('t, 'k, 'n, 'g, 'r) tls_lib \<Rightarrow> ('c, 'd) flate \<Rightarrow> 'u http_lib \<Rightarrow> nat \<Rightarrow> 'u http_request result \<Rightarrow> world
     \<Rightarrow> config option \<Rightarrow> ('n, 'g) connector option
     \<Rightarrow> ((client_handshake handshake_error, ('c, 'd) ctx \<times> bytes option http_reply) outcome \<times> world) option" where
  "client_tls_with_config F L fl H cap into stream conf conn =
     (case tls_prepare F L H into stream conn of
        Err e \<Rightarrow> Some (Err (Failure e), stream)
      | Panic \<Rightarrow> Some (Panic, stream)
      | Ok (request, wrapped) \<Rightarrow> client_with_config fl H cap (Ok request) (stream_view L wrapped) conf)"

definition client_tls ::
  "features \<Rightarrow> ('t, 'k, 'n, 'g, 'r) tls_lib \<Rightarrow> ('c, 'd) flate \<Rightarrow> 'u http_lib \<Rightarrow> nat \<Rightarrow> 'u http_request result \<Rightarrow> world
     \<Rightarrow> ((client_handshake handshake_error, ('c, 'd) ctx \<times> bytes option http_reply) outcome \<times> world) option" where
  "client_tls F L fl H cap into stream = client_tls_with_config F L fl H cap into stream None None"

section \<open>What a wrapped stream is\<close>

lemma wrap_stream_plain [simp]: "wrap_stream F L stream domain PlainMode conn = Ok (PlainStream stream)"
  by (simp add: wrap_stream_def native_wrap_stream_def rustls_wrap_stream_def plain_wrap_stream_def
      split: option.split connector.split)

text \<open>
  A session that authenticates \<open>domain\<close>: one that a TLS library has made for this name over this
  socket, under the connector the caller chose.
\<close>

definition session_for ::
  "features \<Rightarrow> ('t, 'k, 'n, 'g, 'r) tls_lib \<Rightarrow> world \<Rightarrow> bytes \<Rightarrow> ('n, 'g) connector option
     \<Rightarrow> ('t, 'k) any_stream \<Rightarrow> bool" where
  "session_for F L stream domain conn st \<longleftrightarrow>
     (\<exists>c t. st = NativeTlsStream t \<and> native_connect L c domain stream = NativeConnected t \<and>
        (conn = Some (NativeTlsConnector c) \<or>
         conn = None \<and> feature_native_tls F \<and> native_connector_new L = Some c)) \<or>
     (\<exists>g name k. st = RustlsStream (k, stream) \<and> server_name L domain = Some name \<and>
        client_connection_new L g name = Some k \<and>
        (conn = Some (RustlsConnector g) \<or>
         conn = None \<and> feature_rustls_tls F \<and> \<not> feature_native_tls F \<and> rustls_default_config F L = Ok g))"

lemma native_wrap_stream_tls:
  assumes "native_wrap_stream L socket domain TlsMode conn = Ok st"
  shows "\<exists>c t. st = NativeTlsStream t \<and> native_connect L c domain socket = NativeConnected t \<and>
    (conn = Some c \<or> conn = None \<and> native_connector_new L = Some c)"
proof -
  obtain c where c: "(case conn of None \<Rightarrow> native_connector_new L | Some c \<Rightarrow> Some c) = Some c"
    and st: "(case native_connect L c domain socket of NativeFailure \<Rightarrow> Err (Tls NativeTlsError)
        | NativeWouldBlock \<Rightarrow> Panic | NativeConnected t \<Rightarrow> Ok (NativeTlsStream t)) = Ok st"
    using assms by (auto simp: native_wrap_stream_def bind_out_Ok_iff)
  from st obtain t where "st = NativeTlsStream t" "native_connect L c domain socket = NativeConnected t"
    by (cases "native_connect L c domain socket") auto
  then show ?thesis using c by (cases conn) auto
qed

lemma rustls_wrap_stream_tls:
  assumes "rustls_wrap_stream F L socket domain TlsMode conn = Ok st"
  shows "\<exists>g name k. st = RustlsStream (k, socket) \<and> server_name L domain = Some name \<and>
    client_connection_new L g name = Some k \<and> (conn = Some g \<or> conn = None \<and> rustls_default_config F L = Ok g)"
  using assms by (cases conn) (auto simp: rustls_wrap_stream_def bind_out_Ok_iff)

lemma wrap_stream_tls:
  assumes "wrap_stream F L stream domain TlsMode conn = Ok st"
  shows "session_for F L stream domain conn st"
proof (cases conn)
  case None
  then show ?thesis
    using assms native_wrap_stream_tls [of L stream domain None st] rustls_wrap_stream_tls [of F L stream domain None st]
    by (fastforce simp: wrap_stream_def plain_wrap_stream_def session_for_def split: if_splits)
next
  case (Some c)
  then show ?thesis
    using assms native_wrap_stream_tls [of L stream domain "Some _" st]
      rustls_wrap_stream_tls [of F L stream domain "Some _" st]
    by (cases c) (fastforce simp: wrap_stream_def plain_wrap_stream_def session_for_def)+
qed

lemma session_not_plain: "session_for F L stream domain conn st \<Longrightarrow> st \<noteq> PlainStream s"
  by (auto simp: session_for_def)

lemma tls_prepare_Ok:
  "tls_prepare F L H into stream conn = Ok (request, st) \<longleftrightarrow>
     (\<exists>domain mode. into = Ok request \<and> uri_host H (rq_uri request) = Some domain \<and>
        uri_mode H (rq_uri request) = Ok mode \<and> wrap_stream F L stream domain mode conn = Ok st)"
  by (auto simp: tls_prepare_def bind_out_Ok_iff ok_or_Ok_iff)

lemma client_tls_Ok:
  assumes "client_tls_with_config F L fl H cap into stream conf conn = Some (Ok y, w)"
  shows "\<exists>request st. tls_prepare F L H into stream conn = Ok (request, st) \<and>
    client_with_config fl H cap (Ok request) (stream_view L st) conf = Some (Ok y, w)"
  using assms by (auto simp: client_tls_with_config_def split: outcome.splits)

text \<open>
  The name that the session is made for is the host as the URL writes it. An IPv6 address stands
  in brackets there, which are no part of a DNS name or of an address: \<open>rustls\<close> refuses it.
\<close>

theorem bracketed_host_refused:
  assumes "uri_mode H (rq_uri request) = Ok TlsMode" "uri_host H (rq_uri request) = Some (91 # rest)"
    and "\<forall>s. server_name L (91 # s) = None"
  shows "client_tls_with_config F L fl H cap (Ok request) stream conf (Some (RustlsConnector g)) =
    Some (Err (Failure (Tls InvalidDnsName)), stream)"
  using assms by (simp add: client_tls_with_config_def tls_prepare_def wrap_stream_def rustls_wrap_stream_def)

end
