(* ===== verification/Connect.thy ===== *)
theory Connect
  imports Tls
begin

text \<open>
  Connecting as a client, \<open>src/src/client.rs\<close>: \<open>connect\<close> with its attempts and redirects.

  Name resolution and \<open>TcpStream\<close> are parameters: \<open>resolve\<close>, \<open>tcp_connect\<close> (which may answer
  each attempt differently) and \<open>set_nodelay\<close>. The features of the build decide whether the
  handshake of an attempt goes through \<open>client_tls_with_config\<close> or stays on the socket.
\<close>

section \<open>Connecting\<close>

record 'a network =
  resolve :: "bytes \<Rightarrow> nat \<Rightarrow> (io_kind, 'a list) outcome"
  tcp_connect :: "nat \<Rightarrow> 'a \<Rightarrow> world option"
  set_nodelay :: "world \<Rightarrow> (io_kind, world) outcome"

fun connect_to_some :: "(nat \<Rightarrow> 'a \<Rightarrow> world option) \<Rightarrow> nat \<Rightarrow> 'a list \<Rightarrow> bytes \<Rightarrow> world result" where
  "connect_to_some connect attempt [] uri = Err (Url (UnableToConnect uri))"
| "connect_to_some connect attempt (a # addrs) uri =
     (case connect attempt a of Some stream \<Rightarrow> Ok stream | None \<Rightarrow> connect_to_some connect attempt addrs uri)"

text \<open>The host without the brackets of an IPv6 address.\<close>

definition bare_host :: "bytes \<Rightarrow> bytes result" where
  "bare_host host =
     (if host \<noteq> [] \<and> hd host = 91 then
        (if length host < 2 then Panic else Ok (take (length host - 2) (drop 1 host)))
      else Ok host)"

definition lift_to_error :: "(io_kind, 'a) outcome \<Rightarrow> 'a result" where
  "lift_to_error r = (case r of Ok a \<Rightarrow> Ok a | Err k \<Rightarrow> Err (Io k) | Panic \<Rightarrow> Panic)"

definition default_port :: "stream_mode \<Rightarrow> nat" where
  "default_port mode = (case mode of PlainMode \<Rightarrow> 80 | TlsMode \<Rightarrow> 443)"

text \<open>The part of \<open>try_client_handshake\<close> that opens the socket.\<close>

definition open_stream :: "features \<Rightarrow> 'u http_lib \<Rightarrow> 'a network \<Rightarrow> nat \<Rightarrow> 'u \<Rightarrow> world result" where
  "open_stream F H net attempt uri =
     bind_out (uri_mode H uri) (\<lambda>mode.
       if \<not> tls_enabled F \<and> mode = TlsMode then Err (Url TlsFeatureNotEnabled)
       else
         bind_out (ok_or (Url NoHostName) (uri_host H uri)) (\<lambda>h.
         bind_out (bare_host h) (\<lambda>host.
           let port = (case uri_port H uri of Some p \<Rightarrow> p | None \<Rightarrow> default_port mode) in
           bind_out (lift_to_error (resolve net host port)) (\<lambda>addrs.
           bind_out (connect_to_some (tcp_connect net) attempt addrs (uri_display H uri)) (\<lambda>stream.
             lift_to_error (set_nodelay net stream))))))"

definition client_over ::
  "features \<Rightarrow> ('t, 'k, 'n, 'g, 'r) tls_lib \<Rightarrow> ('c, 'd) flate \<Rightarrow> 'u http_lib \<Rightarrow> nat \<Rightarrow> 'u http_request \<Rightarrow> world
     \<Rightarrow> config option
     \<Rightarrow> ((client_handshake handshake_error, ('c, 'd) ctx \<times> bytes option http_reply) outcome \<times> world) option" where
  "client_over F L fl H cap request stream conf =
     (if tls_enabled F then client_tls_with_config F L fl H cap (Ok request) stream conf None
      else client_with_config fl H cap (Ok request) stream conf)"

definition try_client_handshake ::
  "features \<Rightarrow> ('t, 'k, 'n, 'g, 'r) tls_lib \<Rightarrow> ('c, 'd) flate \<Rightarrow> 'u http_lib \<Rightarrow> nat \<Rightarrow> 'a network \<Rightarrow> nat
     \<Rightarrow> 'u http_request \<Rightarrow> config option \<Rightarrow> (('c, 'd) ws \<times> bytes option http_reply) result option" where
  "try_client_handshake F L fl H cap net attempt request conf =
     (case open_stream F H net attempt (rq_uri request) of
        Err e \<Rightarrow> Some (Err e)
      | Panic \<Rightarrow> Some Panic
      | Ok stream \<Rightarrow>
          (case client_over F L fl H cap request stream conf of
             None \<Rightarrow> None
           | Some (Ok (x, response), w) \<Rightarrow> Some (Ok ((x, w), response))
           | Some (Err (Failure f), w) \<Rightarrow> Some (Err f)
           | Some (Err (Interrupted _ _), w) \<Rightarrow> Some Panic
           | Some (Panic, w) \<Rightarrow> Some Panic))"

definition create_request :: "'u http_request \<Rightarrow> 'u \<Rightarrow> 'u http_request" where
  "create_request parts uri = parts\<lparr>rq_uri := uri\<rparr>"

text \<open>The loop over the attempts; the first argument is how many redirects are left.\<close>

fun connect_attempts ::
  "nat \<Rightarrow> features \<Rightarrow> ('t, 'k, 'n, 'g, 'r) tls_lib \<Rightarrow> ('c, 'd) flate \<Rightarrow> 'u http_lib \<Rightarrow> nat \<Rightarrow> 'a network
     \<Rightarrow> 'u http_request \<Rightarrow> config option \<Rightarrow> 'u
     \<Rightarrow> (('c, 'd) ws \<times> bytes option http_reply) result option"
where
  "connect_attempts 0 F L fl H cap net parts conf uri =
     try_client_handshake F L fl H cap net 0 (create_request parts uri) conf"
| "connect_attempts (Suc left) F L fl H cap net parts conf uri =
     (case try_client_handshake F L fl H cap net (Suc left) (create_request parts uri) conf of
        Some (Err (Http res)) \<Rightarrow>
          (if status_is_redirection H (resp_status res) then
             (case hm_get H (ascii ''Location'') (resp_headers res) of
                None \<Rightarrow> Some (Err (Http res))
              | Some location \<Rightarrow>
                  (case to_str H location of
                     None \<Rightarrow> Some (Err error_from_to_str)
                   | Some s \<Rightarrow>
                       (case uri_parse H s of
                          None \<Rightarrow> Some (Err error_from_invalid_uri)
                        | Some uri1 \<Rightarrow> connect_attempts left F L fl H cap net parts conf uri1)))
           else Some (Err (Http res)))
      | other \<Rightarrow> other)"

definition connect_with_config ::
  "features \<Rightarrow> ('t, 'k, 'n, 'g, 'r) tls_lib \<Rightarrow> ('c, 'd) flate \<Rightarrow> 'u http_lib \<Rightarrow> nat \<Rightarrow> 'a network
     \<Rightarrow> 'u http_request result \<Rightarrow> config option \<Rightarrow> nat
     \<Rightarrow> (('c, 'd) ws \<times> bytes option http_reply) result option" where
  "connect_with_config F L fl H cap net into conf max_redirects =
     (case into of
        Err e \<Rightarrow> Some (Err e)
      | Panic \<Rightarrow> Some Panic
      | Ok parts \<Rightarrow> connect_attempts max_redirects F L fl H cap net parts conf (rq_uri parts))"

definition connect ::
  "features \<Rightarrow> ('t, 'k, 'n, 'g, 'r) tls_lib \<Rightarrow> ('c, 'd) flate \<Rightarrow> 'u http_lib \<Rightarrow> nat \<Rightarrow> 'a network
     \<Rightarrow> 'u http_request result
     \<Rightarrow> (('c, 'd) ws \<times> bytes option http_reply) result option" where
  "connect F L fl H cap net into = connect_with_config F L fl H cap net into None 3"

end
