(* ===== verification/Server_Handshake.thy ===== *)
theory Server_Handshake
  imports Http Handshake_Machine WebSocket
begin

text \<open>
  The server side of the opening handshake, \<open>src/src/handshake/server.rs\<close>, and the functions
  \<open>accept\<close> of \<open>src/src/server.rs\<close>.

  The callback is a function on the request and the prepared response, \<open>Inl\<close> rejects the
  request with a response of its own.
\<close>

section \<open>The response to a request\<close>

definition is_valid_sec_websocket_key :: "'u http_lib \<Rightarrow> bytes \<Rightarrow> bool" where
  "is_valid_sec_websocket_key H key \<longleftrightarrow>
     (if length key \<noteq> 24 then False
      else case base64_decode H key of None \<Rightarrow> False | Some decoded \<Rightarrow> length decoded = 16)"

definition is_upgrade_token :: "bytes \<Rightarrow> bool" where
  "is_upgrade_token s \<longleftrightarrow>
     list_ex (\<lambda>p. eq_ignore_ascii_case p (ascii ''Upgrade'')) (split_on {32, 44} s)"

definition create_parts :: "'u http_lib \<Rightarrow> 'u http_request \<Rightarrow> unit http_reply result" where
  "create_parts H request =
     (if rq_method request \<noteq> ascii ''GET'' then Err (Protocol WrongHttpMethod)
      else if rq_version request < Http11 then Err (Protocol WrongHttpVersion)
      else if \<not> header_text_is H (ascii ''Connection'') is_upgrade_token (rq_headers request)
      then Err (Protocol MissingConnectionUpgradeHeader)
      else if \<not> header_text_is H (ascii ''Upgrade'')
          (\<lambda>h. eq_ignore_ascii_case h (ascii ''websocket'')) (rq_headers request)
      then Err (Protocol MissingUpgradeWebSocketHeader)
      else if hm_get H (ascii ''Sec-WebSocket-Version'') (rq_headers request) \<noteq> Some (ascii ''13'')
      then Err (Protocol MissingSecWebSocketVersionHeader)
      else
        bind_out (ok_or (Protocol MissingSecWebSocketKey)
          (hm_get H (ascii ''Sec-WebSocket-Key'') (rq_headers request))) (\<lambda>key.
          if \<not> is_valid_sec_websocket_key H key then Err (Protocol InvalidSecWebSocketKey)
          else
            bind_out
              (builder_header H (ascii ''Sec-WebSocket-Accept'') (derive_accept_key H key)
              (builder_header H (ascii ''Upgrade'') (ascii ''websocket'')
              (builder_header H (ascii ''Connection'') (ascii ''Upgrade'') (Ok []))))
              (\<lambda>headers. Ok \<lparr>rp_status = 101, rp_version = rq_version request,
                 rp_headers = headers, rp_body = ()\<rparr>)))"

definition create_response :: "'u http_lib \<Rightarrow> 'u http_request \<Rightarrow> unit http_reply result" where
  "create_response H request = create_parts H request"

definition create_response_with_body ::
  "'u http_lib \<Rightarrow> 'u http_request \<Rightarrow> (unit \<Rightarrow> 'b) \<Rightarrow> 'b http_reply result" where
  "create_response_with_body H request generate_body =
     bind_out (create_parts H request) (\<lambda>r.
       Ok \<lparr>rp_status = rp_status r, rp_version = rp_version r, rp_headers = rp_headers r,
           rp_body = generate_body ()\<rparr>)"

fun write_header_lines :: "'u http_lib \<Rightarrow> header_map \<Rightarrow> bytes result" where
  "write_header_lines H [] = Ok []"
| "write_header_lines H ((k, v) # hs) =
     bind_out (ok_or error_from_to_str (to_str H v)) (\<lambda>s.
     bind_out (write_header_lines H hs) (\<lambda>lines.
       Ok (k @ ascii '': '' @ s @ [13, 10] @ lines)))"

definition write_response :: "'u http_lib \<Rightarrow> 'b http_reply \<Rightarrow> bytes result" where
  "write_response H response =
     bind_out (version_as_str (rp_version response)) (\<lambda>version.
     bind_out (write_header_lines H (rp_headers response)) (\<lambda>lines.
       Ok (version @ [32] @ status_display H (rp_status response) @ [13, 10] @ lines @ [13, 10])))"

section \<open>Reading a request\<close>

definition request_from_httparse :: "'u http_lib \<Rightarrow> raw_request \<Rightarrow> 'u http_request result" where
  "request_from_httparse H raw =
     (case raw_method raw of
        None \<Rightarrow> Panic
      | Some m \<Rightarrow>
          (if m \<noteq> ascii ''GET'' then Err (Protocol WrongHttpMethod)
           else case raw_version raw of
               None \<Rightarrow> Panic
             | Some v \<Rightarrow>
                 (if v < 1 then Err (Protocol WrongHttpVersion)
                  else
                    bind_out (headers_from_httparse H [] (raw_headers raw)) (\<lambda>headers.
                      case raw_path raw of
                        None \<Rightarrow> Panic
                      | Some path \<Rightarrow>
                          bind_out (ok_or error_from_invalid_uri (uri_parse H path)) (\<lambda>uri.
                            Ok \<lparr>rq_method = ascii ''GET'', rq_uri = uri, rq_version = Http11,
                              rq_headers = headers\<rparr>)))))"

definition request_try_parse :: "'u http_lib \<Rightarrow> bytes \<Rightarrow> (nat \<times> 'u http_request) option result" where
  "request_try_parse H buf =
     bind_out (lift_httparse (parse_request H MAX_HEADERS buf)) (\<lambda>status.
       case status of
         None \<Rightarrow> Ok None
       | Some (len, raw) \<Rightarrow> bind_out (request_from_httparse H raw) (\<lambda>request. Ok (Some (len, request))))"

section \<open>The role\<close>

type_synonym 'u callback = "'u http_request \<Rightarrow> unit http_reply \<Rightarrow> bytes option http_reply + unit http_reply"

record 'u server_handshake =
  sh_callback :: "'u callback option"
  sh_config :: "config option"
  sh_error_response :: "bytes option http_reply option"

definition no_callback :: "'u callback" where
  "no_callback request response = Inr response"

definition extensions_name :: bytes where
  "extensions_name = ascii ''sec-websocket-extensions''"

text \<open>The extension field of an accepted response.\<close>

definition answer_extensions ::
  "'u http_lib \<Rightarrow> 'u http_request \<Rightarrow> unit http_reply \<Rightarrow> config option
     \<Rightarrow> (unit http_reply \<times> config option) result" where
  "answer_extensions H request response conf =
     (case conf of
        Some c \<Rightarrow>
          (if cfg_deflate c \<noteq> None then
             (if hm_contains H extensions_name (rp_headers response) then Err invalid_header
              else
                bind_out (accept_deflate_offers (header_value_str H)
                    (hm_get_all H extensions_name (rq_headers request)) c) (\<lambda>(c1, agreed).
                  Ok (case agreed of
                        Some v \<Rightarrow> (response\<lparr>rp_headers := hm_append H extensions_name v (rp_headers response)\<rparr>, Some c1)
                      | None \<Rightarrow> (response, Some c1))))
           else
             bind_out (headers_select_deflate (hm_get_all H extensions_name (rp_headers response))) (\<lambda>selects.
               if selects then Err invalid_header else Ok (response, conf)))
      | None \<Rightarrow>
          bind_out (headers_select_deflate (hm_get_all H extensions_name (rp_headers response))) (\<lambda>selects.
            if selects then Err invalid_header else Ok (response, conf)))"

definition server_accepts ::
  "'u http_lib \<Rightarrow> 'u http_request \<Rightarrow> unit http_reply \<Rightarrow> 'u server_handshake
     \<Rightarrow> 'r processing_result result \<times> 'u server_handshake" where
  "server_accepts H request response role =
     (case answer_extensions H request response (sh_config role) of
        Err e \<Rightarrow> (Err e, role)
      | Panic \<Rightarrow> (Panic, role)
      | Ok (response1, conf) \<Rightarrow>
          (bind_out (write_response H response1) (\<lambda>out. Ok (Continue (start_write out))),
           role\<lparr>sh_config := conf\<rparr>))"

definition server_rejects ::
  "'u http_lib \<Rightarrow> bytes option http_reply \<Rightarrow> 'u server_handshake
     \<Rightarrow> 'r processing_result result \<times> 'u server_handshake" where
  "server_rejects H resp role =
     (if status_is_success H (rp_status resp) then (Err (Protocol CustomResponseSuccessful), role)
      else
        (bind_out (write_response H resp) (\<lambda>out.
           Ok (Continue (start_write (out @ (case rp_body resp of Some body \<Rightarrow> body | None \<Rightarrow> []))))),
         role\<lparr>sh_error_response := Some resp\<rparr>))"

definition server_done_reading ::
  "'u http_lib \<Rightarrow> 'u http_request \<Rightarrow> bytes \<Rightarrow> 'u server_handshake
     \<Rightarrow> 'r processing_result result \<times> 'u server_handshake" where
  "server_done_reading H request tail role =
     (if tail \<noteq> [] then (Err (Protocol JunkAfterRequest), role)
      else
        and_then (create_response H request, role) (\<lambda>response role.
          case sh_callback role of
            None \<Rightarrow> server_accepts H request response role
          | Some callback \<Rightarrow>
              (case callback request response of
                 Inr response1 \<Rightarrow> server_accepts H request response1 (role\<lparr>sh_callback := None\<rparr>)
               | Inl resp \<Rightarrow> server_rejects H resp (role\<lparr>sh_callback := None\<rparr>))))"

definition server_done_writing ::
  "('c, 'd) flate \<Rightarrow> 'u server_handshake \<Rightarrow> ('c, 'd) ctx processing_result result \<times> 'u server_handshake" where
  "server_done_writing fl role =
     (case sh_error_response role of
        Some err \<Rightarrow> (Err (http_error err), role\<lparr>sh_error_response := None\<rparr>)
      | None \<Rightarrow> (bind_out (ctx_new fl Server (sh_config role)) (\<lambda>x. Ok (Done x)), role))"

definition server_stage_finished ::
  "('c, 'd) flate \<Rightarrow> 'u http_lib \<Rightarrow> 'u http_request stage_result \<Rightarrow> 'u server_handshake \<Rightarrow> world
     \<Rightarrow> ('c, 'd) ctx processing_result result \<times> 'u server_handshake \<times> world" where
  "server_stage_finished fl H st role w =
     (case (case st of
              DoneReading request tail \<Rightarrow> server_done_reading H request tail role
            | DoneWriting \<Rightarrow> server_done_writing fl role) of (r, role1) \<Rightarrow> (r, role1, w))"

definition server_start :: "'u callback \<Rightarrow> config option \<Rightarrow> 'u server_handshake \<times> handshake_state" where
  "server_start callback conf =
     (\<lparr>sh_callback = Some callback, sh_config = conf, sh_error_response = None\<rparr>, start_read)"

definition accept_hdr_with_config ::
  "('c, 'd) flate \<Rightarrow> 'u http_lib \<Rightarrow> world \<Rightarrow> 'u callback \<Rightarrow> config option
     \<Rightarrow> (('u server_handshake handshake_error, ('c, 'd) ctx) outcome \<times> world) option" where
  "accept_hdr_with_config fl H stream callback conf =
     (case server_start callback conf of (role, m) \<Rightarrow>
        handshake (request_try_parse H) (server_stage_finished fl H) role m stream)"

definition accept_with_config ::
  "('c, 'd) flate \<Rightarrow> 'u http_lib \<Rightarrow> world \<Rightarrow> config option
     \<Rightarrow> (('u server_handshake handshake_error, ('c, 'd) ctx) outcome \<times> world) option" where
  "accept_with_config fl H stream conf = accept_hdr_with_config fl H stream no_callback conf"

definition accept_hdr ::
  "('c, 'd) flate \<Rightarrow> 'u http_lib \<Rightarrow> world \<Rightarrow> 'u callback
     \<Rightarrow> (('u server_handshake handshake_error, ('c, 'd) ctx) outcome \<times> world) option" where
  "accept_hdr fl H stream callback = accept_hdr_with_config fl H stream callback None"

definition accept ::
  "('c, 'd) flate \<Rightarrow> 'u http_lib \<Rightarrow> world
     \<Rightarrow> (('u server_handshake handshake_error, ('c, 'd) ctx) outcome \<times> world) option" where
  "accept fl H stream = accept_with_config fl H stream None"

end
