(* ===== verification/Server_Props.thy ===== *)
theory Server_Props
  imports Server_Handshake
begin

text \<open>
  What an accepted connection rests on: the server is a role of the handshake, so its
  handshake ends, and when it ends with a connection the request was legal, was answered in
  full, and nothing but the request had been consumed.
\<close>

section \<open>The role contract\<close>

text \<open>
  The bytes \<open>data\<close> are a request that the server and its callback accept; \<open>text\<close> is the
  response and \<open>conf1\<close> the configuration that the answer on extensions leaves.
\<close>

definition server_agreed ::
  "'u http_lib \<Rightarrow> 'u callback \<Rightarrow> config option \<Rightarrow> bytes \<Rightarrow> 'u http_request \<Rightarrow> bytes \<Rightarrow> config option \<Rightarrow> bool" where
  "server_agreed H cb conf data request text conf1 \<longleftrightarrow>
     request_try_parse H data = Ok (Some (length data, request)) \<and>
     (\<exists>response response1 response2.
        create_response H request = Ok response \<and> cb request response = Inr response1 \<and>
        answer_extensions H request response1 conf = Ok (response2, conf1) \<and>
        write_response H response2 = Ok text)"

definition server_inv ::
  "'u http_lib \<Rightarrow> 'u callback \<Rightarrow> config option \<Rightarrow> bytes \<Rightarrow> bytes
     \<Rightarrow> 'u server_handshake \<Rightarrow> bool \<Rightarrow> bytes \<Rightarrow> bytes \<Rightarrow> bool" where
  "server_inv H cb conf input out0 role reading inn out \<longleftrightarrow>
     (if reading then role = fst (server_start cb conf) \<and> inn = input \<and> out = out0
      else sh_error_response role = None \<longrightarrow>
        (\<exists>data request text. input = data @ inn \<and> out = out0 @ text \<and>
           server_agreed H cb conf data request text (sh_config role)))"

definition server_post ::
  "('c, 'd) flate \<Rightarrow> 'u http_lib \<Rightarrow> 'u callback \<Rightarrow> config option \<Rightarrow> bytes \<Rightarrow> bytes
     \<Rightarrow> ('c, 'd) ctx \<Rightarrow> world \<Rightarrow> bool" where
  "server_post fl H cb conf input out0 x w \<longleftrightarrow>
     (\<exists>data request text conf1. input = data @ script_bytes (reads w) \<and> sent w = out0 @ text \<and>
        server_agreed H cb conf data request text conf1 \<and> ctx_new fl Server conf1 = Ok x)"

definition server_rank :: "bool \<Rightarrow> nat" where
  "server_rank reading = (if reading then 1 else 0)"

lemma server_accepts_Ok:
  "server_accepts H request response role = (Ok res, role') \<Longrightarrow>
     \<exists>response1 conf text. answer_extensions H request response (sh_config role) = Ok (response1, conf) \<and>
       write_response H response1 = Ok text \<and> res = Continue (start_write text) \<and>
       role' = role\<lparr>sh_config := conf\<rparr>"
  by (auto simp: server_accepts_def bind_out_Ok_iff split: outcome.splits prod.splits)

lemma server_rejects_Ok:
  "server_rejects H resp role = (Ok res, role') \<Longrightarrow>
     \<exists>out. res = Continue (start_write out) \<and> role' = role\<lparr>sh_error_response := Some resp\<rparr>"
  by (auto simp: server_rejects_def bind_out_Ok_iff split: if_splits)

lemma server_done_reading_Ok:
  assumes "server_done_reading H request tail role = (Ok res, role')"
  shows "tail = [] \<and> (\<exists>out. res = Continue (start_write out) \<and>
    (role = fst (server_start cb conf) \<and> sh_error_response role' = None \<longrightarrow>
      (\<exists>response response1 response2. create_response H request = Ok response \<and>
        cb request response = Inr response1 \<and>
        answer_extensions H request response1 conf = Ok (response2, sh_config role') \<and>
        write_response H response2 = Ok out)))"
proof -
  have tail: "tail = []" using assms by (simp add: server_done_reading_def split: if_splits)
  then obtain response where resp: "create_response H request = Ok response"
    using assms by (cases "create_response H request") (simp_all add: server_done_reading_def)
  show ?thesis
  proof (cases "sh_callback role")
    case None
    then have "server_accepts H request response role = (Ok res, role')"
      using assms tail resp by (simp add: server_done_reading_def)
    then show ?thesis
      using server_accepts_Ok tail None by (fastforce simp: server_start_def)
  next
    case (Some callback)
    show ?thesis
    proof (cases "callback request response")
      case (Inl bad)
      then have "server_rejects H bad (role\<lparr>sh_callback := None\<rparr>) = (Ok res, role')"
        using assms tail resp Some by (simp add: server_done_reading_def)
      then show ?thesis using server_rejects_Ok tail by fastforce
    next
      case (Inr response1)
      then have "server_accepts H request response1 (role\<lparr>sh_callback := None\<rparr>) = (Ok res, role')"
        using assms tail resp Some by (simp add: server_done_reading_def)
      from server_accepts_Ok [OF this] show ?thesis
        using tail resp Some Inr by (auto simp: server_start_def)
    qed
  qed
qed

interpretation sv: handshake_role "request_try_parse H" "server_stage_finished fl H" server_rank
    "server_inv H cb conf input out0" "server_post fl H cb conf input out0"
  for fl :: "('c, 'd) flate" and H :: "'u http_lib" and cb conf input out0
proof
  fix st :: "'u http_request stage_result" and role role' :: "'u server_handshake" and w w' :: world and m
  assume a: "server_stage_finished fl H st role w = (Ok (Continue m), role', w')"
  show "machine_ok m \<and>
      server_rank (is_reading m) < server_rank (case st of DoneReading _ _ \<Rightarrow> True | DoneWriting \<Rightarrow> False)"
  proof (cases st)
    case (DoneReading request tail)
    then have "server_done_reading H request tail role =
        (Ok (Continue m :: ('c, 'd) ctx processing_result), role')"
      using a by (auto simp: server_stage_finished_def split: prod.splits)
    then have "\<exists>out. m = start_write out" by (auto dest!: server_done_reading_Ok [where cb = cb and conf = conf])
    then show ?thesis using DoneReading by (auto simp: server_rank_def)
  next
    case DoneWriting
    then show ?thesis
      using a by (auto simp: server_stage_finished_def server_done_writing_def bind_out_Ok_iff split: option.splits prod.splits)
  qed
next
  fix role role' :: "'u server_handshake" and data and w w' :: world and len obj
    and res :: "('c, 'd) ctx processing_result"
  assume inv: "server_inv H cb conf input out0 role True (data @ script_bytes (reads w)) (sent w)"
    and parse: "request_try_parse H data = Ok (Some (len, obj))" and len: "len \<le> length data"
    and sf: "server_stage_finished fl H (DoneReading obj (drop len data)) role w = (Ok res, role', w')"
  have "server_done_reading H obj (drop len data) role = (Ok res, role')" "w' = w"
    using sf by (auto simp: server_stage_finished_def split: prod.splits)
  from server_done_reading_Ok [OF this(1), of cb conf] this(2)
  obtain out where out: "res = Continue (start_write out)" "len = length data" "w' = w"
    "role = fst (server_start cb conf) \<and> sh_error_response role' = None \<longrightarrow>
      (\<exists>response response1 response2. create_response H obj = Ok response \<and>
        cb obj response = Inr response1 \<and>
        answer_extensions H obj response1 conf = Ok (response2, sh_config role') \<and>
        write_response H response2 = Ok out)"
    using len by auto
  then have "server_inv H cb conf input out0 role' False (script_bytes (reads w)) (sent w @ out)"
    using inv parse unfolding server_inv_def server_agreed_def by auto
  then show "case res of
      Continue m \<Rightarrow> server_inv H cb conf input out0 role' (is_reading m) (machine_in m w') (machine_out m w')
    | Done r \<Rightarrow> server_post fl H cb conf input out0 r w'"
    using out by simp
next
  fix role role' :: "'u server_handshake" and w w' :: world and res :: "('c, 'd) ctx processing_result"
  assume inv: "server_inv H cb conf input out0 role False (script_bytes (reads w)) (sent w)"
    and sf: "server_stage_finished fl H DoneWriting role w = (Ok res, role', w')"
  then show "case res of
      Continue m \<Rightarrow> server_inv H cb conf input out0 role' (is_reading m) (machine_in m w') (machine_out m w')
    | Done r \<Rightarrow> server_post fl H cb conf input out0 r w'"
    by (auto simp: server_stage_finished_def server_done_writing_def server_inv_def server_post_def
        bind_out_Ok_iff split: option.splits prod.splits) blast
qed

section \<open>Legal requests\<close>

lemma create_response_legal:
  "create_response H request = Ok response \<Longrightarrow>
     rq_method request = ascii ''GET'' \<and> Http11 \<le> rq_version request \<and>
     header_text_is H (ascii ''Connection'') is_upgrade_token (rq_headers request) \<and>
     header_text_is H (ascii ''Upgrade'') (\<lambda>h. eq_ignore_ascii_case h (ascii ''websocket'')) (rq_headers request) \<and>
     hm_get H (ascii ''Sec-WebSocket-Version'') (rq_headers request) = Some (ascii ''13'') \<and>
     (\<exists>key. hm_get H (ascii ''Sec-WebSocket-Key'') (rq_headers request) = Some key \<and>
        is_valid_sec_websocket_key H key)"
  unfolding create_response_def create_parts_def
  by (auto simp: bind_out_Ok_iff not_less simp del: ascii_simps split: if_splits)

end
