(* ===== verification/Client_Props.thy ===== *)
theory Client_Props
  imports Client Server_Props
begin

text \<open>
  What a client connection rests on: the handshake ends, and when it ends with a connection
  the whole request was sent, the response matched its key, and the bytes behind the response
  are the first input of the WebSocket.
\<close>

section \<open>The role contract\<close>

definition client_inv ::
  "client_handshake \<Rightarrow> bytes \<Rightarrow> bytes \<Rightarrow> client_handshake \<Rightarrow> bool \<Rightarrow> bytes \<Rightarrow> bytes \<Rightarrow> bool" where
  "client_inv role0 input out0 role reading inn out \<longleftrightarrow> role = role0 \<and> inn = input \<and> out = out0"

text \<open>A connection that has just been created: nothing is queued.\<close>

definition ctx_opened :: "('c, 'd) flate \<Rightarrow> role \<Rightarrow> ('c, 'd) ctx \<Rightarrow> bool" where
  "ctx_opened fl r x \<longleftrightarrow> (\<exists>fc. ctx_create fl r fc (cfg x) = Ok x \<and> out_buffer fc = [])"

text \<open>
  The response that \<open>data\<close> begins with is accepted, and the rest of \<open>data\<close> is buffered.
\<close>

definition client_agreed ::
  "('c, 'd) flate \<Rightarrow> 'u http_lib \<Rightarrow> client_handshake \<Rightarrow> bytes \<Rightarrow> ('c, 'd) ctx \<Rightarrow> bytes option http_reply \<Rightarrow> bool" where
  "client_agreed fl H role data x result \<longleftrightarrow>
     (\<exists>len response conf1.
        response_try_parse H data = Ok (Some (len, response)) \<and> len \<le> length data \<and>
        verify_response H (ch_verify_data role) response = Ok result \<and>
        agree_deflate H result (ch_config role) = Ok conf1 \<and>
        in_buffer (frame_codec x) = drop len data \<and>
        ctx_role x = Client \<and> ws_state x = Active \<and> cfg x = config_or_default conf1 \<and>
        ctx_opened fl Client x)"

definition client_post ::
  "('c, 'd) flate \<Rightarrow> 'u http_lib \<Rightarrow> client_handshake \<Rightarrow> bytes \<Rightarrow> bytes \<Rightarrow> ('c, 'd) ctx \<times> bytes option http_reply \<Rightarrow> world \<Rightarrow> bool" where
  "client_post fl H role input out0 r w \<longleftrightarrow>
     sent w = out0 \<and>
     (\<exists>data. input = data @ script_bytes (reads w) \<and> client_agreed fl H role data (fst r) (snd r))"

definition client_rank :: "bool \<Rightarrow> nat" where
  "client_rank reading = (if reading then 0 else 1)"

lemma ctx_create_fields:
  "ctx_create fl r fc c = Ok x \<Longrightarrow>
     ctx_role x = r \<and> ws_state x = Active \<and> cfg x = c \<and> in_buffer (frame_codec x) = in_buffer fc"
  by (auto simp: ctx_create_def bind_out_Ok_iff set_out_buffer_write_len_def set_max_out_buffer_len_def
      split: if_splits)

lemma ctx_from_partially_read_fields:
  assumes "ctx_from_partially_read fl part cap r conf w = (Ok x, w')"
  shows "ctx_role x = r \<and> ws_state x = Active \<and> cfg x = config_or_default conf \<and>
    in_buffer (frame_codec x) = part \<and> reads w' = reads w \<and> sent w' = sent w \<and> ctx_opened fl r x"
proof -
  let ?c = "config_or_default conf"
  obtain q fc w1 where f: "codec_from_partially_read part cap (read_buffer_size ?c) w = (q, fc, w1)"
    by (metis prod.exhaust)
  have keep: "in_buffer fc = part \<and> out_buffer fc = [] \<and> reads w1 = reads w \<and> sent w1 = sent w"
    using f by (auto simp: codec_from_partially_read_def reserve_in_def Let_def dest: next_slack_frame
        split: if_splits prod.splits)
  show ?thesis
    using assms f keep ctx_create_fields [of fl r fc ?c x]
    by (cases q) (auto simp: ctx_from_partially_read_def ctx_opened_def Let_def)
qed

lemma client_done_reading_Ok:
  assumes "client_done_reading fl H cap response tail role w = (Ok res, role', w')"
  shows "\<exists>x result conf1. res = Done (x, result) \<and>
    verify_response H (ch_verify_data role) response = Ok result \<and>
    agree_deflate H result (ch_config role) = Ok conf1 \<and>
    ctx_from_partially_read fl tail cap Client conf1 w = (Ok x, w')"
proof (cases "verify_response H (ch_verify_data role) response")
  case (Ok result)
  show ?thesis
  proof (cases "agree_deflate H result (ch_config role)")
    case conf1: (Ok conf1)
    obtain q w1 where "ctx_from_partially_read fl tail cap Client conf1 w = (q, w1)" by (rule prod.exhaust)
    then show ?thesis using assms Ok conf1 by (auto simp: client_done_reading_def bind_out_Ok_iff)
  qed (use assms Ok in \<open>simp_all add: client_done_reading_def\<close>)
next
  case (Err e)
  then show ?thesis using assms by (cases e) (simp_all add: client_done_reading_def)
next
  case Panic
  then show ?thesis using assms by (simp add: client_done_reading_def)
qed

interpretation cl: handshake_role "response_try_parse H" "client_stage_finished fl H cap" client_rank
    "client_inv role0 input out0" "client_post fl H role0 input out0"
  for fl :: "('c, 'd) flate" and H :: "'u http_lib" and cap role0 input out0
proof
  fix st :: "bytes option http_reply stage_result" and role role' :: client_handshake and w w' :: world and m
  assume a: "client_stage_finished fl H cap st role w = (Ok (Continue m), role', w')"
  show "machine_ok m \<and>
      client_rank (is_reading m) < client_rank (case st of DoneReading _ _ \<Rightarrow> True | DoneWriting \<Rightarrow> False)"
  proof (cases st)
    case (DoneReading response tail)
    then show ?thesis using a client_done_reading_Ok [of fl H cap response tail role w "Continue m" role' w']
      by (simp add: client_stage_finished_def)
  next
    case DoneWriting
    then show ?thesis using a by (auto simp: client_stage_finished_def client_rank_def)
  qed
next
  fix role role' :: client_handshake and data and w w' :: world and len obj
    and res :: "(('c, 'd) ctx \<times> bytes option http_reply) processing_result"
  assume inv: "client_inv role0 input out0 role True (data @ script_bytes (reads w)) (sent w)"
    and parse: "response_try_parse H data = Ok (Some (len, obj))" and len: "len \<le> length data"
    and sf: "client_stage_finished fl H cap (DoneReading obj (drop len data)) role w = (Ok res, role', w')"
  have "client_done_reading fl H cap obj (drop len data) role w = (Ok res, role', w')"
    using sf by (simp add: client_stage_finished_def)
  from client_done_reading_Ok [OF this] obtain x result conf1 where r: "res = Done (x, result)"
    "verify_response H (ch_verify_data role) obj = Ok result"
    "agree_deflate H result (ch_config role) = Ok conf1"
    "ctx_from_partially_read fl (drop len data) cap Client conf1 w = (Ok x, w')" by blast
  from ctx_from_partially_read_fields [OF r(4)] r inv parse len
  show "case res of
      Continue m \<Rightarrow> client_inv role0 input out0 role' (is_reading m) (machine_in m w') (machine_out m w')
    | Done r \<Rightarrow> client_post fl H role0 input out0 r w'"
    by (auto simp: client_inv_def client_post_def client_agreed_def)
next
  fix role role' :: client_handshake and w w' :: world
    and res :: "(('c, 'd) ctx \<times> bytes option http_reply) processing_result"
  assume "client_inv role0 input out0 role False (script_bytes (reads w)) (sent w)"
    and "client_stage_finished fl H cap DoneWriting role w = (Ok res, role', w')"
  then show "case res of
      Continue m \<Rightarrow> client_inv role0 input out0 role' (is_reading m) (machine_in m w') (machine_out m w')
    | Done r \<Rightarrow> client_post fl H role0 input out0 r w'"
    by (auto simp: client_stage_finished_def client_inv_def)
qed

end
