(* ===== verification/Handshake_Sample.thy ===== *)
theory Handshake_Sample
  imports Client_Props WebSocket_Sending
begin

text \<open>
  A concrete instance of the libraries that the handshake is a client of, and one handshake of
  either role on it. The witnesses of the handshake properties run here.
\<close>

section \<open>A concrete library\<close>

definition sample_request :: raw_request where
  "sample_request = \<lparr>raw_method = Some (ascii ''GET''), raw_path = Some (ascii ''/''), raw_version = Some 1,
     raw_headers =
       [(ascii ''Connection'', ascii ''keep-alive, upgrade''), (ascii ''Upgrade'', ascii ''websocket''),
        (ascii ''Sec-WebSocket-Version'', ascii ''13''), (ascii ''Sec-WebSocket-Key'', replicate 24 65)]\<rparr>"

definition sample_response :: raw_response where
  "sample_response = \<lparr>raw_response_version = Some 1, raw_code = Some 101,
     raw_response_headers =
       [(ascii ''connection'', ascii ''Upgrade''), (ascii ''upgrade'', ascii ''websocket''),
        (ascii ''sec-websocket-accept'', replicate 60 65)]\<rparr>"

text \<open>
  \<open>httparse\<close> takes the byte \<open>R\<close> for a whole request or response here and the byte \<open>G\<close> for the
  beginning of one, and a header map is an association list.
\<close>

definition sample_library :: "stream_mode \<Rightarrow> bytes http_lib" where
  "sample_library scheme = \<lparr>
     header_name = (\<lambda>n. Some (map ascii_lower n)), header_value = Some, header_value_str = Some,
     to_str = (\<lambda>v. if ascii_text v then Some v else None),
     hm_get = (\<lambda>n h. case values_of n h of [] \<Rightarrow> None | v # _ \<Rightarrow> Some v), hm_get_all = values_of,
     hm_contains = (\<lambda>n h. values_of n h \<noteq> []),
     hm_append = (\<lambda>n v h. h @ [(n, v)]),
     hm_remove = (\<lambda>n h. (case values_of n h of [] \<Rightarrow> None | v # _ \<Rightarrow> Some v, filter (\<lambda>(k, v). \<not> same_name n k) h)),
     status_from_u16 = Some, status_display = decimal, status_is_success = (\<lambda>n. 200 \<le> n \<and> n < 300),
     status_is_redirection = (\<lambda>n. 300 \<le> n \<and> n < 400),
     uri_parse = Some, uri_scheme = (\<lambda>u. Some (case scheme of PlainMode \<Rightarrow> ascii ''ws'' | TlsMode \<Rightarrow> ascii ''wss'')), uri_authority = Some,
     uri_path_and_query = (\<lambda>u. Some (ascii ''/'')), uri_host = Some, uri_port = (\<lambda>u. None), uri_display = id,
     parse_request = (\<lambda>n buf. case buf of [] \<Rightarrow> Ok None | b # bs \<Rightarrow>
       if b = 82 then Ok (Some (1, sample_request)) else if b = 71 then Ok None else Err (HpOther 0)),
     parse_response = (\<lambda>n buf. case buf of [] \<Rightarrow> Ok None | b # bs \<Rightarrow>
       if b = 82 then Ok (Some (1, sample_response)) else if b = 71 then Ok None else Err (HpOther 0)),
     parse_headers = (\<lambda>n buf. Ok None),
     sha1 = id,
     base64_encode = (\<lambda>d. replicate (if length d = 16 then 24 else length d) 65),
     base64_decode = (\<lambda>s. if length s = 24 then Some (replicate 16 0) else None)\<rparr>"

abbreviation sample_http :: "bytes http_lib" where
  "sample_http \<equiv> sample_library PlainMode"

lemma sample_header_map: "header_map_laws sample_http"
proof -
  have "filter (\<lambda>(k, v). same_name k m) (filter (\<lambda>(k, v). \<not> same_name n k) h) =
      (if same_name n m then [] else filter (\<lambda>(k, v). same_name k m) h)" for n m and h :: header_map
  proof (induction h)
    case (Cons kv h)
    obtain k v where kv: "kv = (k, v)" by (cases kv)
    have "same_name k m \<Longrightarrow> same_name n k = same_name n m"
      by (simp only: same_name_def eq_ignore_ascii_case_def)
    then show ?case using Cons kv by (cases "same_name k m"; cases "same_name n k") simp_all
  qed simp
  then show ?thesis
    unfolding header_map_laws_def by (simp add: sample_library_def values_of_def)
qed

lemma sample_header_text: "header_text_laws sample_http"
  by (simp add: header_text_laws_def sample_library_def)

section \<open>A server handshake\<close>

definition sample_rq :: "bytes http_request" where
  "sample_rq = \<lparr>rq_method = ascii ''GET'', rq_uri = ascii ''/'', rq_version = Http11,
     rq_headers =
       [(ascii ''connection'', ascii ''keep-alive, upgrade''), (ascii ''upgrade'', ascii ''websocket''),
        (ascii ''sec-websocket-version'', ascii ''13''), (ascii ''sec-websocket-key'', replicate 24 65)]\<rparr>"

lemma sample_parse: "request_try_parse sample_http [82] = Ok (Some (1, sample_rq))"
  by code_simp

definition sample_reply :: "unit http_reply" where
  "sample_reply = \<lparr>rp_status = 101, rp_version = Http11, rp_headers =
     [(ascii ''connection'', ascii ''Upgrade''), (ascii ''upgrade'', ascii ''websocket''),
      (ascii ''sec-websocket-accept'', replicate 60 65)], rp_body = ()\<rparr>"

lemma sample_create: "create_response sample_http sample_rq = Ok sample_reply"
  by code_simp
lemma sample_extensions: "answer_extensions sample_http sample_rq sample_reply None = Ok (sample_reply, None)"
  by code_simp
definition sample_reply_text :: bytes where
  "sample_reply_text = ascii ''HTTP/1.1 101'' @ [13, 10] @ ascii ''connection: Upgrade'' @ [13, 10] @
     ascii ''upgrade: websocket'' @ [13, 10] @ ascii ''sec-websocket-accept: '' @ replicate 60 65 @ [13, 10, 13, 10]"
lemma sample_written: "write_response sample_http sample_reply = Ok sample_reply_text"
  by code_simp

lemma sample_done_reading:
  "server_done_reading sample_http sample_rq [] \<lparr>sh_callback = Some no_callback, sh_config = None, sh_error_response = None\<rparr> =
     (Ok (Continue (start_write sample_reply_text)), \<lparr>sh_callback = None, sh_config = None, sh_error_response = None\<rparr>)"
  by (simp add: server_done_reading_def sample_create no_callback_def server_accepts_def sample_extensions sample_written)

definition handshake_world :: "read_event list \<Rightarrow> world" where
  "handshake_world rs = idle_world\<lparr>reads := rs\<rparr>"

lemma sample_text_length: "0 < length sample_reply_text"
  by code_simp

lemma sample_reads:
  "single_round (request_try_parse sample_http) start_read (handshake_world [RdBytes [82]]) =
    (Ok (StageFinished (DoneReading sample_rq [])), handshake_world [])"
  by (simp add: handshake_world_def single_round_def start_read_def read_round_def read_from_def clean_up_def
    read_buffer_new_def read_buffer_from_partially_read_def cursor_new_def stream_read_def CHUNK_SIZE_def
    no_block_io_def check_incoming_packet_size_def attack_check_new_def MAX_BYTES_def MAX_PACKETS_def
    MIN_PACKET_CHECK_THRESHOLD_def finish_reading_def buffer_chunk_def cursor_chunk_def sample_parse
    buffer_advance_def cursor_advance_def cursor_remaining_def into_vec_def Let_def)

lemma sample_ctx_new: "\<exists>x. ctx_new copying Server None = Ok x"
  by (simp add: ctx_new_def codec_with_capacity_def isize_max_def usize_bits_def ctx_create_def config_or_default_def
      default_config_def config_valid_def usize_max_eq Let_def)

lemma sample_writes:
  "single_round tp (start_write sample_reply_text) (handshake_world []) =
    (Ok (Incomplete Flushing), (handshake_world [])\<lparr>sent := sample_reply_text\<rparr>)"
  using sample_text_length
  by (simp add: single_round_def start_write_def write_round_def handshake_world_def idle_world_def stream_write_def
    no_block_io_def cursor_new_def cursor_chunk_def cursor_remaining_def cursor_advance_def)

lemma sample_flushes:
  "single_round tp Flushing ((handshake_world [])\<lparr>sent := d\<rparr>) =
    (Ok (StageFinished DoneWriting), (handshake_world [])\<lparr>sent := d\<rparr>)"
  by (simp add: single_round_def flush_round_def handshake_world_def idle_world_def stream_flush_def no_block_io_def)

lemma sample_accept:
  assumes "ctx_new copying Server None = Ok x"
  shows "accept_hdr_with_config copying sample_http (handshake_world [RdBytes [82]]) no_callback None =
    Some (Ok x, (handshake_world [])\<lparr>sent := sample_reply_text\<rparr>)"
proof -
  have "accept_hdr_with_config copying sample_http (handshake_world [RdBytes [82]]) no_callback None =
    handshake (request_try_parse sample_http) (server_stage_finished copying sample_http)
      \<lparr>sh_callback = None, sh_config = None, sh_error_response = None\<rparr> (start_write sample_reply_text) (handshake_world [])"
    by (simp add: accept_hdr_with_config_def server_start_def, subst handshake.simps)
      (simp add: sample_reads server_stage_finished_def sample_done_reading)
  also have "\<dots> = handshake (request_try_parse sample_http) (server_stage_finished copying sample_http)
      \<lparr>sh_callback = None, sh_config = None, sh_error_response = None\<rparr> Flushing ((handshake_world [])\<lparr>sent := sample_reply_text\<rparr>)"
    by (subst handshake.simps) (simp add: sample_writes)
  also have "\<dots> = Some (Ok x, (handshake_world [])\<lparr>sent := sample_reply_text\<rparr>)"
    by (subst handshake.simps) (simp add: sample_flushes server_stage_finished_def server_done_writing_def assms)
  finally show ?thesis .
qed

section \<open>A client handshake\<close>

definition sample_client_request :: "bytes http_request" where
  "sample_client_request = \<lparr>rq_method = ascii ''GET'', rq_uri = ascii ''example.com'', rq_version = Http11,
     rq_headers =
       [(ascii ''host'', ascii ''example.com''), (ascii ''connection'', ascii ''Upgrade''),
        (ascii ''upgrade'', ascii ''websocket''), (ascii ''sec-websocket-version'', ascii ''13''),
        (ascii ''sec-websocket-key'', replicate 24 65)]\<rparr>"

lemma sample_into_request:
  "uri_into_client_request (sample_library scheme) (replicate 16 0) (ascii ''example.com'') = Ok sample_client_request"
  by code_simp

definition sample_client_text :: bytes where
  "sample_client_text = ascii ''GET / HTTP/1.1'' @ [13, 10] @ ascii ''Host: example.com'' @ [13, 10] @
     ascii ''Connection: Upgrade'' @ [13, 10] @ ascii ''Upgrade: websocket'' @ [13, 10] @
     ascii ''Sec-WebSocket-Version: 13'' @ [13, 10] @ ascii ''Sec-WebSocket-Key: '' @ replicate 24 65 @ [13, 10, 13, 10]"

definition sample_client_role :: client_handshake where
  "sample_client_role = \<lparr>ch_verify_data = \<lparr>accept_key = replicate 60 65, subprotocols = None\<rparr>, ch_config = None\<rparr>"

lemma sample_client_start:
  "client_start (sample_library scheme) sample_client_request None = Ok (sample_client_role, start_write sample_client_text)"
  by (cases scheme; simp only:; code_simp)

definition sample_client_reply :: "bytes option http_reply" where
  "sample_client_reply = \<lparr>rp_status = 101, rp_version = Http11, rp_headers =
     [(ascii ''connection'', ascii ''Upgrade''), (ascii ''upgrade'', ascii ''websocket''),
      (ascii ''sec-websocket-accept'', replicate 60 65)], rp_body = None\<rparr>"

lemma sample_client_parse: "response_try_parse (sample_library scheme) [82, 129, 0] = Ok (Some (1, sample_client_reply))"
  by code_simp

lemma sample_verified: "verify_response (sample_library scheme) (ch_verify_data sample_client_role) sample_client_reply = Ok sample_client_reply"
  by code_simp

lemma sample_agreed: "agree_deflate (sample_library scheme) sample_client_reply None = Ok None"
  by code_simp

text \<open>The response comes together with an empty text frame.\<close>

lemma sample_client_reads:
  "single_round (response_try_parse (sample_library scheme)) start_read ((handshake_world [RdBytes [82, 129, 0]])\<lparr>sent := d\<rparr>) =
    (Ok (StageFinished (DoneReading sample_client_reply [129, 0])), (handshake_world [])\<lparr>sent := d\<rparr>)"
  by (simp add: handshake_world_def single_round_def start_read_def read_round_def read_from_def clean_up_def
    read_buffer_new_def read_buffer_from_partially_read_def cursor_new_def stream_read_def CHUNK_SIZE_def
    no_block_io_def check_incoming_packet_size_def attack_check_new_def MAX_BYTES_def MAX_PACKETS_def
    MIN_PACKET_CHECK_THRESHOLD_def finish_reading_def buffer_chunk_def cursor_chunk_def sample_client_parse
    buffer_advance_def cursor_advance_def cursor_remaining_def into_vec_def Let_def)

lemma sample_client_text_length: "0 < length sample_client_text"
  by code_simp

lemma sample_client_writes:
  "single_round tp (start_write sample_client_text) (handshake_world rs) =
    (Ok (Incomplete Flushing), (handshake_world rs)\<lparr>sent := sample_client_text\<rparr>)"
  using sample_client_text_length
  by (simp add: single_round_def start_write_def write_round_def handshake_world_def idle_world_def stream_write_def
    no_block_io_def cursor_new_def cursor_chunk_def cursor_remaining_def cursor_advance_def)

lemma sample_client_flushes:
  "single_round tp Flushing ((handshake_world rs)\<lparr>sent := d\<rparr>) =
    (Ok (StageFinished DoneWriting), (handshake_world rs)\<lparr>sent := d\<rparr>)"
  by (simp add: single_round_def flush_round_def handshake_world_def idle_world_def stream_flush_def no_block_io_def)

lemma sample_client_context:
  "\<exists>x. ctx_from_partially_read copying [129, 0] 2 Client None ((handshake_world [])\<lparr>sent := d\<rparr>) =
     (Ok x, (handshake_world [])\<lparr>sent := d\<rparr>)"
  by (simp add: ctx_from_partially_read_def codec_from_partially_read_def reserve_in_def next_slack_def
    handshake_world_def idle_world_def ctx_create_def config_or_default_def default_config_def config_valid_def
    usize_max_eq isize_max_def usize_bits_def Let_def)

lemma sample_client:
  "\<exists>x. client_with_config copying (sample_library scheme) 2 (Ok sample_client_request)
      (handshake_world [RdBytes [82, 129, 0]]) None =
    Some (Ok (x, sample_client_reply), (handshake_world [])\<lparr>sent := sample_client_text\<rparr>)"
proof -
  let ?h = "handshake (response_try_parse (sample_library scheme)) (client_stage_finished copying (sample_library scheme) 2) sample_client_role"
  obtain x where x: "ctx_from_partially_read copying [129, 0] 2 Client None ((handshake_world [])\<lparr>sent := sample_client_text\<rparr>) =
     (Ok x, (handshake_world [])\<lparr>sent := sample_client_text\<rparr>)"
    using sample_client_context by blast
  have "client_with_config copying (sample_library scheme) 2 (Ok sample_client_request) (handshake_world [RdBytes [82, 129, 0]]) None =
    ?h (start_write sample_client_text) (handshake_world [RdBytes [82, 129, 0]])"
    by (simp add: client_with_config_def sample_client_start)
  also have "\<dots> = ?h Flushing ((handshake_world [RdBytes [82, 129, 0]])\<lparr>sent := sample_client_text\<rparr>)"
    by (subst handshake.simps) (simp add: sample_client_writes)
  also have "\<dots> = ?h start_read ((handshake_world [RdBytes [82, 129, 0]])\<lparr>sent := sample_client_text\<rparr>)"
    by (subst handshake.simps) (simp add: sample_client_flushes client_stage_finished_def)
  also have "\<dots> = Some (Ok (x, sample_client_reply), (handshake_world [])\<lparr>sent := sample_client_text\<rparr>)"
    using sample_agreed
    by (subst handshake.simps) (simp add: sample_client_reads client_stage_finished_def client_done_reading_def
        sample_verified x, simp add: sample_client_role_def x)
  finally show ?thesis by blast
qed
end
