(* ===== verification/Handshake_Props.thy ===== *)
theory Handshake_Props
  imports Handshake_Sample
begin

text \<open>
  The properties of the opening handshake: it returns on either side, it bounds what it buffers,
  it survives interruptions, and either side ends with a connection only as RFC 6455 has it.
\<close>

section \<open>The handshake returns\<close>

lemma client_start_Ok:
  assumes "client_start H request conf = Ok (role, m)"
  shows "\<exists>request1 req key protocols.
    rq_method request = ascii ''GET'' \<and> Http11 \<le> rq_version request \<and> (\<exists>mode. uri_mode H (rq_uri request) = Ok mode) \<and>
    add_offer H conf request = Ok request1 \<and> generate_request H request1 = Ok (req, key) \<and>
    extract_subprotocols_from_request H request = Ok protocols \<and>
    role = \<lparr>ch_verify_data = \<lparr>accept_key = derive_accept_key H key, subprotocols = protocols\<rparr>, ch_config = conf\<rparr> \<and>
    m = start_write req"
  using assms unfolding client_start_def
  by (auto simp: bind_out_Ok_iff not_less simp del: ascii_simps split: if_splits)

lemma client_with_config_returns: "\<exists>r. client_with_config fl H cap into stream conf = Some r"
proof (cases "bind_out into (\<lambda>request. client_start H request conf)")
  case (Ok rm)
  obtain role m where rm: "rm = (role, m)" by (cases rm)
  then have "machine_ok m" using Ok client_start_Ok by (fastforce simp: bind_out_Ok_iff)
  then show ?thesis
    using Ok rm cl.handshake_returns [of m H fl cap role stream] by (simp add: client_with_config_def)
qed (simp_all add: client_with_config_def)

lemma accept_returns: "\<exists>r. accept_hdr_with_config fl H stream cb conf = Some r"
  using sv.handshake_returns [of start_read H fl "fst (server_start cb conf)" stream]
  by (auto simp: accept_hdr_with_config_def server_start_def)

section \<open>The server side\<close>

lemma accept_started:
  "accept_hdr_with_config fl H stream cb conf =
     handshake (request_try_parse H) (server_stage_finished fl H) (fst (server_start cb conf)) start_read stream \<and>
   sv.inv_at H cb conf (script_bytes (reads stream)) (sent stream) (fst (server_start cb conf)) start_read stream"
  by (simp add: accept_hdr_with_config_def server_start_def sv.inv_at_def server_inv_def)

lemma accept_done:
  "accept_hdr_with_config fl H stream cb conf = Some (Ok x, stream') \<Longrightarrow>
     server_post fl H cb conf (script_bytes (reads stream)) (sent stream) x stream'"
  using sv.handshake_done [of start_read H cb conf "script_bytes (reads stream)" "sent stream"
      "fst (server_start cb conf)" stream fl x stream'] accept_started [of fl H stream cb conf]
  by simp

text \<open>
  Claim C10. A server turns a stream into a WebSocket only after a legal opening handshake: it
  has consumed exactly one request, a \<open>GET\<close> of HTTP/1.1 that asks for an upgrade to
  \<open>websocket\<close> version 13 with a key of 16 bytes, has sent the complete response that its
  callback accepted and nothing else, and every byte behind the request is still unread.
\<close>

theorem server_accepts_legal:
  assumes "accept_hdr_with_config fl H stream cb conf = Some (Ok x, stream')"
  shows "\<exists>data request text conf1 key.
    script_bytes (reads stream) = data @ script_bytes (reads stream') \<and>
    sent stream' = sent stream @ text \<and>
    server_agreed H cb conf data request text conf1 \<and> ctx_new fl Server conf1 = Ok x \<and>
    rq_method request = ascii ''GET'' \<and> Http11 \<le> rq_version request \<and>
    header_text_is H (ascii ''Connection'') is_upgrade_token (rq_headers request) \<and>
    header_text_is H (ascii ''Upgrade'') (\<lambda>h. eq_ignore_ascii_case h (ascii ''websocket'')) (rq_headers request) \<and>
    hm_get H (ascii ''Sec-WebSocket-Version'') (rq_headers request) = Some (ascii ''13'') \<and>
    hm_get H (ascii ''Sec-WebSocket-Key'') (rq_headers request) = Some key \<and> is_valid_sec_websocket_key H key"
proof -
  obtain data request reply conf1 where d: "script_bytes (reads stream) = data @ script_bytes (reads stream')"
    "sent stream' = sent stream @ reply" "server_agreed H cb conf data request reply conf1"
    "ctx_new fl Server conf1 = Ok x"
    using accept_done [OF assms] by (auto simp: server_post_def)
  then obtain response where "create_response H request = Ok response" by (auto simp: server_agreed_def)
  from create_response_legal [OF this] d show ?thesis by blast
qed

theorem server_accepts_legal_witness:
  "\<exists>x data key. accept_hdr_with_config copying sample_http (handshake_world [RdBytes [82]]) no_callback None =
      Some (Ok x, (handshake_world [])\<lparr>sent := sample_reply_text\<rparr>) \<and>
    data = [82] \<and> is_valid_sec_websocket_key sample_http key"
proof -
  obtain x where x: "ctx_new copying Server None = Ok x" using sample_ctx_new by blast
  have "script_bytes (reads (handshake_world [RdBytes [82]])) = [82]"
    "script_bytes (reads ((handshake_world [])\<lparr>sent := sample_reply_text\<rparr>)) = []"
    by (simp_all add: handshake_world_def)
  with server_accepts_legal [OF sample_accept [OF x]] sample_accept [OF x] show ?thesis
    by (metis append_Nil2)
qed

text \<open>
  An interruption loses nothing: when \<open>accept\<close> is interrupted because the stream would block,
  and the handshake goes on after more input has arrived, it ends as if all the input had been
  there at once. Resumption has the general case, with any number of interruptions.
\<close>

theorem interrupted_accept_resumes:
  assumes "accept_hdr_with_config fl H stream cb conf = Some (Err (Interrupted role m), stream1)"
    and "script_bytes (reads stream2) = script_bytes (reads stream1) @ extra" "sent stream2 = sent stream1"
    and "handshake (request_try_parse H) (server_stage_finished fl H) role m stream2 = Some (Ok x, stream')"
  shows "server_post fl H cb conf (script_bytes (reads stream) @ extra) (sent stream) x stream'"
proof -
  have ok: "machine_ok m" and inv: "sv.inv_at H cb conf (script_bytes (reads stream)) (sent stream) role m stream1"
    using sv.handshake_interrupted [of start_read H cb conf "script_bytes (reads stream)" "sent stream"
        "fst (server_start cb conf)" stream fl role m stream1] accept_started [of fl H stream cb conf] assms(1)
    by simp_all
  have "machine_in m stream2 = machine_in m stream1 @ extra" "machine_out m stream2 = machine_out m stream1"
    using assms(2,3) by (cases m; simp)+
  then have "sv.inv_at H cb conf (script_bytes (reads stream) @ extra) (sent stream) role m stream2"
    using inv by (auto simp: sv.inv_at_def server_inv_def)
  from sv.handshake_done [OF ok this assms(4)] show ?thesis .
qed

lemma sample_interrupted:
  "accept_hdr_with_config copying sample_http (handshake_world [RdErr WouldBlock]) no_callback None =
     Some (Err (Interrupted (fst (server_start no_callback None)) start_read), handshake_world [])"
  by (simp add: accept_hdr_with_config_def server_start_def, subst handshake.simps)
    (simp add: handshake_world_def single_round_def start_read_def read_round_def read_from_def clean_up_def
      read_buffer_new_def read_buffer_from_partially_read_def cursor_new_def stream_read_def CHUNK_SIZE_def
      no_block_io_def)

theorem interrupted_accept_resumes_witness:
  "\<exists>x. server_post copying sample_http no_callback None [82] [] x
     ((handshake_world [])\<lparr>sent := sample_reply_text\<rparr>)"
proof -
  obtain x where x: "ctx_new copying Server None = Ok x" using sample_ctx_new by blast
  have "handshake (request_try_parse sample_http) (server_stage_finished copying sample_http)
      (fst (server_start no_callback None)) start_read (handshake_world [RdBytes [82]]) =
    Some (Ok x, (handshake_world [])\<lparr>sent := sample_reply_text\<rparr>)"
    using sample_accept [OF x] accept_started by metis
  then have "server_post copying sample_http no_callback None
      (script_bytes (reads (handshake_world [RdErr WouldBlock])) @ [82]) (sent (handshake_world [RdErr WouldBlock])) x
      ((handshake_world [])\<lparr>sent := sample_reply_text\<rparr>)"
    by (intro interrupted_accept_resumes [OF sample_interrupted]) (simp_all add: handshake_world_def)
  then show ?thesis by (auto simp: handshake_world_def idle_world_def)
qed

section \<open>The client side\<close>

lemma client_done:
  assumes "client_with_config fl H cap (Ok request) stream conf = Some (Ok (x, result), stream')"
  shows "\<exists>role req. client_start H request conf = Ok (role, start_write req) \<and>
    client_post fl H role (script_bytes (reads stream)) (sent stream @ req) (x, result) stream'"
proof -
  obtain role m where s: "client_start H request conf = Ok (role, m)"
    using assms by (auto simp: client_with_config_def split: outcome.splits)
  obtain req where m: "m = start_write req" using client_start_Ok [OF s] by blast
  have "handshake (response_try_parse H) (client_stage_finished fl H cap) role m stream = Some (Ok (x, result), stream')"
    using assms s by (simp add: client_with_config_def)
  then have "client_post fl H role (script_bytes (reads stream)) (sent stream @ req) (x, result) stream'"
    using cl.handshake_done [of m role "script_bytes (reads stream)" "sent stream @ req" role stream H fl cap "(x, result)" stream'] m
    by (simp add: cl.inv_at_def client_inv_def)
  then show ?thesis using s m by blast
qed

lemma verify_response_Ok:
  "verify_response H vd response = Ok result \<Longrightarrow>
     result = response \<and> rp_status response = 101 \<and>
     header_text_is H (ascii ''Upgrade'') (\<lambda>h. eq_ignore_ascii_case h (ascii ''websocket'')) (rp_headers response) \<and>
     header_text_is H (ascii ''Connection'') (\<lambda>h. eq_ignore_ascii_case h (ascii ''Upgrade'')) (rp_headers response) \<and>
     hm_get H (ascii ''Sec-WebSocket-Accept'') (rp_headers response) = Some (accept_key vd) \<and>
     verify_subprotocol H vd (rp_headers response) = Ok ()"
  unfolding verify_response_def
  by (auto simp: bind_out_Ok_iff simp del: ascii_simps split: if_splits)

lemma verify_subprotocol_Ok:
  "verify_subprotocol H vd headers = Ok () \<Longrightarrow>
     case hm_get H (ascii ''Sec-WebSocket-Protocol'') headers of
       None \<Rightarrow> subprotocols vd = None
     | Some v \<Rightarrow> (\<exists>s accepted. to_str H v = Some s \<and> subprotocols vd = Some accepted \<and> s \<in> set accepted)"
  by (auto simp: verify_subprotocol_def bind_out_Ok_iff simp del: ascii_simps split: option.splits if_splits)

text \<open>
  Claim C12. A client gets a WebSocket only from a server that answered its own request: the
  whole request was sent, the response has status 101, upgrades to \<open>websocket\<close>, carries the
  accept key derived from the key of the request and a subprotocol the request asked for (or
  none if it asked for none), and the bytes behind the response, which the handshake has read
  already, are the first input of the WebSocket.
\<close>

theorem client_accepts_matching:
  assumes "client_with_config fl H cap (Ok request) stream conf = Some (Ok (x, result), stream')"
  shows "\<exists>request1 req key protocols data len.
    add_offer H conf request = Ok request1 \<and> generate_request H request1 = Ok (req, key) \<and>
    extract_subprotocols_from_request H request = Ok protocols \<and>
    sent stream' = sent stream @ req \<and>
    script_bytes (reads stream) = data @ script_bytes (reads stream') \<and>
    response_try_parse H data = Ok (Some (len, result)) \<and>
    ctx_role x = Client \<and> ws_state x = Active \<and> in_buffer (frame_codec x) = drop len data \<and>
    rp_status result = 101 \<and>
    header_text_is H (ascii ''Upgrade'') (\<lambda>h. eq_ignore_ascii_case h (ascii ''websocket'')) (rp_headers result) \<and>
    header_text_is H (ascii ''Connection'') (\<lambda>h. eq_ignore_ascii_case h (ascii ''Upgrade'')) (rp_headers result) \<and>
    hm_get H (ascii ''Sec-WebSocket-Accept'') (rp_headers result) = Some (derive_accept_key H key) \<and>
    (case hm_get H (ascii ''Sec-WebSocket-Protocol'') (rp_headers result) of
       None \<Rightarrow> protocols = None
     | Some v \<Rightarrow> (\<exists>s accepted. to_str H v = Some s \<and> protocols = Some accepted \<and> s \<in> set accepted))"
proof -
  obtain role req where r: "client_start H request conf = Ok (role, start_write req)"
    "client_post fl H role (script_bytes (reads stream)) (sent stream @ req) (x, result) stream'"
    using client_done [OF assms] by blast
  obtain request1 key protocols where s: "add_offer H conf request = Ok request1"
    "generate_request H request1 = Ok (req, key)" "extract_subprotocols_from_request H request = Ok protocols"
    "ch_verify_data role = \<lparr>accept_key = derive_accept_key H key, subprotocols = protocols\<rparr>"
    using client_start_Ok [OF r(1)] by (auto simp: start_write_def cursor_new_def)
  obtain data len response conf1 where d: "sent stream' = sent stream @ req"
    "script_bytes (reads stream) = data @ script_bytes (reads stream')"
    "response_try_parse H data = Ok (Some (len, response))"
    "verify_response H (ch_verify_data role) response = Ok result"
    "in_buffer (frame_codec x) = drop len data" "ctx_role x = Client" "ws_state x = Active"
    using r(2) by (auto simp: client_post_def client_agreed_def)
  note v = verify_response_Ok [OF d(4)]
  have "verify_subprotocol H (ch_verify_data role) (rp_headers result) = Ok ()" using v by simp
  note sub = verify_subprotocol_Ok [OF this, unfolded s(4) verify_data.simps]
  have "result = response" "rp_status response = 101"
    "header_text_is H (ascii ''Upgrade'') (\<lambda>h. eq_ignore_ascii_case h (ascii ''websocket'')) (rp_headers response)"
    "header_text_is H (ascii ''Connection'') (\<lambda>h. eq_ignore_ascii_case h (ascii ''Upgrade'')) (rp_headers response)"
    "hm_get H (ascii ''Sec-WebSocket-Accept'') (rp_headers response) = Some (derive_accept_key H key)"
    using v s(4) by (simp_all del: ascii_simps)
  with s d sub show ?thesis by blast
qed

theorem client_accepts_matching_witness:
  "\<exists>x. client_with_config copying sample_http 2 (Ok sample_client_request) (handshake_world [RdBytes [82, 129, 0]]) None =
      Some (Ok (x, sample_client_reply), (handshake_world [])\<lparr>sent := sample_client_text\<rparr>) \<and>
    ctx_role x = Client \<and> ws_state x = Active"
proof -
  obtain x where x: "client_with_config copying sample_http 2 (Ok sample_client_request)
      (handshake_world [RdBytes [82, 129, 0]]) None =
    Some (Ok (x, sample_client_reply), (handshake_world [])\<lparr>sent := sample_client_text\<rparr>)"
    using sample_client by blast
  with client_accepts_matching [OF x] show ?thesis by blast
qed

end
