(* ===== verification/Opening_Handshake.thy ===== *)
theory Opening_Handshake
  imports Handshake_Props
begin

text \<open>
  What goes over the wire in the opening handshake: the request that \<open>generate_request\<close>
  writes, and that a client and a server of this crate accept each other.
\<close>

section \<open>Header lines\<close>

definition header_line :: "bytes \<times> bytes \<Rightarrow> bytes" where
  "header_line kv = fst kv @ ascii '': '' @ snd kv @ [13, 10]"

definition distinct_names :: "bytes list \<Rightarrow> bool" where
  "distinct_names names \<longleftrightarrow> distinct (map (map ascii_lower) names)"

lemma websocket_headers_distinct: "distinct_names WEBSOCKET_HEADERS"
  by code_simp

lemma distinct_names_Cons:
  "distinct_names (n # ns) \<longleftrightarrow> (\<forall>m \<in> set ns. \<not> same_name n m) \<and> distinct_names ns"
  by (auto simp: distinct_names_def same_name_def eq_ignore_ascii_case_def)

text \<open>The map after the headers \<open>names\<close> have been removed, and the text of one of them.\<close>

fun taken :: "'u http_lib \<Rightarrow> bytes list \<Rightarrow> header_map \<Rightarrow> header_map" where
  "taken H [] h = h"
| "taken H (n # ns) h = taken H ns (snd (hm_remove H n h))"

definition text_of :: "'u http_lib \<Rightarrow> header_map \<Rightarrow> bytes \<Rightarrow> bytes option" where
  "text_of H h n = Option.bind (hm_get H n h) (to_str H)"

lemma get_all_taken:
  assumes "header_map_laws H"
  shows "hm_get_all H m (taken H ns h) = (if \<exists>n \<in> set ns. same_name n m then [] else hm_get_all H m h)"
  by (induction ns arbitrary: h) (auto simp: header_map_lawsD(6) [OF assms])

lemma hm_get_removed:
  assumes "header_map_laws H" "\<not> same_name n m"
  shows "hm_get H m (snd (hm_remove H n h)) = hm_get H m h"
  using assms(2) by (simp add: header_map_lawsD(2,6) [OF assms(1)])

lemma text_of_removed:
  "header_map_laws H \<Longrightarrow> \<not> same_name n m \<Longrightarrow> text_of H (snd (hm_remove H n h)) m = text_of H h m"
  by (simp add: text_of_def hm_get_removed)

lemma hm_remove_get: "header_map_laws H \<Longrightarrow> hm_remove H n h = (hm_get H n h, snd (hm_remove H n h))"
  by (metis header_map_lawsD(5) prod.collapse)

lemma write_required_cases:
  assumes "header_map_laws H" "distinct_names names"
  shows "case write_required H names req h of
      Ok (req1, h1) \<Rightarrow> h1 = taken H names h \<and> (\<forall>n \<in> set names. text_of H h n \<noteq> None) \<and>
        req1 = req @ concat (map (\<lambda>n. header_line (n, the (text_of H h n))) names)
    | Err e \<Rightarrow> (\<exists>n \<in> set names. text_of H h n = None \<and>
        (\<forall>k. e = Protocol (InvalidHeader k) \<longrightarrow> hm_get H n h = None \<and> header_name H n = Some k))
    | Panic \<Rightarrow> (\<exists>n \<in> set names. hm_get H n h = None \<and> header_name H n = None)"
  using assms(2)
proof (induction names arbitrary: req h)
  case (Cons n names)
  obtain h1 where removed: "hm_remove H n h = (hm_get H n h, h1)"
    using hm_remove_get [OF assms(1), of n h] by blast
  have other: "hm_get H m h1 = hm_get H m h \<and> text_of H h1 m = text_of H h m" if "m \<in> set names" for m
    using that Cons.prems hm_get_removed [OF assms(1), of n m h] text_of_removed [OF assms(1), of n m h] removed
    by (simp add: distinct_names_Cons)
  show ?case
  proof (cases "hm_get H n h")
    case None
    then show ?thesis
      using removed by (simp add: invalid_header_named_def text_of_def split: option.split)
  next
    case (Some v)
    show ?thesis
    proof (cases "to_str H v")
      case None
      then show ?thesis
        using Some removed by (simp add: text_of_def)
    next
      case str: (Some s)
      let ?req = "req @ header_line (n, s)"
      have step: "write_required H (n # names) req h = write_required H names ?req h1"
        using removed by (simp add: Some str header_line_def)
      have t: "text_of H h n = Some s" by (simp add: text_of_def Some str)
      have lines: "map (\<lambda>m. header_line (m, the (text_of H h1 m))) names =
          map (\<lambda>m. header_line (m, the (text_of H h m))) names"
        using other by simp
      have d: "distinct_names names" using Cons.prems by (simp add: distinct_names_Cons)
      show ?thesis
        using Cons.IH [OF d, where req = ?req and h = h1] other removed
        by (cases "write_required H names ?req h1")
          (auto simp: step t lines simp del: write_required.simps)
    qed
  qed
qed simp

lemma write_rest_lines:
  "(\<forall>(k, v) \<in> set hs. \<not> websocket_headers_contains k) \<Longrightarrow>
     write_rest hs req = Ok (req @ concat (map (\<lambda>(k, v). header_line (display_name k, v)) hs))"
  by (induction hs req rule: write_rest.induct) (auto simp: header_line_def)

lemma rest_not_required:
  assumes "header_map_laws H" "(k, v) \<in> set (taken H WEBSOCKET_HEADERS h)"
  shows "\<not> websocket_headers_contains k"
proof
  assume "websocket_headers_contains k"
  then obtain n where n: "n \<in> set WEBSOCKET_HEADERS" "same_name n k"
    by (auto simp: websocket_headers_contains_def list_ex_iff same_name_def)
  have "hm_get_all H n (taken H WEBSOCKET_HEADERS h) = []"
    using n(1) by (auto simp: get_all_taken [OF assms(1)])
  then have "filter (\<lambda>(k, v). same_name k n) (taken H WEBSOCKET_HEADERS h) = []"
    by (simp only: header_map_lawsD(7) [OF assms(1)] values_of_def map_is_Nil_conv)
  then show False using assms(2) n(2) same_name_sym [of n k] by (auto simp: filter_empty_conv)
qed

text \<open>The header lines of the request that \<open>generate_request\<close> writes.\<close>

definition request_lines :: "'u http_lib \<Rightarrow> header_map \<Rightarrow> (bytes \<times> bytes) list" where
  "request_lines H h =
     map (\<lambda>n. (n, the (text_of H h n))) WEBSOCKET_HEADERS @
     map (\<lambda>(k, v). (display_name k, v)) (taken H WEBSOCKET_HEADERS h)"

lemma generate_request_cases:
  assumes "header_map_laws H"
  shows "case generate_request H request of
      Ok (req, key) \<Rightarrow> (\<exists>path version. uri_path_and_query H (rq_uri request) = Some path \<and>
        version_as_str (rq_version request) = Ok version \<and> text_of H (rq_headers request) KEY_HEADERNAME = Some key \<and>
        (\<forall>n \<in> set WEBSOCKET_HEADERS. text_of H (rq_headers request) n \<noteq> None) \<and>
        req = ascii ''GET '' @ path @ [32] @ version @ [13, 10] @
          concat (map header_line (request_lines H (rq_headers request))) @ [13, 10])
    | Err e \<Rightarrow> (\<forall>k. e = Protocol (InvalidHeader k) \<longrightarrow>
        (\<exists>n \<in> set WEBSOCKET_HEADERS. hm_get H n (rq_headers request) = None \<and> header_name H n = Some k))
    | Panic \<Rightarrow> (\<exists>n \<in> set WEBSOCKET_HEADERS. header_name H n = None)"
proof -
  let ?h = "rq_headers request"
  have key: "KEY_HEADERNAME \<in> set WEBSOCKET_HEADERS" by (simp add: WEBSOCKET_HEADERS_def)
  show ?thesis
  proof (cases "uri_path_and_query H (rq_uri request)")
    case None
    then show ?thesis by (simp add: generate_request_def)
  next
    case path: (Some path)
    show ?thesis
    proof (cases "version_as_str (rq_version request)")
      case (Ok version)
      show ?thesis
      proof (cases "hm_get H KEY_HEADERNAME ?h")
        case None
        then show ?thesis using path Ok key
          by (auto simp: generate_request_def invalid_header_named_def split: option.split)
      next
        case (Some v)
        show ?thesis
        proof (cases "to_str H v")
          case None
          then show ?thesis using path Ok Some by (simp add: generate_request_def error_from_to_str_def)
        next
          case str: (Some k)
          let ?req = "ascii ''GET '' @ path @ [32] @ version @ [13, 10]"
          have gen: "generate_request H request =
              bind_out (write_required H WEBSOCKET_HEADERS ?req ?h) (\<lambda>(req, headers).
              bind_out (write_rest headers req) (\<lambda>req1. Ok (req1 @ [13, 10], k)))"
            using path Ok Some str by (simp add: generate_request_def del: ascii_simps)
          have t: "text_of H ?h KEY_HEADERNAME = Some k" using Some str by (simp add: text_of_def)
          note req = write_required_cases [OF assms websocket_headers_distinct, where req = ?req and h = ?h]
          show ?thesis
          proof (cases "write_required H WEBSOCKET_HEADERS ?req ?h")
            case wr: (Ok p)
            obtain req1 h1 where p: "p = (req1, h1)" by (cases p)
            have rest: "write_rest h1 req1 =
                Ok (req1 @ concat (map (\<lambda>(k, v). header_line (display_name k, v)) h1))"
              using req wr p rest_not_required [OF assms] by (intro write_rest_lines) auto
            have "concat (map header_line (request_lines H ?h)) =
                concat (map (\<lambda>n. header_line (n, the (text_of H ?h n))) WEBSOCKET_HEADERS) @
                concat (map (\<lambda>(k, v). header_line (display_name k, v)) (taken H WEBSOCKET_HEADERS ?h))"
              by (simp add: request_lines_def comp_def case_prod_unfold del: ascii_simps)
            then show ?thesis
              using gen wr p rest req t path Ok by (simp del: ascii_simps)
          next
            case (Err e)
            then show ?thesis using gen req by (auto simp del: ascii_simps)
          next
            case Panic
            then show ?thesis using gen req by (auto simp del: ascii_simps)
          qed
        qed
      qed
    next
      case (Err e)
      have "\<exists>p. e = Protocol p \<and> (\<forall>k. p \<noteq> InvalidHeader k)"
        using Err by (cases "rq_version request") auto
      then show ?thesis using path Err by (auto simp: generate_request_def)
    next
      case Panic
      then show ?thesis by (cases "rq_version request") auto
    qed
  qed
qed

text \<open>
  Claim C37. The request on the wire: a request line, then each of the five headers that RFC
  6455 requires exactly once, in a fixed order and with the value that \<open>get\<close> gives, then the
  other headers as they are, and an empty line. \<open>InvalidHeader\<close> is reported only for a
  required header that is missing: one that occurs twice is not reported, its further values
  are dropped.
\<close>

theorem generate_request_writes:
  assumes "header_map_laws H"
  shows "case generate_request H request of
      Ok (req, key) \<Rightarrow> (\<exists>path version. uri_path_and_query H (rq_uri request) = Some path \<and>
        version_as_str (rq_version request) = Ok version \<and> text_of H (rq_headers request) KEY_HEADERNAME = Some key \<and>
        req = ascii ''GET '' @ path @ [32] @ version @ [13, 10] @
          concat (map header_line (request_lines H (rq_headers request))) @ [13, 10])
    | Err e \<Rightarrow> (\<forall>k. e = Protocol (InvalidHeader k) \<longrightarrow>
        (\<exists>n \<in> set WEBSOCKET_HEADERS. hm_get_all H n (rq_headers request) = []))
    | Panic \<Rightarrow> (\<exists>n \<in> set WEBSOCKET_HEADERS. header_name H n = None)"
proof (cases "generate_request H request")
  case (Ok p)
  then show ?thesis
    using generate_request_cases [OF assms, of request] by (cases p) (simp del: ascii_simps, blast)
next
  case (Err e)
  have "hm_get H n h = None \<longleftrightarrow> hm_get_all H n h = []" for n h
    by (simp add: header_map_lawsD(2) [OF assms] split: list.split)
  then show ?thesis
    using generate_request_cases [OF assms, of request] Err by auto
next
  case Panic
  then show ?thesis using generate_request_cases [OF assms, of request] by simp
qed

text \<open>A request with two \<open>Host\<close> headers is sent with the first of them.\<close>

definition two_hosts :: "bytes http_request" where
  "two_hosts = sample_client_request\<lparr>rq_headers :=
     (ascii ''host'', ascii ''example.com'') # (ascii ''host'', ascii ''example.org'') #
     tl (rq_headers sample_client_request)\<rparr>"

theorem generate_request_writes_witness:
  "generate_request sample_http two_hosts = Ok (sample_client_text, replicate 24 65) \<and>
   (\<exists>path version. sample_client_text = ascii ''GET '' @ path @ [32] @ version @ [13, 10] @
      concat (map header_line (request_lines sample_http (rq_headers two_hosts))) @ [13, 10])"
proof -
  have "generate_request sample_http two_hosts = Ok (sample_client_text, replicate 24 65)"
    by code_simp
  with generate_request_writes [OF sample_header_map, of two_hosts] show ?thesis
    by (auto simp del: ascii_simps)
qed

section \<open>Requests that are read back\<close>

lemma token_char_lower: "token_char (ascii_lower b) \<Longrightarrow> token_char b"
proof (cases "65 \<le> b \<and> b \<le> 90")
  case True
  then show ?thesis by (simp add: token_char_def word_le_nat_alt)
qed (simp add: ascii_lower_def)

lemma token_char_lower_iff: "list_all token_char (map ascii_lower n) \<longleftrightarrow> list_all token_char n"
proof -
  have "token_char (ascii_lower b)" if "token_char b" for b
  proof (cases "65 \<le> b \<and> b \<le> 90")
    case True
    then have "65 \<le> unat b \<and> unat b \<le> 90" by (simp add: word_le_nat_alt)
    then have "unat (b + 32) = unat b + 32" by (simp add: unat_word_ariths)
    then show ?thesis using True \<open>65 \<le> unat b \<and> unat b \<le> 90\<close> by (simp add: ascii_lower_def token_char_def)
  qed (use that in \<open>auto simp: ascii_lower_def\<close>)
  then show ?thesis by (auto simp: list_all_iff dest: token_char_lower)
qed

lemma same_name_token:
  assumes "same_name k n" "n \<noteq> []" "list_all token_char (map ascii_lower n)"
  shows "k \<noteq> [] \<and> list_all token_char k"
proof -
  have "list_all token_char (map ascii_lower k)"
    using assms(1,3) by (simp add: same_name_def eq_ignore_ascii_case_def)
  then have "list_all token_char k"
    by (simp add: list_all_iff) (metis token_char_lower)
  moreover have "k \<noteq> []"
    using assms(1,2) by (auto simp: same_name_def eq_ignore_ascii_case_def)
  ultimately show ?thesis by blast
qed

text \<open>A header that is written and read back unchanged.\<close>

definition good_header :: "bytes \<times> bytes \<Rightarrow> bool" where
  "good_header kv \<longleftrightarrow> fst kv \<noteq> [] \<and> list_all token_char (fst kv) \<and> ascii_text (snd kv)"

lemma good_header_same: "good_header (k', v) \<Longrightarrow> same_name k' k \<Longrightarrow> good_header (k, v)"
  using same_name_token [of k k'] token_char_lower_iff [of k'] same_name_sym [of k k']
  by (simp add: good_header_def)

text \<open>A header map that holds exactly the given headers, up to the case of names.\<close>

definition holds :: "'u http_lib \<Rightarrow> header_map \<Rightarrow> (bytes \<times> bytes) list \<Rightarrow> bool" where
  "holds H h kvs \<longleftrightarrow> (\<forall>n. hm_get_all H n h = values_of n kvs)"

lemma holds_Nil: "header_map_laws H \<Longrightarrow> holds H [] []"
  by (simp add: holds_def header_map_lawsD(1))

lemma holds_append:
  "header_map_laws H \<Longrightarrow> holds H h kvs \<Longrightarrow> same_name n n' \<Longrightarrow> holds H (hm_append H n v h) (kvs @ [(n', v)])"
  by (auto simp: holds_def header_map_lawsD(4) same_name_def eq_ignore_ascii_case_def)

lemma holds_good:
  assumes "header_map_laws H" "holds H h kvs" "list_all good_header kvs"
  shows "list_all good_header h"
  unfolding list_all_iff
proof
  fix kv assume "kv \<in> set h"
  then obtain k v where kv: "kv = (k, v)" "(k, v) \<in> set h" by (metis prod.exhaust)
  then have "v \<in> set (values_of k kvs)"
    using values_of_in [OF kv(2)] assms(2) by (metis holds_def header_map_lawsD(7) [OF assms(1)])
  then obtain k' where "(k', v) \<in> set kvs" "same_name k' k" using values_of_from by blast
  then show "good_header kv"
    using assms(3) good_header_same [of k' v k] by (auto simp: list_all_iff kv(1))
qed

lemma headers_from_httparse_ok:
  assumes "header_map_laws H" "header_text_laws H" "list_all good_header raw" "holds H h kvs"
  shows "\<exists>h'. headers_from_httparse H h raw = Ok h' \<and> holds H h' (kvs @ raw)"
  using assms(3,4)
proof (induction raw arbitrary: h kvs)
  case (Cons kv raw)
  obtain k v where kv: "kv = (k, v)" by (cases kv)
  have "header_name H k = Some (map ascii_lower k)" "header_value H v = Some v"
    using Cons.prems(1) kv header_text_lawsD(1,2) [OF assms(2)] by (simp_all add: good_header_def)
  moreover have "holds H (hm_append H (map ascii_lower k) v h) (kvs @ [(k, v)])"
    by (rule holds_append [OF assms(1) Cons.prems(2)]) simp
  from Cons.IH [OF _ this] Cons.prems(1) obtain h' where
    "headers_from_httparse H (hm_append H (map ascii_lower k) v h) raw = Ok h'" "holds H h' ((kvs @ [(k, v)]) @ raw)"
    by auto
  ultimately show ?case by (simp add: kv)
qed simp

text \<open>A builder that is given good headers holds them.\<close>

lemma builder_headers_ok:
  assumes "header_map_laws H" "header_text_laws H" "list_all good_header kvs" "holds H h kvs0"
  shows "\<exists>h'. foldl (\<lambda>b (n, v). builder_header H n v b) (Ok h) kvs = Ok h' \<and> holds H h' (kvs0 @ kvs)"
  using assms(3,4)
proof (induction kvs arbitrary: h kvs0)
  case (Cons kv kvs)
  obtain n v where kv: "kv = (n, v)" by (cases kv)
  have "builder_header H n v (Ok h) = Ok (hm_append H (map ascii_lower n) v h)"
    using Cons.prems(1) kv header_text_lawsD(1,3) [OF assms(2)] by (simp add: builder_header_def good_header_def)
  moreover have "holds H (hm_append H (map ascii_lower n) v h) (kvs0 @ [(n, v)])"
    by (rule holds_append [OF assms(1) Cons.prems(2)]) simp
  ultimately show ?case
    using Cons.IH [of "hm_append H (map ascii_lower n) v h" "kvs0 @ [(n, v)]"] Cons.prems(1) kv by simp
qed simp

lemma holds_get:
  assumes "header_map_laws H" "holds H h kvs" "values_of n kvs = v # vs"
  shows "hm_get H n h = Some v"
  using assms(3) assms(2) by (simp add: holds_def header_map_lawsD(2) [OF assms(1)])

lemma holds_get_None:
  assumes "header_map_laws H" "holds H h kvs" "values_of n kvs = []"
  shows "hm_get H n h = None"
  using assms(3) assms(2) by (simp add: holds_def header_map_lawsD(2) [OF assms(1)])

lemma holds_text_is:
  assumes "header_map_laws H" "header_text_laws H" "holds H h kvs" "values_of n kvs = v # vs" "ascii_text v"
  shows "header_text_is H n P h \<longleftrightarrow> P v"
  by (simp add: header_text_is_def holds_get [OF assms(1,3,4)] header_text_lawsD(4) [OF assms(2,5)])

lemma holds_text_of:
  assumes "header_map_laws H" "header_text_laws H" "holds H h kvs" "values_of n kvs = v # vs" "ascii_text v"
  shows "text_of H h n = Some v"
  by (simp add: text_of_def holds_get [OF assms(1,3,4)] header_text_lawsD(4) [OF assms(2,5)])

text \<open>The lines of a request hold what its header map holds.\<close>

lemma display_name_same [simp]: "same_name (display_name k) n \<longleftrightarrow> same_name k n"
proof -
  have "same_name (ascii ''Sec-WebSocket-Protocol'') n \<longleftrightarrow> same_name (ascii ''sec-websocket-protocol'') n"
    "same_name (ascii ''Origin'') n \<longleftrightarrow> same_name (ascii ''origin'') n"
    by (simp_all add: same_name_def eq_ignore_ascii_case_def ascii_lower_def)
  then show ?thesis by (simp add: display_name_def del: ascii_simps)
qed

lemma display_name_good: "good_header (k, v) \<Longrightarrow> good_header (display_name k, v)"
  by (auto simp: good_header_def display_name_def token_char_def)

lemma values_of_display: "values_of n (map (\<lambda>(k, v). (display_name k, v)) h) = values_of n h"
  by (induction h) auto

lemma filter_distinct_names:
  "distinct_names ws \<Longrightarrow> w \<in> set ws \<Longrightarrow> same_name w n \<Longrightarrow> filter (\<lambda>m. same_name m n) ws = [w]"
proof (induction ws)
  case (Cons m ws)
  show ?case
  proof (cases "w = m")
    case True
    have "\<not> same_name k n" if "k \<in> set ws" for k
      using that Cons.prems True by (auto simp: distinct_names_Cons same_name_def eq_ignore_ascii_case_def)
    then show ?thesis using True Cons.prems by simp
  next
    case False
    then have "\<not> same_name m n"
      using Cons.prems by (auto simp: distinct_names_Cons same_name_def eq_ignore_ascii_case_def)
    then show ?thesis using Cons False by (simp add: distinct_names_Cons)
  qed
qed simp

lemma values_of_map: "values_of n (map (\<lambda>w. (w, f w)) ws) = map f (filter (\<lambda>w. same_name w n) ws)"
  by (induction ws) simp_all

lemma request_lines_hold:
  assumes "header_map_laws H" "header_text_laws H" "holds H h kvs" "list_all good_header kvs"
    and one: "\<forall>w \<in> set WEBSOCKET_HEADERS. \<exists>v. values_of w kvs = [v]"
  shows "list_all good_header (request_lines H h)" "values_of n (request_lines H h) = values_of n kvs"
proof -
  have val: "\<exists>v. values_of w kvs = [v] \<and> text_of H h w = Some v \<and> ascii_text v" if "w \<in> set WEBSOCKET_HEADERS" for w
  proof -
    obtain v where v: "values_of w kvs = [v]" using one \<open>w \<in> _\<close> by blast
    then have "v \<in> set (values_of w kvs)" by simp
    then obtain k where "(k, v) \<in> set kvs" using values_of_from by blast
    then have "ascii_text v" using assms(4) by (auto simp: list_all_iff good_header_def)
    then show ?thesis using v holds_text_of [OF assms(1-3) v] by blast
  qed
  let ?rest = "taken H WEBSOCKET_HEADERS h"
  have tokens: "\<forall>w \<in> set WEBSOCKET_HEADERS. w \<noteq> [] \<and> list_all token_char w"
    by code_simp
  have rest: "values_of n ?rest = (if \<exists>w \<in> set WEBSOCKET_HEADERS. same_name w n then [] else values_of n kvs)" for n
    using get_all_taken [OF assms(1), of n WEBSOCKET_HEADERS h] assms(3)
    by (simp add: holds_def header_map_lawsD(7) [OF assms(1)])
  have "good_header kv" if "kv \<in> set ?rest" for kv
  proof -
    obtain k v where kv: "kv = (k, v)" by (cases kv)
    have "v \<in> set (values_of k kvs)" using values_of_in [of k v ?rest] that kv rest [of k] by (auto split: if_splits)
    then obtain k' where "(k', v) \<in> set kvs" "same_name k' k" using values_of_from by blast
    then show ?thesis
      using assms(4) good_header_same [of k' v k] by (auto simp: list_all_iff kv)
  qed
  then have "good_header ((\<lambda>(k, v). (display_name k, v)) kv)" if "kv \<in> set ?rest" for kv
    using that display_name_good by (cases kv) simp
  moreover have "good_header (w, the (text_of H h w))" if "w \<in> set WEBSOCKET_HEADERS" for w
    using val [OF that] bspec [OF tokens that] by (auto simp: good_header_def)
  ultimately show "list_all good_header (request_lines H h)"
    unfolding request_lines_def list_all_iff set_append set_map by blast
  show "values_of n (request_lines H h) = values_of n kvs"
  proof (cases "\<exists>w \<in> set WEBSOCKET_HEADERS. same_name w n")
    case True
    then obtain w where w: "w \<in> set WEBSOCKET_HEADERS" "same_name w n" by blast
    have "values_of n kvs = values_of w kvs"
      using w(2) by (simp add: values_of_def same_name_def eq_ignore_ascii_case_def)
    then show ?thesis
      using True val [OF w(1)] filter_distinct_names [OF websocket_headers_distinct w]
      by (auto simp: request_lines_def values_of_map values_of_display rest)
  next
    case False
    then have "filter (\<lambda>w. same_name w n) WEBSOCKET_HEADERS = []" by (simp add: filter_empty_conv)
    then show ?thesis
      using False by (simp add: request_lines_def values_of_map values_of_display rest)
  qed
qed

end
