(* ===== verification/Handshake_Agreement.thy ===== *)
theory Handshake_Agreement
  imports Opening_Handshake
begin

text \<open>
  A client and a server of this crate, connected to each other: the request of the one is
  accepted by the other, the response is accepted by the first, and both end with compression
  settings that fit together.
\<close>

section \<open>What the client sends\<close>

definition client_headers :: "bytes \<Rightarrow> bytes \<Rightarrow> (bytes \<times> bytes) list" where
  "client_headers host key =
     [(ascii ''Host'', host), (ascii ''Connection'', ascii ''Upgrade''), (ascii ''Upgrade'', ascii ''websocket''),
      (ascii ''Sec-WebSocket-Version'', ascii ''13''), (ascii ''Sec-WebSocket-Key'', key)]"

definition offer_headers :: "bytes \<Rightarrow> bytes \<Rightarrow> bytes \<Rightarrow> (bytes \<times> bytes) list" where
  "offer_headers host key off = client_headers host key @ [(extensions_name, off)]"

lemma client_headers_good:
  "ascii_text host \<Longrightarrow> ascii_text key \<Longrightarrow> list_all good_header (client_headers host key)"
  "ascii_text host \<Longrightarrow> ascii_text key \<Longrightarrow> ascii_text off \<Longrightarrow> list_all good_header (offer_headers host key off)"
  by (simp_all add: client_headers_def offer_headers_def extensions_name_def good_header_def token_char_def)

lemma client_headers_values:
  "values_of (ascii ''Sec-WebSocket-Protocol'') (client_headers host key) = []"
  "values_of (ascii ''Sec-WebSocket-Extensions'') (client_headers host key) = []"
  by (simp_all add: client_headers_def same_name_def eq_ignore_ascii_case_def ascii_lower_def)

lemma offer_headers_values:
  "values_of (ascii ''Host'') (offer_headers host key off) = [host]"
  "values_of (ascii ''Connection'') (offer_headers host key off) = [ascii ''Upgrade'']"
  "values_of (ascii ''Upgrade'') (offer_headers host key off) = [ascii ''websocket'']"
  "values_of (ascii ''Sec-WebSocket-Version'') (offer_headers host key off) = [ascii ''13'']"
  "values_of (ascii ''Sec-WebSocket-Key'') (offer_headers host key off) = [key]"
  "values_of extensions_name (offer_headers host key off) = [off]"
  by (simp_all add: client_headers_def offer_headers_def extensions_name_def same_name_def
      eq_ignore_ascii_case_def ascii_lower_def)

lemma uri_request_ok:
  assumes "header_map_laws H" "header_text_laws H" "base64_laws H" "length key_bytes = 16"
    and "uri_authority H uri = Some authority"
    and "host = (case split_once 64 authority of Some (_, after) \<Rightarrow> after | None \<Rightarrow> authority)"
    and "host \<noteq> []" "ascii_text host"
  shows "\<exists>h. uri_into_client_request H key_bytes uri =
      Ok \<lparr>rq_method = ascii ''GET'', rq_uri = uri, rq_version = Http11, rq_headers = h\<rparr> \<and>
    holds H h (client_headers host (generate_key H key_bytes))"
proof -
  have "ascii_text (generate_key H key_bytes)" using assms(3) by (simp add: base64_laws_def generate_key_def)
  from builder_headers_ok [OF assms(1,2) client_headers_good(1) [OF assms(8) this] holds_Nil [OF assms(1)]]
  obtain h where "foldl (\<lambda>b (n, v). builder_header H n v b) (Ok [])
      (client_headers host (generate_key H key_bytes)) = Ok h"
    "holds H h (client_headers host (generate_key H key_bytes))" by auto
  then show ?thesis
    using assms(5,7) by (simp add: uri_into_client_request_def assms(6) [symmetric] client_headers_def Let_def del: ascii_simps)
qed

lemma client_start_ok:
  assumes "header_map_laws H" "header_text_laws H" "ascii_text key" "ascii_text host" "ascii_text off"
    and "holds H h (client_headers host key)"
    and "uri_mode H uri = Ok mode" "uri_path_and_query H uri = Some path"
    and "cfg_deflate cc = Some cs" "offer (header_value_str H) cs = Ok off"
  shows "\<exists>h1. holds H h1 (offer_headers host key off) \<and>
    client_start H \<lparr>rq_method = ascii ''GET'', rq_uri = uri, rq_version = Http11, rq_headers = h\<rparr> (Some cc) =
      Ok (\<lparr>ch_verify_data = \<lparr>accept_key = derive_accept_key H key, subprotocols = None\<rparr>, ch_config = Some cc\<rparr>,
        start_write (ascii ''GET '' @ path @ [32] @ ascii ''HTTP/1.1'' @ [13, 10] @
          concat (map header_line (request_lines H h1)) @ [13, 10]))"
proof -
  let ?rq = "\<lambda>h. \<lparr>rq_method = ascii ''GET'', rq_uri = uri, rq_version = Http11, rq_headers = h\<rparr>"
  let ?h1 = "hm_append H extensions_name off h"
  have h1: "holds H ?h1 (offer_headers host key off)"
    unfolding offer_headers_def by (rule holds_append [OF assms(1,6)]) simp
  have sub: "extract_subprotocols_from_request H (?rq h) = Ok None"
    using holds_get_None [OF assms(1,6) client_headers_values(1)]
    by (simp add: extract_subprotocols_from_request_def del: ascii_simps)
  have "hm_get_all H (ascii ''Sec-WebSocket-Extensions'') h = []"
    using assms(6) client_headers_values(2) by (simp add: holds_def del: ascii_simps)
  then have add: "add_offer H (Some cc) (?rq h) = Ok (?rq ?h1)"
    using assms(9,10) by (simp add: add_offer_def header_map_lawsD(3) [OF assms(1)] extensions_name_def del: ascii_simps)
  note vals = offer_headers_values [of host key off]
  have texts: "text_of H ?h1 n \<noteq> None" if "n \<in> set WEBSOCKET_HEADERS" for n
  proof -
    have "\<exists>v. values_of n (offer_headers host key off) = [v] \<and> ascii_text v"
      using that vals(1-5) assms(3,4)
      by (auto simp: WEBSOCKET_HEADERS_def KEY_HEADERNAME_def simp del: ascii_simps) (simp_all add: ascii_def)
    then show ?thesis using holds_text_of [OF assms(1,2) h1] by blast
  qed
  have k: "text_of H ?h1 KEY_HEADERNAME = Some key"
    unfolding KEY_HEADERNAME_def by (rule holds_text_of [OF assms(1,2) h1 vals(5) assms(3)])
  obtain v where v: "hm_get H KEY_HEADERNAME ?h1 = Some v" "to_str H v = Some key"
    using k by (auto simp: text_of_def Option.bind_eq_Some_conv)
  let ?req = "ascii ''GET '' @ path @ [32] @ ascii ''HTTP/1.1'' @ [13, 10]"
  obtain req1 where req1: "write_required H WEBSOCKET_HEADERS ?req ?h1 = Ok (req1, taken H WEBSOCKET_HEADERS ?h1)"
    using write_required_cases [OF assms(1) websocket_headers_distinct, where req = ?req and h = ?h1] texts
    by (cases "write_required H WEBSOCKET_HEADERS ?req ?h1")
      (fastforce simp: text_of_def simp del: ascii_simps)+
  have "\<exists>r. write_rest (taken H WEBSOCKET_HEADERS ?h1) req1 = Ok r"
    using rest_not_required [OF assms(1)] by (subst write_rest_lines) auto
  then obtain out where gen: "generate_request H (?rq ?h1) = Ok (out, key)"
    using v req1 assms(8) by (auto simp: generate_request_def simp del: ascii_simps)
  then have out: "out = ascii ''GET '' @ path @ [32] @ ascii ''HTTP/1.1'' @ [13, 10] @
      concat (map header_line (request_lines H ?h1)) @ [13, 10]"
    using generate_request_cases [OF assms(1), of "?rq ?h1"] assms(8) by (simp del: ascii_simps)
  show ?thesis
    using h1 sub add gen out assms(7)
    by (intro exI [of _ ?h1]) (simp add: client_start_def less_http_version_def del: ascii_simps)
qed

section \<open>What the server answers\<close>

definition reply_headers :: "bytes \<Rightarrow> (bytes \<times> bytes) list" where
  "reply_headers acc =
     [(ascii ''Connection'', ascii ''Upgrade''), (ascii ''Upgrade'', ascii ''websocket''),
      (ascii ''Sec-WebSocket-Accept'', acc)]"

definition agreed_headers :: "bytes \<Rightarrow> bytes \<Rightarrow> (bytes \<times> bytes) list" where
  "agreed_headers acc ext = reply_headers acc @ [(extensions_name, ext)]"

lemma reply_headers_good:
  "ascii_text acc \<Longrightarrow> list_all good_header (reply_headers acc)"
  "ascii_text acc \<Longrightarrow> ascii_text ext \<Longrightarrow> list_all good_header (agreed_headers acc ext)"
  by (simp_all add: reply_headers_def agreed_headers_def extensions_name_def good_header_def token_char_def)

lemma reply_headers_values:
  "values_of extensions_name (reply_headers acc) = []"
  by (simp add: reply_headers_def extensions_name_def same_name_def eq_ignore_ascii_case_def ascii_lower_def)

lemma agreed_headers_values:
  "values_of (ascii ''Connection'') (agreed_headers acc ext) = [ascii ''Upgrade'']"
  "values_of (ascii ''Upgrade'') (agreed_headers acc ext) = [ascii ''websocket'']"
  "values_of (ascii ''Sec-WebSocket-Accept'') (agreed_headers acc ext) = [acc]"
  "values_of (ascii ''Sec-WebSocket-Protocol'') (agreed_headers acc ext) = []"
  "values_of (ascii ''Sec-WebSocket-Extensions'') (agreed_headers acc ext) = [ext]"
  by (simp_all add: agreed_headers_def reply_headers_def extensions_name_def same_name_def
      eq_ignore_ascii_case_def ascii_lower_def)

lemma literal_text:
  "ascii_text (ascii ''Upgrade'')" "ascii_text (ascii ''websocket'')" "ascii_text (ascii ''13'')"
  by simp_all

lemma upgrade_tokens:
  "is_upgrade_token (ascii ''Upgrade'')" "eq_ignore_ascii_case x x"
  by (code_simp, simp add: eq_ignore_ascii_case_def)

lemma create_response_ok:
  assumes "header_map_laws H" "header_text_laws H" "base64_laws H"
    and "holds H (rq_headers request) (offer_headers host key off)" "ascii_text key"
    and "is_valid_sec_websocket_key H key"
    and "rq_method request = ascii ''GET''" "rq_version request = Http11"
  shows "\<exists>h. create_response H request = Ok \<lparr>rp_status = 101, rp_version = Http11, rp_headers = h, rp_body = ()\<rparr> \<and>
    holds H h (reply_headers (derive_accept_key H key))"
proof -
  have "ascii_text (derive_accept_key H key)" using assms(3) by (simp add: base64_laws_def derive_accept_key_def)
  from builder_headers_ok [OF assms(1,2) reply_headers_good(1) [OF this] holds_Nil [OF assms(1)]]
  obtain h where h: "foldl (\<lambda>b (n, v). builder_header H n v b) (Ok []) (reply_headers (derive_accept_key H key)) = Ok h"
    "holds H h (reply_headers (derive_accept_key H key))" by auto
  note vals = offer_headers_values [of host key off]
  have checks: "header_text_is H (ascii ''Connection'') is_upgrade_token (rq_headers request)"
    "header_text_is H (ascii ''Upgrade'') (\<lambda>h. eq_ignore_ascii_case h (ascii ''websocket'')) (rq_headers request)"
    using holds_text_is [OF assms(1,2,4) vals(2) literal_text(1), of is_upgrade_token] upgrade_tokens
      holds_text_is [OF assms(1,2,4) vals(3) literal_text(2), of "\<lambda>h. eq_ignore_ascii_case h (ascii ''websocket'')"]
    by simp_all
  have gets: "hm_get H (ascii ''Sec-WebSocket-Version'') (rq_headers request) = Some (ascii ''13'')"
    "hm_get H (ascii ''Sec-WebSocket-Key'') (rq_headers request) = Some key"
    by (rule holds_get [OF assms(1,4) vals(4)], rule holds_get [OF assms(1,4) vals(5)])
  show ?thesis
    using h checks gets assms(6-8)
    by (simp add: create_response_def create_parts_def less_http_version_def reply_headers_def del: ascii_simps)
qed

lemma write_header_lines_ok:
  assumes "header_text_laws H" "list_all good_header h"
  shows "write_header_lines H h = Ok (concat (map header_line h))"
  using assms(2)
proof (induction h)
  case (Cons kv h)
  then show ?case
    using header_text_lawsD(4) [OF assms(1), of "snd kv"]
    by (cases kv) (simp add: good_header_def header_line_def)
qed simp

section \<open>Agreement\<close>

text \<open>The settings of the two ends fit: what one compresses the other can decompress.\<close>

definition settings_fit :: "settings \<Rightarrow> settings \<Rightarrow> bool" where
  "settings_fit cli srv \<longleftrightarrow>
     server_no_context_takeover cli = server_no_context_takeover srv \<and>
     client_no_context_takeover cli = client_no_context_takeover srv \<and>
     server_max_window_bits cli = server_max_window_bits srv \<and>
     client_max_window_bits cli \<le> client_max_window_bits srv \<and>
     settings_ok srv \<and> settings_ok cli"

lemma verify_agreed:
  assumes "header_map_laws H" "header_text_laws H" "holds H (rp_headers resp) (agreed_headers acc ext)"
    and "rp_status resp = 101" "accept_response cs [ext] = Ok (Some cli)" "cfg_deflate cc = Some cs"
  shows "verify_response H \<lparr>accept_key = acc, subprotocols = None\<rparr> resp = Ok resp"
    "agree_deflate H resp (Some cc) = Ok (Some (cc\<lparr>cfg_deflate := Some cli\<rparr>))"
proof -
  note vals = agreed_headers_values [of acc ext]
  have checks: "header_text_is H (ascii ''Connection'') (\<lambda>h. eq_ignore_ascii_case h (ascii ''Upgrade'')) (rp_headers resp)"
    "header_text_is H (ascii ''Upgrade'') (\<lambda>h. eq_ignore_ascii_case h (ascii ''websocket'')) (rp_headers resp)"
    using holds_text_is [OF assms(1,2,3) vals(1) literal_text(1), of "\<lambda>h. eq_ignore_ascii_case h (ascii ''Upgrade'')"]
      holds_text_is [OF assms(1,2,3) vals(2) literal_text(2), of "\<lambda>h. eq_ignore_ascii_case h (ascii ''websocket'')"]
      upgrade_tokens(2)
    by simp_all
  have gets: "hm_get H (ascii ''Sec-WebSocket-Accept'') (rp_headers resp) = Some acc"
    "hm_get H (ascii ''Sec-WebSocket-Protocol'') (rp_headers resp) = None"
    by (rule holds_get [OF assms(1,3) vals(3)], rule holds_get_None [OF assms(1,3) vals(4)])
  have exts: "hm_get_all H (ascii ''Sec-WebSocket-Extensions'') (rp_headers resp) = [ext]"
    using assms(3) vals(5) by (simp add: holds_def del: ascii_simps)
  show "verify_response H \<lparr>accept_key = acc, subprotocols = None\<rparr> resp = Ok resp"
    using checks gets assms(4) by (simp add: verify_response_def verify_subprotocol_def del: ascii_simps)
  show "agree_deflate H resp (Some cc) = Ok (Some (cc\<lparr>cfg_deflate := Some cli\<rparr>))"
    using exts assms(5,6) by (simp add: agree_deflate_def verify_deflate_response_def del: ascii_simps)
qed

lemma answer_agreed:
  assumes "header_map_laws H" "header_text_laws H" "holds H (rq_headers sreq) (offer_headers host key off)"
    and "holds H h (reply_headers acc)" "ascii_text acc" "ascii_text ext"
    and "cfg_deflate sc = Some ss" "accept_offers (header_value_str H) ss [off] = Ok (Some (srv, ext))"
  shows "\<exists>h1. answer_extensions H sreq \<lparr>rp_status = 101, rp_version = Http11, rp_headers = h, rp_body = ()\<rparr> (Some sc) =
      Ok (\<lparr>rp_status = 101, rp_version = Http11, rp_headers = h1, rp_body = ()\<rparr>, Some (sc\<lparr>cfg_deflate := Some srv\<rparr>)) \<and>
    holds H h1 (agreed_headers acc ext) \<and> list_all good_header h1"
proof -
  have "\<not> hm_contains H extensions_name h"
    using assms(4) reply_headers_values by (simp add: holds_def header_map_lawsD(3) [OF assms(1)])
  moreover have "hm_get_all H extensions_name (rq_headers sreq) = [off]"
    using assms(3) offer_headers_values(6) by (simp add: holds_def)
  moreover have h1: "holds H (hm_append H extensions_name ext h) (agreed_headers acc ext)"
    unfolding agreed_headers_def by (rule holds_append [OF assms(1,4)]) simp
  moreover have "list_all good_header (hm_append H extensions_name ext h)"
    by (rule holds_good [OF assms(1) h1 reply_headers_good(2) [OF assms(5,6)]])
  ultimately show ?thesis
    using assms(7,8) by (simp add: answer_extensions_def accept_deflate_offers_def)
qed

text \<open>The server's half: the lines of the request become a request that it accepts and answers.\<close>

lemma request_answered:
  assumes "header_map_laws H" "header_text_laws H" "base64_laws H"
    and "ascii_text host" "ascii_text key" "is_valid_sec_websocket_key H key" "ascii_text off"
    and "holds H h1 (offer_headers host key off)" "uri_parse H path = Some uri1"
    and "cfg_deflate sc = Some ss" "accept_offers (header_value_str H) ss [off] = Ok (Some (srv, ext))"
    and "ascii_text ext"
  obtains sreq h3 h4 where
    "request_from_httparse H \<lparr>raw_method = Some (ascii ''GET''), raw_path = Some path, raw_version = Some 1,
      raw_headers = request_lines H h1\<rparr> = Ok sreq"
    "create_response H sreq = Ok \<lparr>rp_status = 101, rp_version = Http11, rp_headers = h3, rp_body = ()\<rparr>"
    "answer_extensions H sreq \<lparr>rp_status = 101, rp_version = Http11, rp_headers = h3, rp_body = ()\<rparr> (Some sc) =
      Ok (\<lparr>rp_status = 101, rp_version = Http11, rp_headers = h4, rp_body = ()\<rparr>, Some (sc\<lparr>cfg_deflate := Some srv\<rparr>))"
    "holds H h4 (agreed_headers (derive_accept_key H key) ext)" "list_all good_header h4"
proof -
  have acc: "ascii_text (derive_accept_key H key)"
    using assms(3) by (auto simp: base64_laws_def derive_accept_key_def)
  have one: "\<forall>w \<in> set WEBSOCKET_HEADERS. \<exists>v. values_of w (offer_headers host key off) = [v]"
    using offer_headers_values [of host key off]
    by (simp add: WEBSOCKET_HEADERS_def KEY_HEADERNAME_def del: ascii_simps)
  note lines = request_lines_hold [OF assms(1,2,8) client_headers_good(2) [OF assms(4,5,7)] one]
  obtain h2 where h2: "headers_from_httparse H [] (request_lines H h1) = Ok h2" "holds H h2 (request_lines H h1)"
    using headers_from_httparse_ok [OF assms(1,2) lines(1) holds_Nil [OF assms(1)]] by auto
  let ?sreq = "\<lparr>rq_method = ascii ''GET'', rq_uri = uri1, rq_version = Http11, rq_headers = h2\<rparr>"
  have sreq: "request_from_httparse H \<lparr>raw_method = Some (ascii ''GET''), raw_path = Some path, raw_version = Some 1,
      raw_headers = request_lines H h1\<rparr> = Ok ?sreq"
    using h2(1) assms(9) by (simp add: request_from_httparse_def del: ascii_simps)
  have srv_holds: "holds H (rq_headers ?sreq) (offer_headers host key off)"
    using h2(2) lines(2) by (simp add: holds_def)
  obtain h3 where h3: "create_response H ?sreq = Ok \<lparr>rp_status = 101, rp_version = Http11, rp_headers = h3, rp_body = ()\<rparr>"
    "holds H h3 (reply_headers (derive_accept_key H key))"
    using create_response_ok [OF assms(1-3) srv_holds assms(5,6)] by auto
  show thesis
    using answer_agreed [OF assms(1,2) srv_holds h3(2) acc assms(12,10,11)] that [OF sreq h3(1)] by blast
qed

text \<open>The client's half: the headers of the response are the ones it waits for.\<close>

lemma response_accepted:
  assumes "header_map_laws H" "header_text_laws H"
    and "holds H h4 (agreed_headers acc ext)" "list_all good_header h4"
    and "accept_response cs [ext] = Ok (Some cli)" "cfg_deflate cc = Some cs" "status_from_u16 H 101 = Some 101"
  obtains resp where
    "response_from_httparse H \<lparr>raw_response_version = Some 1, raw_code = Some 101, raw_response_headers = h4\<rparr> = Ok resp"
    "verify_response H \<lparr>accept_key = acc, subprotocols = None\<rparr> resp = Ok resp"
    "agree_deflate H resp (Some cc) = Ok (Some (cc\<lparr>cfg_deflate := Some cli\<rparr>))"
proof -
  obtain h5 where h5: "headers_from_httparse H [] h4 = Ok h5" "holds H h5 h4"
    using headers_from_httparse_ok [OF assms(1,2,4) holds_Nil [OF assms(1)]] by auto
  let ?resp = "\<lparr>rp_status = 101, rp_version = Http11, rp_headers = h5, rp_body = None\<rparr> :: bytes option http_reply"
  have "holds H (rp_headers ?resp) (agreed_headers acc ext)"
    using h5(2) assms(3) by (simp add: holds_def header_map_lawsD(7) [OF assms(1)])
  from verify_agreed [OF assms(1,2) this _ assms(5,6)]
  have "verify_response H \<lparr>accept_key = acc, subprotocols = None\<rparr> ?resp = Ok ?resp"
    "agree_deflate H ?resp (Some cc) = Ok (Some (cc\<lparr>cfg_deflate := Some cli\<rparr>))" by simp_all
  moreover have "response_from_httparse H \<lparr>raw_response_version = Some 1, raw_code = Some 101,
      raw_response_headers = h4\<rparr> = Ok ?resp"
    using h5(1) assms(7) by (simp add: response_from_httparse_def)
  ultimately show thesis using that by blast
qed

text \<open>
  Claim C8. Two endpoints of this crate complete the opening handshake with each other: the
  request a client makes of a URI, read back line by line by the server's HTTP parser, is
  accepted by \<open>create_response\<close>; the response the server writes, read back by the client's
  parser, passes \<open>verify_response\<close>; and the compression settings that the two ends are left
  with fit together.
\<close>

theorem handshake_agrees:
  assumes "header_map_laws H" "header_text_laws H" "base64_laws H" "length key_bytes = 16"
    and "uri_authority H uri = Some authority" "uri_mode H uri = Ok mode"
    and "uri_path_and_query H uri = Some path" "uri_parse H path = Some uri1" "status_from_u16 H 101 = Some 101"
    and "host = (case split_once 64 authority of Some (_, after) \<Rightarrow> after | None \<Rightarrow> authority)"
    and "host \<noteq> []" "ascii_text host"
    and "cfg_deflate cc = Some cs" "settings_ok cs" "cfg_deflate sc = Some ss" "settings_ok ss"
  shows "\<exists>request role lines sreq response reply text srv cli.
    uri_into_client_request H key_bytes uri = Ok request \<and>
    client_start H request (Some cc) = Ok (role, start_write
      (ascii ''GET '' @ path @ [32] @ ascii ''HTTP/1.1'' @ [13, 10] @ concat (map header_line lines) @ [13, 10])) \<and>
    request_from_httparse H \<lparr>raw_method = Some (ascii ''GET''), raw_path = Some path, raw_version = Some 1,
      raw_headers = lines\<rparr> = Ok sreq \<and>
    create_response H sreq = Ok response \<and>
    answer_extensions H sreq response (Some sc) = Ok (reply, Some (sc\<lparr>cfg_deflate := Some srv\<rparr>)) \<and>
    write_response H reply = Ok text \<and>
    text = ascii ''HTTP/1.1'' @ [32] @ status_display H 101 @ [13, 10] @
      concat (map header_line (rp_headers reply)) @ [13, 10] \<and>
    (\<exists>resp. response_from_httparse H \<lparr>raw_response_version = Some 1, raw_code = Some 101,
        raw_response_headers = rp_headers reply\<rparr> = Ok resp \<and>
      verify_response H (ch_verify_data role) resp = Ok resp \<and>
      agree_deflate H resp (ch_config role) = Ok (Some (cc\<lparr>cfg_deflate := Some cli\<rparr>))) \<and>
    settings_fit cli srv"
proof -
  have "accepts_ascii (header_value_str H)"
    using header_text_lawsD(3) [OF assms(2)] by (simp add: accepts_ascii_def)
  from negotiation_succeeds [OF assms(14,16) this] obtain off ext srv cli where
    neg: "offer (header_value_str H) cs = Ok off" "accept_offers (header_value_str H) ss [off] = Ok (Some (srv, ext))"
      "accept_response cs [ext] = Ok (Some cli)" "settings_fit cli srv" "ascii_text off" "ascii_text ext"
    by (auto simp: settings_fit_def)
  let ?key = "generate_key H key_bytes"
  let ?acc = "derive_accept_key H ?key"
  have key: "ascii_text ?key" "is_valid_sec_websocket_key H ?key"
    using assms(3,4)
    by (auto simp: base64_laws_def generate_key_def is_valid_sec_websocket_key_def)
  obtain h where h: "uri_into_client_request H key_bytes uri =
      Ok \<lparr>rq_method = ascii ''GET'', rq_uri = uri, rq_version = Http11, rq_headers = h\<rparr>"
    "holds H h (client_headers host ?key)"
    using uri_request_ok [OF assms(1-5,10-12)] by blast
  obtain h1 where h1: "holds H h1 (offer_headers host ?key off)"
    "client_start H \<lparr>rq_method = ascii ''GET'', rq_uri = uri, rq_version = Http11, rq_headers = h\<rparr> (Some cc) =
      Ok (\<lparr>ch_verify_data = \<lparr>accept_key = ?acc, subprotocols = None\<rparr>, ch_config = Some cc\<rparr>,
        start_write (ascii ''GET '' @ path @ [32] @ ascii ''HTTP/1.1'' @ [13, 10] @
          concat (map header_line (request_lines H h1)) @ [13, 10]))"
    using client_start_ok [OF assms(1,2) key(1) assms(12) neg(5) h(2) assms(6,7,13) neg(1)] by blast
  obtain sreq h3 h4 where srv:
    "request_from_httparse H \<lparr>raw_method = Some (ascii ''GET''), raw_path = Some path, raw_version = Some 1,
      raw_headers = request_lines H h1\<rparr> = Ok sreq"
    "create_response H sreq = Ok \<lparr>rp_status = 101, rp_version = Http11, rp_headers = h3, rp_body = ()\<rparr>"
    "answer_extensions H sreq \<lparr>rp_status = 101, rp_version = Http11, rp_headers = h3, rp_body = ()\<rparr> (Some sc) =
      Ok (\<lparr>rp_status = 101, rp_version = Http11, rp_headers = h4, rp_body = ()\<rparr>, Some (sc\<lparr>cfg_deflate := Some srv\<rparr>))"
    and h4: "holds H h4 (agreed_headers ?acc ext)" "list_all good_header h4"
    by (rule request_answered [OF assms(1-3,12) key neg(5) h1(1) assms(8,15) neg(2,6)])
  obtain resp where cli:
    "response_from_httparse H \<lparr>raw_response_version = Some 1, raw_code = Some 101, raw_response_headers = h4\<rparr> = Ok resp"
    "verify_response H \<lparr>accept_key = ?acc, subprotocols = None\<rparr> resp = Ok resp"
    "agree_deflate H resp (Some cc) = Ok (Some (cc\<lparr>cfg_deflate := Some cli\<rparr>))"
    by (rule response_accepted [OF assms(1,2) h4 neg(3) assms(13,9)])
  let ?reply = "\<lparr>rp_status = 101, rp_version = Http11, rp_headers = h4, rp_body = ()\<rparr>"
  have wr: "write_response H ?reply = Ok (ascii ''HTTP/1.1'' @ [32] @ status_display H 101 @ [13, 10] @
      concat (map header_line h4) @ [13, 10])"
    using write_header_lines_ok [OF assms(2) h4(2)] by (simp add: write_response_def del: ascii_simps)
  show ?thesis
    using h(1) h1(2) srv cli wr neg(4)
    by (intro exI [where x = ?reply] exI [where x = sreq] exI conjI) (assumption | simp del: ascii_simps)+
qed

lemma sample_base64: "base64_laws sample_http"
proof -
  have "ascii_text (replicate n 65)" for n by (induction n) simp_all
  then show ?thesis by (simp add: base64_laws_def sample_library_def)
qed

definition deflate_with :: "settings \<Rightarrow> config" where
  "deflate_with s = default_config\<lparr>cfg_deflate := Some s\<rparr>"

theorem handshake_agrees_witness:
  "\<exists>request role req srv cli.
    uri_into_client_request sample_http (replicate 16 0) (ascii ''example.com'') = Ok request \<and>
    client_start sample_http request (Some (deflate_with default_settings)) = Ok (role, start_write req) \<and>
    settings_fit cli srv"
proof -
  have facts: "uri_authority sample_http (ascii ''example.com'') = Some (ascii ''example.com'')"
    "uri_mode sample_http (ascii ''example.com'') = Ok PlainMode"
    "uri_path_and_query sample_http (ascii ''example.com'') = Some (ascii ''/'')"
    "uri_parse sample_http (ascii ''/'') = Some (ascii ''/'')" "status_from_u16 sample_http 101 = Some 101"
    "ascii ''example.com'' = (case split_once 64 (ascii ''example.com'') of Some (_, after) \<Rightarrow> after
      | None \<Rightarrow> ascii ''example.com'')"
    by code_simp+
  have host: "ascii ''example.com'' \<noteq> []" "ascii_text (ascii ''example.com'')" "length (replicate 16 (0 :: u8)) = 16"
    by simp_all
  have conf: "cfg_deflate (deflate_with default_settings) = Some default_settings"
    "cfg_deflate (deflate_with (default_settings\<lparr>server_max_window_bits := 12\<rparr>)) =
      Some (default_settings\<lparr>server_max_window_bits := 12\<rparr>)"
    "settings_ok (default_settings\<lparr>server_max_window_bits := 12\<rparr>)"
    by (simp_all add: deflate_with_def settings_ok_def default_settings_def)
  show ?thesis
    using handshake_agrees [OF sample_header_map sample_header_text sample_base64 host(3) facts host(1,2)
        conf(1) settings_ok_default conf(2,3)]
    by blast
qed

end
