(* ===== verification/Connect_Props.thy ===== *)
theory Connect_Props
  imports Connect Handshake_Agreement
begin

text \<open>
  The properties of connecting: an attempt at a \<open>wss\<close> URL runs over TLS or fails, \<open>connect\<close>
  makes a bounded number of attempts and each but the last was answered with a redirect, and a
  connection that an entry point opens is new: nothing is queued in it.
\<close>

section \<open>TLS or not\<close>

text \<open>
  With a \<open>ws\<close> URL that has a host, the TLS entry points are the plain ones: whatever
  the features and the connector, \<open>client_tls_with_config\<close> runs the handshake of
  \<open>client_with_config\<close> on the stream as it is.
\<close>

theorem ws_is_plain:
  assumes "into = Ok request" "uri_mode H (rq_uri request) = Ok PlainMode" "uri_host H (rq_uri request) = Some host"
  shows "client_tls_with_config F L fl H cap into stream conf conn = client_with_config fl H cap into stream conf"
  using assms by (simp add: client_tls_with_config_def tls_prepare_def)

definition transparent_tls :: "(world, unit, unit, unit, unit) tls_lib" where
  "transparent_tls = \<lparr>native_connector_new = Some (), native_connect = (\<lambda>c d w. NativeConnected w),
     native_certs = [], root_store_empty = (), add_parsable_certificates = (\<lambda>certs r. r), add_webpki_roots = id,
     client_config_build = Some, server_name = (\<lambda>d. if take 1 d = [91] then None else Some d),
     client_connection_new = (\<lambda>g d. Some ()), native_view = id, rustls_view = snd\<rparr>"

definition native_build :: features where
  "native_build = \<lparr>feature_native_tls = True, feature_rustls_tls = False, feature_native_roots = False,
     feature_webpki_roots = False\<rparr>"

lemma sample_uri [simp]:
  "uri_mode (sample_library scheme) u = Ok scheme" "uri_host (sample_library scheme) u = Some u"
  by (simp_all add: uri_mode_def sample_library_def split: stream_mode.split)

theorem ws_is_plain_witness:
  "client_tls_with_config native_build transparent_tls copying sample_http 2 (Ok sample_client_request)
      (handshake_world [RdBytes [82, 129, 0]]) None (Some PlainConnector) =
    client_with_config copying sample_http 2 (Ok sample_client_request) (handshake_world [RdBytes [82, 129, 0]]) None"
  by (rule ws_is_plain [OF refl]) simp_all

text \<open>
  Claim C14. A \<open>wss\<close> URL never runs over an unprotected stream: when the handshake succeeds, it
  ran on a session that a TLS library made over the socket for exactly the host of the URL
  (with the connector of the caller, if there is one), and nothing of it went to the socket
  itself. A plain connector, or a build without a TLS backend, ends in an error instead.
\<close>

theorem wss_is_encrypted:
  assumes "client_tls_with_config F L fl H cap (Ok request) stream conf conn = Some (Ok y, w)"
    and "uri_mode H (rq_uri request) = Ok TlsMode"
  shows "\<exists>host st. uri_host H (rq_uri request) = Some host \<and> session_for F L stream host conn st \<and>
    (\<forall>s. st \<noteq> PlainStream s) \<and> conn \<noteq> Some PlainConnector \<and>
    client_with_config fl H cap (Ok request) (stream_view L st) conf = Some (Ok y, w)"
proof -
  obtain st host where p: "uri_host H (rq_uri request) = Some host" "wrap_stream F L stream host TlsMode conn = Ok st"
    and c: "client_with_config fl H cap (Ok request) (stream_view L st) conf = Some (Ok y, w)"
    using client_tls_Ok [OF assms(1)] assms(2) by (auto simp: tls_prepare_Ok)
  have "session_for F L stream host conn st" by (rule wrap_stream_tls [OF p(2)])
  moreover have "conn \<noteq> Some PlainConnector" using p(2) by (auto simp: wrap_stream_def plain_wrap_stream_def)
  ultimately show ?thesis using p(1) c session_not_plain by metis
qed

lemma sample_tls:
  "\<exists>x. client_tls_with_config native_build transparent_tls copying (sample_library TlsMode) 2 (Ok sample_client_request)
      (handshake_world [RdBytes [82, 129, 0]]) None None =
    Some (Ok (x, sample_client_reply), (handshake_world [])\<lparr>sent := sample_client_text\<rparr>)"
  using sample_client [of TlsMode]
  by (simp add: client_tls_with_config_def tls_prepare_def wrap_stream_def native_wrap_stream_def native_build_def
      transparent_tls_def)

theorem wss_is_encrypted_witness:
  "\<exists>st. session_for native_build transparent_tls (handshake_world [RdBytes [82, 129, 0]]) (ascii ''example.com'') None st \<and>
    (\<forall>s. st \<noteq> PlainStream s)"
proof -
  obtain x where x: "client_tls_with_config native_build transparent_tls copying (sample_library TlsMode) 2
      (Ok sample_client_request) (handshake_world [RdBytes [82, 129, 0]]) None None =
    Some (Ok (x, sample_client_reply), (handshake_world [])\<lparr>sent := sample_client_text\<rparr>)"
    using sample_tls by blast
  have "uri_host (sample_library TlsMode) (rq_uri sample_client_request) = Some (ascii ''example.com'')"
    by (simp add: sample_client_request_def)
  with wss_is_encrypted [OF x] show ?thesis by (auto simp: sample_uri(1) simp del: ascii_simps)
qed

section \<open>An attempt\<close>

lemma client_over_returns: "\<exists>r. client_over F L fl H cap request stream conf = Some r"
proof (cases "tls_prepare F L H (Ok request) stream None")
  case (Ok rs)
  then show ?thesis
    using client_with_config_returns [of fl H cap "Ok (fst rs)" "stream_view L (snd rs)" conf]
      client_with_config_returns [of fl H cap "Ok request" stream conf]
    by (cases rs) (simp add: client_over_def client_tls_with_config_def)
qed (use client_with_config_returns [of fl H cap "Ok request" stream conf] in
    \<open>simp_all add: client_over_def client_tls_with_config_def\<close>)

lemma try_client_handshake_returns: "\<exists>r. try_client_handshake F L fl H cap net n request conf = Some r"
proof (cases "open_stream F H net n (rq_uri request)")
  case (Ok stream)
  obtain r where "client_over F L fl H cap request stream conf = Some r" using client_over_returns by blast
  then show ?thesis
    using Ok by (auto simp: try_client_handshake_def split: prod.split outcome.split handshake_error.split)
qed (simp_all add: try_client_handshake_def)

lemma try_client_handshake_Ok:
  assumes "try_client_handshake F L fl H cap net n request conf = Some (Ok ((x, w), response))"
  shows "\<exists>stream. open_stream F H net n (rq_uri request) = Ok stream \<and>
    client_over F L fl H cap request stream conf = Some (Ok (x, response), w)"
  using assms by (auto simp: try_client_handshake_def split: outcome.splits option.splits prod.splits handshake_error.splits)

text \<open>The stream that the handshake of an attempt runs on.\<close>

lemma client_over_Ok:
  assumes "client_over F L fl H cap request stream conf = Some (Ok y, w)"
  shows "\<exists>view. client_with_config fl H cap (Ok request) view conf = Some (Ok y, w)"
proof (cases "tls_enabled F")
  case True
  then have "client_tls_with_config F L fl H cap (Ok request) stream conf None = Some (Ok y, w)"
    using assms by (simp add: client_over_def)
  from client_tls_Ok [OF this] show ?thesis by (auto simp: tls_prepare_Ok)
next
  case False
  then show ?thesis using assms by (auto simp: client_over_def)
qed

section \<open>Redirects\<close>

text \<open>The URL that a response redirects to, when it has a \<open>Location\<close>.\<close>

definition redirect_target :: "'u http_lib \<Rightarrow> http_response \<Rightarrow> bytes option" where
  "redirect_target H res =
     (if status_is_redirection H (resp_status res) then hm_get H (ascii ''Location'') (resp_headers res) else None)"

text \<open>
  The attempts of \<open>connect\<close>, with \<open>answers left uri\<close> for one of them: from \<open>(left0, uri0)\<close>, each
  attempt that is answered with a redirect leads to the next one, and uses up one redirect.
\<close>

inductive follows ::
  "'u http_lib \<Rightarrow> (nat \<Rightarrow> 'u \<Rightarrow> 'r result option) \<Rightarrow> nat \<Rightarrow> 'u \<Rightarrow> nat \<Rightarrow> 'u \<Rightarrow> bool"
  for H :: "'u http_lib" and answers :: "nat \<Rightarrow> 'u \<Rightarrow> 'r result option" and left0 :: nat and uri0 :: 'u where
  here: "follows H answers left0 uri0 left0 uri0"
| redirected: "follows H answers left0 uri0 (Suc left) uri \<Longrightarrow> answers (Suc left) uri = Some (Err (Http res)) \<Longrightarrow>
    redirect_target H res = Some location \<Longrightarrow> to_str H location = Some s \<Longrightarrow> uri_parse H s = Some uri1 \<Longrightarrow>
    follows H answers left0 uri0 left uri1"

lemma follows_left: "follows H answers left0 uri0 left uri \<Longrightarrow> left \<le> left0"
  by (induction rule: follows.induct) auto

lemma follows_from:
  assumes "answers (Suc left0) uri0 = Some (Err (Http res))" "redirect_target H res = Some location"
    and "to_str H location = Some s" "uri_parse H s = Some uri1" "follows H answers left0 uri1 left uri"
  shows "follows H answers (Suc left0) uri0 left uri"
  using assms(5)
proof (induction rule: follows.induct)
  case here
  show ?case by (rule follows.redirected [where answers = answers and left = left0 and uri = uri0, OF follows.here assms(1-4)])
next
  case (redirected left uri res' location' s' uri')
  show ?case by (rule follows.redirected [OF redirected.IH redirected.hyps(2-5)])
qed

text \<open>How the last attempt ends the loop.\<close>

definition ends_with :: "'u http_lib \<Rightarrow> nat \<Rightarrow> 'r result \<Rightarrow> 'r result \<Rightarrow> bool" where
  "ends_with H left answer r \<longleftrightarrow>
     r = answer \<and> (left = 0 \<or> (\<forall>res. answer = Err (Http res) \<longrightarrow> redirect_target H res = None)) \<or>
     0 < left \<and> (\<exists>res location. answer = Err (Http res) \<and> redirect_target H res = Some location \<and>
       (to_str H location = None \<and> r = Err error_from_to_str \<or>
        (\<exists>s. to_str H location = Some s \<and> uri_parse H s = None \<and> r = Err error_from_invalid_uri)))"

lemma connect_attempts_follow:
  assumes "\<And>left uri. attempt left uri = try_client_handshake F L fl H cap net left (create_request parts uri) conf"
  shows "\<exists>left uri answer r. connect_attempts left0 F L fl H cap net parts conf uri0 = Some r \<and>
    follows H attempt left0 uri0 left uri \<and> attempt left uri = Some answer \<and> ends_with H left answer r"
proof (induction left0 arbitrary: uri0)
  case 0
  obtain r where "try_client_handshake F L fl H cap net 0 (create_request parts uri0) conf = Some r"
    using try_client_handshake_returns by blast
  then show ?case using assms [of 0 uri0] follows.here [of H attempt 0 uri0] by (fastforce simp: ends_with_def)
next
  case (Suc left0)
  obtain answer where t: "try_client_handshake F L fl H cap net (Suc left0) (create_request parts uri0) conf = Some answer"
    using try_client_handshake_returns by blast
  note at = assms [of "Suc left0" uri0, unfolded t]
  note here = follows.here [of H attempt "Suc left0" uri0]
  show ?case
  proof (cases "\<exists>res location. answer = Err (Http res) \<and> redirect_target H res = Some location")
    case True
    then obtain res location where r: "answer = Err (Http res)" "redirect_target H res = Some location" by blast
    then have red: "status_is_redirection H (resp_status res)" "hm_get H (ascii ''Location'') (resp_headers res) = Some location"
      by (auto simp: redirect_target_def simp del: ascii_simps split: if_splits)
    show ?thesis
    proof (cases "to_str H location")
      case None
      then have "connect_attempts (Suc left0) F L fl H cap net parts conf uri0 = Some (Err error_from_to_str)"
        using t r red by (simp del: ascii_simps)
      moreover have "ends_with H (Suc left0) answer (Err error_from_to_str)" using r None by (auto simp: ends_with_def)
      ultimately show ?thesis using here at by blast
    next
      case s: (Some s)
      show ?thesis
      proof (cases "uri_parse H s")
        case None
        then have "connect_attempts (Suc left0) F L fl H cap net parts conf uri0 = Some (Err error_from_invalid_uri)"
          using t r red s by (simp del: ascii_simps)
        moreover have "ends_with H (Suc left0) answer (Err error_from_invalid_uri)"
          using r s None by (auto simp: ends_with_def)
        ultimately show ?thesis using here at by blast
      next
        case (Some uri1)
        obtain left uri answer' r' where ih: "connect_attempts left0 F L fl H cap net parts conf uri1 = Some r'"
          "follows H attempt left0 uri1 left uri" "attempt left uri = Some answer'" "ends_with H left answer' r'"
          using Suc.IH [of uri1] by blast
        have "connect_attempts (Suc left0) F L fl H cap net parts conf uri0 = Some r'"
          using t r red s Some ih(1) by (simp del: ascii_simps)
        with follows_from [OF at [unfolded r(1)] r(2) s Some ih(2)] ih(3,4) show ?thesis by blast
      qed
    qed
  next
    case False
    then have "connect_attempts (Suc left0) F L fl H cap net parts conf uri0 = Some answer"
      using t by (auto simp: redirect_target_def simp del: ascii_simps split: outcome.split error.split option.split)
    moreover have "ends_with H (Suc left0) answer answer" using False by (auto simp: ends_with_def)
    ultimately show ?thesis using here at by blast
  qed
qed

text \<open>
  The opening handshake returns on every world: \<open>accept\<close> (with any callback), \<open>client\<close> and
  \<open>client_tls\<close> end with a connection, an error, an interruption or a panic, and \<open>connect\<close> ends
  after its redirects. How many rounds that takes is the subject of Handshake_Rounds.
\<close>

theorem handshake_terminates:
  "accept_hdr_with_config fl H stream cb conf \<noteq> None \<and>
   client_with_config fl H cap into stream conf \<noteq> None \<and>
   client_tls_with_config F L fl H cap into stream conf conn \<noteq> None \<and>
   connect_with_config F L fl H cap net into conf redirects \<noteq> None"
proof -
  have tls: "client_tls_with_config F L fl H cap into stream conf conn \<noteq> None"
    using client_with_config_returns [of fl H cap]
    by (auto simp: client_tls_with_config_def split: outcome.split)
  have "connect_attempts redirects F L fl H cap net parts conf uri \<noteq> None" for parts uri
    using connect_attempts_follow [OF refl, of redirects F L fl H cap net parts conf uri] by auto
  then have "connect_with_config F L fl H cap net into conf redirects \<noteq> None"
    by (simp add: connect_with_config_def split: outcome.split)
  then show ?thesis
    using tls accept_returns [of fl H stream cb conf] client_with_config_returns [of fl H cap into stream conf] by auto
qed

text \<open>
  Claim C15. \<open>connect\<close> makes at most one attempt more than it may follow redirects: it goes from
  the URL of the request from redirect to redirect, each attempt but the last was answered with
  a response that redirects to the URL of the next, and what the last attempt answers is what
  \<open>connect\<close> returns, unless it is one more redirect to something that is not a URL.
\<close>

theorem connect_follows_redirects:
  "\<exists>left uri answer r.
    connect_with_config F L fl H cap net (Ok parts) conf redirects = Some r \<and> left \<le> redirects \<and>
    follows H (\<lambda>left uri. try_client_handshake F L fl H cap net left (create_request parts uri) conf)
      redirects (rq_uri parts) left uri \<and>
    try_client_handshake F L fl H cap net left (create_request parts uri) conf = Some answer \<and>
    ends_with H left answer r"
  using connect_attempts_follow [OF refl, of redirects F L fl H cap net parts conf "rq_uri parts"] follows_left
  by (fastforce simp: connect_with_config_def)

definition open_network :: "nat network" where
  "open_network = \<lparr>resolve = (\<lambda>host port. Ok [port]), tcp_connect = (\<lambda>n a. Some (handshake_world [RdBytes [82, 129, 0]])),
     set_nodelay = Ok\<rparr>"

section \<open>Connections that have been opened\<close>

lemma open_stream_secure:
  assumes "open_stream F H net n uri = Ok stream"
  shows "\<exists>mode host. uri_mode H uri = Ok mode \<and> uri_host H uri = Some host \<and> (mode = TlsMode \<longrightarrow> tls_enabled F)"
  using assms by (auto simp: open_stream_def bind_out_Ok_iff split: if_splits)

lemma connect_Ok:
  assumes "connect_with_config F L fl H cap net into conf redirects = Some (Ok ((x, w), response))"
  shows "\<exists>parts left uri stream. into = Ok parts \<and> left \<le> redirects \<and>
    follows H (\<lambda>left uri. try_client_handshake F L fl H cap net left (create_request parts uri) conf)
      redirects (rq_uri parts) left uri \<and>
    open_stream F H net left uri = Ok stream \<and>
    client_over F L fl H cap (create_request parts uri) stream conf = Some (Ok (x, response), w)"
proof -
  obtain parts where into: "into = Ok parts" using assms by (cases into) (auto simp: connect_with_config_def)
  let ?att = "\<lambda>left uri. try_client_handshake F L fl H cap net left (create_request parts uri) conf"
  obtain left uri answer where f: "follows H ?att redirects (rq_uri parts) left uri" "?att left uri = Some answer"
    "ends_with H left answer (Ok ((x, w), response))"
    using connect_attempts_follow [OF refl, of redirects F L fl H cap net parts conf "rq_uri parts"] assms into
    by (auto simp: connect_with_config_def)
  have "answer = Ok ((x, w), response)" using f(3) by (auto simp: ends_with_def)
  with f(2) have "?att left uri = Some (Ok ((x, w), response))" by simp
  from try_client_handshake_Ok [OF this] obtain stream where
    "open_stream F H net left uri = Ok stream"
    "client_over F L fl H cap (create_request parts uri) stream conf = Some (Ok (x, response), w)"
    by (auto simp: create_request_def)
  then show ?thesis using into f(1) follows_left [OF f(1)] by blast
qed

text \<open>
  Claim C13. When \<open>connect\<close> returns a WebSocket, its handshake was done with a URL that the
  redirects lead to from the URL asked for, over a socket opened for that URL; and if that URL
  is a \<open>wss\<close> URL, over a TLS session on this socket for the host of the URL.
\<close>

theorem connected_over_tls:
  assumes "connect_with_config F L fl H cap net (Ok parts) conf redirects = Some (Ok ((x, w), response))"
  shows "\<exists>left uri stream st host. left \<le> redirects \<and>
    follows H (\<lambda>left uri. try_client_handshake F L fl H cap net left (create_request parts uri) conf)
      redirects (rq_uri parts) left uri \<and>
    open_stream F H net left uri = Ok stream \<and> uri_host H uri = Some host \<and>
    (uri_mode H uri = Ok PlainMode \<and> st = PlainStream stream \<or>
     uri_mode H uri = Ok TlsMode \<and> session_for F L stream host None st) \<and>
    client_with_config fl H cap (Ok (create_request parts uri)) (stream_view L st) conf = Some (Ok (x, response), w)"
proof -
  obtain left uri stream where c: "left \<le> redirects"
    "follows H (\<lambda>left uri. try_client_handshake F L fl H cap net left (create_request parts uri) conf)
      redirects (rq_uri parts) left uri"
    "open_stream F H net left uri = Ok stream"
    "client_over F L fl H cap (create_request parts uri) stream conf = Some (Ok (x, response), w)"
    using connect_Ok [OF assms] by auto
  obtain mode host where m: "uri_mode H uri = Ok mode" "uri_host H uri = Some host" "mode = TlsMode \<longrightarrow> tls_enabled F"
    using open_stream_secure [OF c(3)] by blast
  have u: "rq_uri (create_request parts uri) = uri" by (simp add: create_request_def)
  have "\<exists>st. (uri_mode H uri = Ok PlainMode \<and> st = PlainStream stream \<or>
      uri_mode H uri = Ok TlsMode \<and> session_for F L stream host None st) \<and>
    client_with_config fl H cap (Ok (create_request parts uri)) (stream_view L st) conf = Some (Ok (x, response), w)"
  proof (cases "tls_enabled F")
    case True
    then have "client_tls_with_config F L fl H cap (Ok (create_request parts uri)) stream conf None =
        Some (Ok (x, response), w)" using c(4) by (simp add: client_over_def)
    from client_tls_Ok [OF this] obtain st where st: "wrap_stream F L stream host mode None = Ok st"
      "client_with_config fl H cap (Ok (create_request parts uri)) (stream_view L st) conf = Some (Ok (x, response), w)"
      using m(1,2) u by (auto simp: tls_prepare_Ok)
    then show ?thesis using m(1) wrap_stream_tls [of F L stream host None st] by (cases mode) auto
  next
    case False
    then have "mode = PlainMode" using m(3) by (cases mode) auto
    then show ?thesis using m(1) c(4) False by (intro exI [of _ "PlainStream stream"]) (simp add: client_over_def)
  qed
  then show ?thesis using c(1-3) m(2) by blast
qed

lemma sample_connect:
  "\<exists>x. connect_with_config native_build transparent_tls copying (sample_library TlsMode) 2 open_network
      (Ok sample_client_request) None 3 =
    Some (Ok ((x, (handshake_world [])\<lparr>sent := sample_client_text\<rparr>), sample_client_reply))"
proof -
  have req: "create_request sample_client_request (rq_uri sample_client_request) = sample_client_request"
    by (simp add: create_request_def)
  have opened: "open_stream native_build (sample_library TlsMode) open_network n (rq_uri sample_client_request) =
      Ok (handshake_world [RdBytes [82, 129, 0]])" for n
    by (simp add: open_stream_def native_build_def tls_enabled_def bare_host_def open_network_def lift_to_error_def
        sample_client_request_def Let_def)
  obtain x where "client_tls_with_config native_build transparent_tls copying (sample_library TlsMode) 2
      (Ok sample_client_request) (handshake_world [RdBytes [82, 129, 0]]) None None =
    Some (Ok (x, sample_client_reply), (handshake_world [])\<lparr>sent := sample_client_text\<rparr>)"
    using sample_tls by blast
  then have "try_client_handshake native_build transparent_tls copying (sample_library TlsMode) 2 open_network n
      sample_client_request None = Some (Ok ((x, (handshake_world [])\<lparr>sent := sample_client_text\<rparr>), sample_client_reply))" for n
    using opened by (simp add: try_client_handshake_def client_over_def native_build_def tls_enabled_def)
  then show ?thesis by (simp add: connect_with_config_def req eval_nat_numeral del: ascii_simps)
qed

theorem connected_over_tls_witness:
  "\<exists>uri host stream st. uri_mode (sample_library TlsMode) uri = Ok TlsMode \<and>
     session_for native_build transparent_tls stream host None st"
proof -
  obtain x where x: "connect_with_config native_build transparent_tls copying (sample_library TlsMode) 2 open_network
      (Ok sample_client_request) None 3 =
    Some (Ok ((x, (handshake_world [])\<lparr>sent := sample_client_text\<rparr>), sample_client_reply))"
    using sample_connect by blast
  from connected_over_tls [OF x] show ?thesis by auto
qed

lemma client_opened:
  assumes "client_with_config fl H cap into stream conf = Some (Ok (x, response), w)"
  shows "ctx_role x = Client \<and> ctx_opened fl Client x"
proof -
  obtain request where "into = Ok request"
    using assms by (cases into) (auto simp: client_with_config_def)
  with client_done [of fl H cap request stream conf x response w] assms show ?thesis
    by (auto simp: client_post_def client_agreed_def)
qed

lemma ctx_new_opened: "ctx_new fl r conf = Ok x \<Longrightarrow> ctx_opened fl r x"
  using ctx_create_fields [of fl r "codec_new (read_buffer_size (config_or_default conf))" "config_or_default conf" x]
  by (auto simp: ctx_new_def codec_with_capacity_def ctx_opened_def codec_new_def Let_def split: if_splits)

lemma opened_reachable: "ctx_opened fl r x \<Longrightarrow> cfg x \<in> C \<Longrightarrow> reachable fl r C (x, w)"
  by (auto simp: ctx_opened_def intro: reachable.start)

section \<open>What a redirect does not change\<close>

text \<open>
  An attempt after a redirect sends the headers of the first request, \<open>Host\<close> included: the
  request that goes to the new URL names the host of the old one.
\<close>

theorem redirect_keeps_host:
  assumes "header_map_laws H" "header_text_laws H" "base64_laws H" "length key_bytes = 16"
    and "uri_authority H uri = Some host" "split_once 64 host = None" "host \<noteq> []" "ascii_text host"
  shows "\<exists>parts. uri_into_client_request H key_bytes uri = Ok parts \<and>
    hm_get H (ascii ''Host'') (rq_headers (create_request parts uri1)) = Some host"
proof -
  have v: "values_of (ascii ''Host'') (client_headers host (generate_key H key_bytes)) = [host]"
    by (simp add: client_headers_def same_name_def eq_ignore_ascii_case_def ascii_lower_def)
  from uri_request_ok [OF assms(1-5), of host] assms(6-8) obtain h where
    "uri_into_client_request H key_bytes uri =
      Ok \<lparr>rq_method = ascii ''GET'', rq_uri = uri, rq_version = Http11, rq_headers = h\<rparr>"
    "holds H h (client_headers host (generate_key H key_bytes))" by auto
  with holds_get [OF assms(1) this(2) v] show ?thesis by (simp add: create_request_def del: ascii_simps)
qed

end
