(* ===== verification/Session.thy ===== *)
theory Session
  imports WebSocket_Safety WebSocket_Api Connect_Props
begin

text \<open>
  The crate as its user has it: a connection is opened by \<open>accept\<close>, \<open>client\<close>, \<open>client_tls\<close> or
  \<open>connect\<close>, and then used through the public methods of \<open>WebSocket\<close>.
\<close>

section \<open>Opening\<close>

definition opens ::
  "features \<Rightarrow> ('t, 'k, 'n, 'g, 'r) tls_lib \<Rightarrow> ('c, 'd) flate \<Rightarrow> 'u http_lib \<Rightarrow> role \<Rightarrow> ('c, 'd) ws \<Rightarrow> bool" where
  "opens F L fl H r s \<longleftrightarrow>
     (\<exists>stream cb conf. r = Server \<and> accept_hdr_with_config fl H stream cb conf = Some (Ok (fst s), snd s)) \<or>
     (\<exists>cap into stream conf response. r = Client \<and>
        client_with_config fl H cap into stream conf = Some (Ok (fst s, response), snd s)) \<or>
     (\<exists>cap into stream conf conn response. r = Client \<and>
        client_tls_with_config F L fl H cap into stream conf conn = Some (Ok (fst s, response), snd s)) \<or>
     (\<exists>cap (net :: nat network) into conf redirects response. r = Client \<and>
        connect_with_config F L fl H cap net into conf redirects = Some (Ok (s, response)))"

lemma accept_opened: "accept_hdr_with_config fl H stream cb conf = Some (Ok x, w) \<Longrightarrow> ctx_opened fl Server x"
  using accept_done ctx_new_opened by (fastforce simp: server_post_def)

lemma client_tls_opened:
  "client_tls_with_config F L fl H cap into stream conf conn = Some (Ok (x, response), w) \<Longrightarrow> ctx_opened fl Client x"
  using client_tls_Ok client_opened by blast

lemma connect_opened:
  assumes "connect_with_config F L fl H cap net into conf redirects = Some (Ok (s, response))"
  shows "ctx_opened fl Client (fst s)"
proof -
  have "connect_with_config F L fl H cap net into conf redirects = Some (Ok ((fst s, snd s), response))"
    using assms by simp
  from connect_Ok [OF this] show ?thesis using client_over_Ok client_opened by blast
qed

lemma opens_opened: "opens F L fl H r s \<Longrightarrow> ctx_opened fl r (fst s)"
  unfolding opens_def
  by (elim disjE exE conjE) (auto dest: accept_opened client_opened client_tls_opened connect_opened)

lemma opens_reachable: "opens F L fl H r s \<Longrightarrow> cfg (fst s) \<in> C \<Longrightarrow> reachable fl r C s"
  using opened_reachable [OF opens_opened, of F L fl H r s C "snd s"] by simp

lemma run_ops_safe:
  assumes "\<And>opn u. opn \<in> set ops \<Longrightarrow> P u \<Longrightarrow> safe (run_op fl opn u) \<and> P (snd (run_op fl opn u))" "P t"
  shows "safe (run_ops fl ops t)"
  using assms
proof (induction fl ops t rule: run_ops.induct)
  case (3 fl opn opn2 ops t)
  have now: "safe (run_op fl opn t)" "P (snd (run_op fl opn t))" using 3(2,3) by simp_all
  show ?case
    unfolding run_ops.simps
  proof (rule safe_and_then [OF now(1)])
    fix res u assume "run_op fl opn t = (Ok res, u)"
    with now(2) show "safe (run_ops fl (opn2 # ops) u)" by (intro 3(1)) (use 3(2) in auto)
  qed
qed (simp_all add: safe_def)

section \<open>No call panics\<close>

definition call_fits :: "nat \<Rightarrow> api_call \<Rightarrow> bool" where
  "call_fits N call \<longleftrightarrow> list_all (op_fits N) (api_ops call)"

text \<open>The invariant of a session: a reachable connection that has room for what may still arrive.\<close>

definition in_session :: "('c, 'd) flate \<Rightarrow> role \<Rightarrow> config set \<Rightarrow> nat \<Rightarrow> ('c, 'd) ws \<Rightarrow> bool" where
  "in_session fl r C m t \<longleftrightarrow> reachable fl r C t \<and> ws_left t + max m header_max_size \<le> isize_max"

lemma run_op_in_session: "in_session fl r C m t \<Longrightarrow> in_session fl r C m (snd (run_op fl opn t))"
  using run_op_reachable [of fl r C t opn] run_op_steady [of t fl opn]
  by (simp add: in_session_def steady_rel_def)

lemma api_step_in_session:
  assumes "decompress_fits fl" "compress_fits fl N" "\<forall>c \<in> C. limits m c"
    and "call_fits N call" "call_within C call" "in_session fl r C m t"
  shows "safe (api_step fl call t) \<and> in_session fl r C m (snd (api_step fl call t))"
proof (cases "reconfigures call")
  case True
  then obtain f where f: "call = ApiSetConfig f" by (cases call) simp_all
  have "cfg (fst t) \<in> C" using reachable_inv [of fl r C t] assms(6) by (simp add: in_session_def)
  note set = api_set_config(1) [OF assms(5) [unfolded f] this, of fl]
  have "ws_left (snd (api_step fl call t)) = ws_left t"
    unfolding f set by (simp add: ws_left_def input_left_def)
  then show ?thesis
    using api_step_reachable [of fl r C t call] assms(5,6) unfolding f set by (simp add: in_session_def safe_def)
next
  case False
  have "safe (run_op fl opn u) \<and> in_session fl r C m (snd (run_op fl opn u))"
    if "opn \<in> set (api_ops call)" "in_session fl r C m u" for opn u
  proof -
    have "steady u" using that(2) reachable_steady [OF _ assms(3), of fl r u] by (simp add: in_session_def)
    then show ?thesis
      using run_op_safe [OF assms(1,2)] run_op_in_session [OF that(2)] assms(4) that(1)
      by (simp add: call_fits_def list_all_iff)
  qed
  then have "safe (run_ops fl (api_ops call) t)" using assms(6) by (rule run_ops_safe)
  then show ?thesis
    unfolding api_step_ops [OF False]
    using run_ops_keeps [where P = "in_session fl r C m", OF run_op_in_session assms(6)] by blast
qed

section \<open>Properties\<close>

text \<open>
  Claim C16. Every connection that the crate opens, and whatever a session of calls makes of it,
  is one that the theorems of the protocol engine are about: a reachable connection in the role
  of the side that opened it, under the configuration that the handshake agreed on and those
  that the application sets later.
\<close>

theorem session_is_reachable:
  assumes "opens F L fl H r s" "cfg (fst s) \<in> C" "list_all (call_within C) calls"
  shows "reachable fl r C (snd (run_session fl calls s))"
  by (rule run_session_reachable [OF opens_reachable [OF assms(1,2)] assms(3)])

lemma sample_opens:
  "\<exists>x. opens native_build transparent_tls copying sample_http Server (x, (handshake_world [])\<lparr>sent := sample_reply_text\<rparr>) \<and>
     cfg x = default_config \<and> in_buffer (frame_codec x) = []"
proof -
  obtain x where x: "ctx_new copying Server None = Ok x" using sample_ctx_new by blast
  have "cfg x = default_config" "in_buffer (frame_codec x) = []"
    using ctx_create_fields [of copying Server "codec_new (read_buffer_size default_config)" default_config x] x
    by (simp_all add: ctx_new_def codec_with_capacity_def config_or_default_def codec_new_def Let_def split: if_splits)
  moreover have "opens native_build transparent_tls copying sample_http Server
      (x, (handshake_world [])\<lparr>sent := sample_reply_text\<rparr>)"
    unfolding opens_def using sample_accept [OF x] by auto
  ultimately show ?thesis by blast
qed

text \<open>The limits of the witnesses are lowered between two reads.\<close>

definition tiny_limits :: "config \<Rightarrow> config" where
  "tiny_limits c = c\<lparr>max_message_size := Some 1, max_frame_size := Some 1\<rparr>"

definition sample_configs :: "config set" where
  "sample_configs = {default_config, tiny_limits default_config}"

definition sample_calls :: "api_call list" where
  "sample_calls = [ApiRead, ApiSetConfig tiny_limits, ApiRead, ApiSend (Text [65]), ApiClose None]"

lemma sample_calls_within: "list_all (call_within sample_configs) sample_calls"
  by (simp add: sample_calls_def sample_configs_def tiny_limits_def default_config_def config_valid_def usize_max_eq)

theorem session_is_reachable_witness:
  "\<exists>s. reachable copying Server sample_configs (snd (run_session copying sample_calls s))"
proof -
  obtain x where x: "opens native_build transparent_tls copying sample_http Server
      (x, (handshake_world [])\<lparr>sent := sample_reply_text\<rparr>)" "cfg x = default_config"
    using sample_opens by blast
  have "cfg (fst (x, (handshake_world [])\<lparr>sent := sample_reply_text\<rparr>)) \<in> sample_configs"
    using x(2) by (simp add: sample_configs_def)
  from session_is_reachable [OF x(1) this sample_calls_within] show ?thesis by blast
qed

text \<open>
  Claim C2. A session never panics: after any of the entry points has opened a connection, no
  sequence of calls on it panics, whatever the peer sends and however the stream behaves,
  provided that \<open>flate2\<close> keeps its contract, frames and messages are limited, and the address
  space holds what arrives during the session, one more frame, and each message written. The
  calls may change the configuration at any time, even below what is already being read,
  if they keep it valid and limited and leave the agreed compression alone.
\<close>

theorem session_never_panics:
  assumes "opens F L fl H r s" "decompress_fits fl" "compress_fits fl N"
    and "cfg (fst s) \<in> C" "\<forall>c \<in> C. limits m c"
    and "length (in_buffer (frame_codec (fst s))) + length (script_bytes (reads (snd s))) + max m 14 < isize_max"
    and "list_all (call_within C) calls" "list_all (call_fits N) calls"
  shows "list_all (\<lambda>res. res \<noteq> Panic) (fst (run_session fl calls s))"
proof (rule run_session_results [where P = "in_session fl r C m"])
  have "ws_left s + max m header_max_size \<le> isize_max"
    using assms(6) by (simp add: ws_left_def input_left_def header_max_size_def)
  then show "in_session fl r C m s" using opens_reachable [OF assms(1,4)] by (simp add: in_session_def)
  show "fst (api_step fl call t) \<noteq> Panic \<and> in_session fl r C m (snd (api_step fl call t))"
    if "call \<in> set calls" "in_session fl r C m t" for call t
    using api_step_in_session [OF assms(2,3,5) _ _ that(2), of call] assms(7,8) that(1)
    by (auto simp: safe_def list_all_iff)
qed

theorem session_never_panics_witness:
  "\<exists>s. opens native_build transparent_tls copying sample_http Server s \<and>
     list_all (\<lambda>res. res \<noteq> Panic) (fst (run_session copying sample_calls s))"
proof -
  obtain x where x: "opens native_build transparent_tls copying sample_http Server
      (x, (handshake_world [])\<lparr>sent := sample_reply_text\<rparr>)" "cfg x = default_config" "in_buffer (frame_codec x) = []"
    using sample_opens by blast
  have fits: "decompress_fits copying" by (simp add: decompress_fits_def copying_def)
  have "list_all (\<lambda>res. res \<noteq> Panic)
      (fst (run_session copying sample_calls (x, (handshake_world [])\<lparr>sent := sample_reply_text\<rparr>)))"
  proof (rule session_never_panics [OF x(1) fits copying_compress_fits [of 0] _ _ _ sample_calls_within])
    show "\<forall>c \<in> sample_configs. limits (16 * 2 ^ 20) c"
      by (simp add: sample_configs_def default_config_def tiny_limits_def limits_def limited_def isize_max_def usize_bits_def)
    show "list_all (call_fits 0) sample_calls"
      by (simp add: sample_calls_def call_fits_def isize_max_def usize_bits_def CHUNK_def)
  qed (simp_all add: x(2,3) sample_configs_def handshake_world_def idle_world_def isize_max_def usize_bits_def)
  with x(1) show ?thesis by blast
qed

end
