(* ===== verification/Deflate_Roundtrip.thy ===== *)
theory Deflate_Roundtrip
  imports Deflate_Bounds
begin

text \<open>
  What one endpoint compresses the other decompresses: \<open>Context::compress\<close> and
  \<open>Context::decompress\<close> of \<open>src/src/protocol/deflate/codec.rs\<close> as a pair, over a whole
  connection, with and without context takeover, with the tail that RFC 7692 cuts off and
  the receiver puts back.

  The two ends of \<open>flate2\<close> are tied together by the format, RFC 1951. Its decoding function,
  and what a compressor has taken and written and a decompressor has been fed and has given
  since it was created or reset, are parameters (the record \<open>format_view\<close>); the documented
  behaviour is stated about them, one call at a time.
\<close>

section \<open>The format and the two ends of flate2\<close>

record ('c, 'd) format_view =
  decodes :: "nat \<Rightarrow> bytes \<Rightarrow> bytes option"
    \<comment> \<open>window bits; what the beginning of a stream of non-final blocks decodes to\<close>
  aligned :: "bytes \<Rightarrow> bool"  \<comment> \<open>complete blocks that end at a byte boundary\<close>
  taken :: "'c \<Rightarrow> bytes"
  written :: "'c \<Rightarrow> bytes"
  own_window :: "'c \<Rightarrow> nat"
  fed :: "'d \<Rightarrow> bytes"
  given :: "'d \<Rightarrow> bytes"
  peer_window :: "'d \<Rightarrow> nat"

text \<open>RFC 1951: streams of blocks, and the empty stored block.\<close>

definition format_laws :: "('c, 'd) format_view \<Rightarrow> bool" where
  "format_laws v \<longleftrightarrow>
     aligned v [] \<and> (\<forall>w. decodes v w [] = Some []) \<and>
     (\<forall>s t. aligned v s \<longrightarrow> aligned v (s @ t) = aligned v t) \<and>
     (\<forall>w s t p. decodes v w (s @ t) = Some p \<longrightarrow> (\<exists>q r. decodes v w s = Some q \<and> p = q @ r)) \<and>
     (\<forall>w s t p q. aligned v s \<longrightarrow> decodes v w s = Some p \<longrightarrow> decodes v w t = Some q \<longrightarrow>
        decodes v w (s @ t) = Some (p @ q)) \<and>
     (\<forall>w w' s p. w \<le> w' \<longrightarrow> decodes v w s = Some p \<longrightarrow> decodes v w' s = Some p) \<and>
     aligned v (0 # TRAILER) \<and>
     (\<forall>w s t. aligned v s \<longrightarrow> decodes v w (s @ (0 # TRAILER) @ t) = decodes v w (s @ t))"

text \<open>
  A call of the compressor takes a prefix of the input and adds to the output; it makes
  progress while there is input; when a sync flush has nothing more to write, everything
  taken has been written, up to a byte boundary.
\<close>

definition compressor_laws :: "('c, 'd) flate \<Rightarrow> ('c, 'd) format_view \<Rightarrow> bool" where
  "compressor_laws fl v \<longleftrightarrow>
     (\<forall>c. taken v (compress_reset fl c) = [] \<and> written v (compress_reset fl c) = [] \<and>
        own_window v (compress_reset fl c) = own_window v c) \<and>
     (\<forall>l n. taken v (compress_new fl l n) = [] \<and> written v (compress_new fl l n) = [] \<and>
        own_window v (compress_new fl l n) = n) \<and>
     (\<forall>c input sync st consumed out c'. compress_call fl c input sync = (Ok (st, consumed, out), c') \<longrightarrow>
        taken v c' = taken v c @ take consumed input \<and> written v c' = written v c @ out \<and>
        own_window v c' = own_window v c \<and>
        (\<not> sync \<and> input \<noteq> [] \<longrightarrow> consumed \<noteq> 0 \<or> out \<noteq> []) \<and>
        (sync \<and> input = [] \<and> out = [] \<longrightarrow>
           decodes v (own_window v c') (written v c') = Some (taken v c') \<and> aligned v (written v c')))"

text \<open>
  A call of the decompressor with room for output, on input that continues a stream of the
  format: it takes a prefix of the input, gives a part of what the stream decodes to, and
  stands still only when it has taken and given everything. \<open>reset\<close> restores a window of 15 bits,
  the widest there is, so it keeps the window only of a decompressor that has one of 15 bits.
\<close>

definition decompressor_laws :: "('c, 'd) flate \<Rightarrow> ('c, 'd) format_view \<Rightarrow> bool" where
  "decompressor_laws fl v \<longleftrightarrow>
     (\<forall>n. fed v (decompress_new fl n) = [] \<and> given v (decompress_new fl n) = [] \<and>
        peer_window v (decompress_new fl n) = n) \<and>
     (\<forall>d. fed v (decompress_reset fl d) = [] \<and> given v (decompress_reset fl d) = [] \<and>
        (15 \<le> peer_window v d \<longrightarrow> peer_window v (decompress_reset fl d) = peer_window v d)) \<and>
     (\<forall>d input room left. 0 < room \<longrightarrow>
        decodes v (peer_window v d) (fed v d @ input) = Some (given v d @ left) \<longrightarrow>
        (\<exists>st consumed out d' left'. decompress_call fl d input room = (Ok (st, consumed, out), d') \<and>
           consumed \<le> length input \<and> length out \<le> room \<and> left = out @ left' \<and> st \<noteq> StreamEnd \<and>
           fed v d' = fed v d @ take consumed input \<and> given v d' = given v d @ out \<and>
           peer_window v d' = peer_window v d \<and>
           (consumed = 0 \<and> out = [] \<longrightarrow> st = BufError \<and> input = [] \<and> left = [])))"

lemma format_lawsD:
  assumes "format_laws v"
  shows format_Nil: "aligned v []" "decodes v w [] = Some []"
    and format_aligned: "aligned v s \<Longrightarrow> aligned v (s @ t) = aligned v t"
    and format_prefix: "decodes v w (s @ t) = Some p \<Longrightarrow> \<exists>q r. decodes v w s = Some q \<and> p = q @ r"
    and format_concat: "aligned v s \<Longrightarrow> decodes v w s = Some p \<Longrightarrow> decodes v w t = Some q \<Longrightarrow>
      decodes v w (s @ t) = Some (p @ q)"
    and format_mono: "w \<le> w' \<Longrightarrow> decodes v w s = Some p \<Longrightarrow> decodes v w' s = Some p"
    and format_empty: "aligned v (0 # TRAILER)"
      "aligned v s \<Longrightarrow> decodes v w (s @ (0 # TRAILER) @ t) = decodes v w (s @ t)"
  using assms unfolding format_laws_def by (elim conjE, meson)+

lemma compressor_lawsD:
  assumes "compressor_laws fl v"
  shows compressor_reset: "taken v (compress_reset fl c) = []" "written v (compress_reset fl c) = []"
      "own_window v (compress_reset fl c) = own_window v c"
    and compressor_new: "taken v (compress_new fl l n) = []" "written v (compress_new fl l n) = []"
      "own_window v (compress_new fl l n) = n"
  using assms by (simp_all add: compressor_laws_def)

lemma compressor_call:
  assumes "compressor_laws fl v" "compress_call fl c input sync = (Ok (st, consumed, out), c')"
  shows "taken v c' = taken v c @ take consumed input \<and> written v c' = written v c @ out \<and>
      own_window v c' = own_window v c \<and>
      (\<not> sync \<and> input \<noteq> [] \<longrightarrow> consumed \<noteq> 0 \<or> out \<noteq> []) \<and>
      (sync \<and> input = [] \<and> out = [] \<longrightarrow>
         decodes v (own_window v c') (written v c') = Some (taken v c') \<and> aligned v (written v c'))"
  by (rule assms(1) [unfolded compressor_laws_def, THEN conjunct2, THEN conjunct2, rule_format, OF assms(2)])

lemma decompressor_lawsD:
  assumes "decompressor_laws fl v"
  shows decompressor_new: "fed v (decompress_new fl n) = []" "given v (decompress_new fl n) = []"
      "peer_window v (decompress_new fl n) = n"
    and decompressor_reset: "fed v (decompress_reset fl d) = []" "given v (decompress_reset fl d) = []"
      "15 \<le> peer_window v d \<Longrightarrow> peer_window v (decompress_reset fl d) = peer_window v d"
  using assms by (simp_all add: decompressor_laws_def)

lemma decompressor_call:
  assumes "decompressor_laws fl v" "0 < room"
    and "decodes v (peer_window v d) (fed v d @ input) = Some (given v d @ left)"
  shows "\<exists>st consumed out d' left'. decompress_call fl d input room = (Ok (st, consumed, out), d') \<and>
      consumed \<le> length input \<and> length out \<le> room \<and> left = out @ left' \<and> st \<noteq> StreamEnd \<and>
      fed v d' = fed v d @ take consumed input \<and> given v d' = given v d @ out \<and>
      peer_window v d' = peer_window v d \<and>
      (consumed = 0 \<and> out = [] \<longrightarrow> st = BufError \<and> input = [] \<and> left = [])"
  using assms(1) [unfolded decompressor_laws_def, THEN conjunct2, THEN conjunct2] assms(2,3) by blast

section \<open>The loops of the compressor\<close>

text \<open>Whatever a loop returns, what the compressor has taken and written has grown by it.\<close>

definition grows ::
  "('c, 'd) format_view \<Rightarrow> 'c \<Rightarrow> bytes \<Rightarrow> bytes \<Rightarrow> 'c \<Rightarrow> bool" where
  "grows v c new out c' \<longleftrightarrow>
     taken v c' = taken v c @ new \<and> written v c' = written v c @ out \<and> own_window v c' = own_window v c"

lemma grows_trans: "grows v c a x c1 \<Longrightarrow> grows v c1 b y c2 \<Longrightarrow> grows v c (a @ b) (x @ y) c2"
  by (simp add: grows_def)

lemma compress_step_grows:
  assumes "compressor_laws fl v" "compress_step fl input sync output c = (Ok (go, input', output'), c')"
  shows "\<exists>consumed out. output' = output @ out \<and> input' = drop consumed input \<and>
      grows v c (take consumed input) out c' \<and>
      (\<not> go \<longrightarrow> consumed = 0 \<and> out = [] \<and> (sync \<or> input = [])) \<and>
      (\<not> go \<and> sync \<and> input = [] \<longrightarrow>
         decodes v (own_window v c') (written v c') = Some (taken v c') \<and> aligned v (written v c'))"
proof -
  obtain st consumed out where c: "compress_call fl c input sync = (Ok (st, consumed, out), c')"
      and m: "made_progress st consumed (length out) = Ok go" "output' = output @ out" "input' = drop consumed input"
    using assms(2) by (auto simp: compress_step_def bind_out_Ok_iff split: if_splits outcome.splits prod.splits)
  have stop: "consumed = 0 \<and> out = []" if "\<not> go"
    using m(1) that by (auto simp: made_progress.simps split: if_splits status.splits)
  then show ?thesis
    using compressor_call [OF assms(1) c] m(2,3)
    by (intro exI [of _ consumed] exI [of _ out]) (auto simp: grows_def)
qed

lemma compress_input_grows:
  assumes "compressor_laws fl v" "compress_input fl input output c = (Ok res, c')"
  shows "\<exists>out. res = output @ out \<and> grows v c input out c'"
  using assms
proof (induction fl input "output" c rule: compress_input.induct)
  case (1 fl input out0 c)
  show ?case
  proof (cases "input = []")
    case True
    then show ?thesis using "1.prems"(2) by (simp add: compress_input.simps grows_def)
  next
    case False
    obtain r c1 where s: "compress_step fl input False out0 c = (r, c1)" by fastforce
    obtain go input1 output1 where r: "r = Ok (go, input1, output1)"
      using "1.prems"(2) s False
      by (cases r) (auto simp: compress_input.simps [of fl input])
    from compress_step_grows [OF "1.prems"(1) s [unfolded r]] obtain consumed out where
      out: "output1 = out0 @ out" "input1 = drop consumed input" "grows v c (take consumed input) out c1" "go"
      using False by auto
    have "compress_input fl input1 output1 c1 = (Ok res, c')"
      using "1.prems"(2) s False r out(4) by (simp add: compress_input.simps [of fl input])
    from "1.IH" [OF False s [symmetric] r refl refl out(4) "1.prems"(1) this]
    obtain out1 where "res = output1 @ out1" "grows v c1 input1 out1 c'" by blast
    then show ?thesis
      using grows_trans [OF out(3), of input1 out1 c'] out(1,2) by simp
  qed
qed

lemma compress_flush_grows:
  assumes "compressor_laws fl v" "compress_flush fl output c = (Ok res, c')"
  shows "\<exists>out. res = output @ out \<and> grows v c [] out c' \<and>
    decodes v (own_window v c') (written v c') = Some (taken v c') \<and> aligned v (written v c')"
  using assms
proof (induction fl "output" c rule: compress_flush.induct)
  case (1 fl out0 c)
  obtain r c1 where s: "compress_step fl [] True out0 c = (r, c1)" by fastforce
  obtain go input1 output1 where r: "r = Ok (go, input1, output1)"
    using "1.prems"(2) s by (cases r) (auto simp: compress_flush.simps [of fl out0])
  from compress_step_grows [OF "1.prems"(1) s [unfolded r]] obtain out where
    out: "output1 = out0 @ out" "grows v c [] out c1"
      "\<not> go \<Longrightarrow> decodes v (own_window v c1) (written v c1) = Some (taken v c1) \<and> aligned v (written v c1)"
    by auto
  show ?case
  proof (cases "go")
    case True
    then have "compress_flush fl output1 c1 = (Ok res, c')"
      using "1.prems"(2) s r by (simp add: compress_flush.simps [of fl out0])
    from "1.IH" [OF s [symmetric] r refl refl True "1.prems"(1) this]
    obtain out1 where "res = output1 @ out1" "grows v c1 [] out1 c'"
        "decodes v (own_window v c') (written v c') = Some (taken v c')" "aligned v (written v c')" by blast
    then show ?thesis using grows_trans [OF out(2), of "[]" out1 c'] out(1) by simp
  next
    case False
    then show ?thesis using "1.prems"(2) s r out by (auto simp: compress_flush.simps [of fl out0])
  qed
qed

text \<open>A message compressed: with its tail back, it brings the stream to what was taken.\<close>

lemma ends_with_append: "ends_with xs s \<Longrightarrow> take (length xs - length s) xs @ s = xs"
  by (metis append_take_drop_id ends_with_def)

lemma compress_grows:
  assumes "compressor_laws fl v" "compress fl input e = (Ok out, e')" "input \<noteq> []"
  shows "\<exists>c. grows v (encoder e) input (out @ TRAILER) c \<and>
      decodes v (own_window v c) (written v c) = Some (taken v c) \<and> aligned v (written v c) \<and>
      e' = e\<lparr>encoder := (if reset_encoder_flag e then compress_reset fl c else c)\<rparr>"
proof -
  obtain r c1 where i: "compress_input fl input [] (encoder e) = (r, c1)" by fastforce
  obtain out1 where r: "r = Ok out1" using assms(2,3) i by (cases r) (auto simp: compress_def)
  obtain r2 c2 where fl: "compress_flush fl out1 c1 = (r2, c2)" by fastforce
  obtain out2 where r2: "r2 = Ok out2" using assms(2,3) i r fl by (cases r2) (auto simp: compress_def)
  have e: "ends_with out2 TRAILER" "out = take (length out2 - length TRAILER) out2"
    "e' = e\<lparr>encoder := (if reset_encoder_flag e then compress_reset fl c2 else c2)\<rparr>"
    using assms(2,3) i r fl r2 by (auto simp: compress_def split: if_splits)
  have first: "grows v (encoder e) input out1 c1"
    using compress_input_grows [OF assms(1) i [unfolded r]] by simp
  obtain more_out where m: "out2 = out1 @ more_out" "grows v c1 [] more_out c2"
      "decodes v (own_window v c2) (written v c2) = Some (taken v c2)" "aligned v (written v c2)"
    using compress_flush_grows [OF assms(1) fl [unfolded r2]] by blast
  have "grows v (encoder e) input out2 c2"
    using grows_trans [OF first m(2)] m(1) by simp
  moreover have "out @ TRAILER = out2" using ends_with_append [OF e(1)] e(2) by simp
  ultimately show ?thesis using m(3,4) e(3) by auto
qed

section \<open>The loop of the decompressor\<close>

text \<open>On a stream of the format the loop gives everything there is to give.\<close>

lemma inflate_step_gives:
  assumes "decompressor_laws fl v" "m \<le> usize_max"
    and "decodes v (peer_window v (dec_stream d)) (fed v (dec_stream d) @ input) = Some (given v (dec_stream d) @ left)"
    and "already + length output + length left \<le> m" "length output + length left \<le> isize_max"
  shows "\<exists>consumed out left' d'. consumed \<le> length input \<and> left = out @ left' \<and>
      dec_window_bits d' = dec_window_bits d \<and>
      fed v (dec_stream d') = fed v (dec_stream d) @ take consumed input \<and>
      given v (dec_stream d') = given v (dec_stream d) @ out \<and>
      peer_window v (dec_stream d') = peer_window v (dec_stream d) \<and>
      (if consumed = 0 \<and> out = [] then input = [] \<and> left = [] \<and> inflate_step fl already m input output d = (Ok (Inl output), d')
       else inflate_step fl already m input output d = (Ok (Inr (drop consumed input, output @ out)), d'))"
proof -
  have exact: "sat_add already (length output + n) = already + length output + n" if "n \<le> length left" for n
    using that assms(2,4) by (subst sat_add_exact) simp_all
  let ?w = "min (sat_add (m - sat_add already (length output)) 1) CHUNK"
  have w: "0 < ?w" "?w \<le> CHUNK" by (simp_all add: sat_add_def CHUNK_def usize_max_eq)
  obtain st consumed out s left' where c: "decompress_call fl (dec_stream d) input ?w = (Ok (st, consumed, out), s)"
      "consumed \<le> length input" "length out \<le> ?w" "left = out @ left'" "st \<noteq> StreamEnd"
      "fed v s = fed v (dec_stream d) @ take consumed input" "given v s = given v (dec_stream d) @ out"
      "peer_window v s = peer_window v (dec_stream d)"
      "consumed = 0 \<and> out = [] \<longrightarrow> st = BufError \<and> input = [] \<and> left = []"
    using decompressor_call [OF assms(1) w(1) assms(3)] by blast
  have ok: "\<not> length out > CHUNK" "\<not> length output + length out > isize_max" "\<not> consumed > length input"
    "\<not> sat_add already (length (output @ out)) > m"
    using c(2-4) w(2) assms(4,5) exact [of "length out"] by simp_all
  have "inflate_step fl already m input output d =
      (bind_out (made_progress st consumed (length out))
         (\<lambda>go. Ok (if go then Inr (drop consumed input, output @ out) else Inl (output @ out))), d\<lparr>dec_stream := s\<rparr>)"
    using c(1,5) ok by (simp add: inflate_step_def decoder_decompress_def Let_def)
  then show ?thesis
    using c
    by (intro exI [of _ consumed] exI [of _ out] exI [of _ left'] exI [of _ "d\<lparr>dec_stream := s\<rparr>"])
      (auto simp: made_progress.simps)
qed

lemma inflate_gives:
  assumes "decompressor_laws fl v" "m \<le> usize_max"
    and "decodes v (peer_window v (dec_stream d)) (fed v (dec_stream d) @ input) = Some (given v (dec_stream d) @ left)"
    and "already + length output + length left \<le> m" "length output + length left \<le> isize_max"
  shows "\<exists>d'. inflate fl already m input output d = (Ok (output @ left), d') \<and>
      fed v (dec_stream d') = fed v (dec_stream d) @ input \<and>
      given v (dec_stream d') = given v (dec_stream d) @ left \<and>
      peer_window v (dec_stream d') = peer_window v (dec_stream d) \<and> dec_window_bits d' = dec_window_bits d"
  using assms
proof (induction fl already m input "output" d arbitrary: left rule: inflate.induct)
  case (1 fl already m input out0 d)
  obtain consumed out left' d1 where s: "consumed \<le> length input" "left = out @ left'"
      "dec_window_bits d1 = dec_window_bits d" "fed v (dec_stream d1) = fed v (dec_stream d) @ take consumed input"
      "given v (dec_stream d1) = given v (dec_stream d) @ out"
      "peer_window v (dec_stream d1) = peer_window v (dec_stream d)"
      "if consumed = 0 \<and> out = [] then input = [] \<and> left = [] \<and> inflate_step fl already m input out0 d = (Ok (Inl out0), d1)
       else inflate_step fl already m input out0 d = (Ok (Inr (drop consumed input, out0 @ out)), d1)"
    using inflate_step_gives [OF "1.prems"] by blast
  show ?case
  proof (cases "consumed = 0 \<and> out = []")
    case True
    then show ?thesis using s by (auto simp: inflate.simps [of fl already])
  next
    case False
    then have st: "inflate_step fl already m input out0 d = (Ok (Inr (drop consumed input, out0 @ out)), d1)"
      using s(7) by simp
    have "decodes v (peer_window v (dec_stream d1)) (fed v (dec_stream d1) @ drop consumed input)
        = Some (given v (dec_stream d1) @ left')"
      using "1.prems"(3) s(2,4-6) by simp
    from "1.IH" [OF st [symmetric] refl refl refl "1.prems"(1,2) this] "1.prems"(4,5) s(2)
    obtain d' where "inflate fl already m (drop consumed input) (out0 @ out) d1 = (Ok ((out0 @ out) @ left'), d')"
        "fed v (dec_stream d') = fed v (dec_stream d1) @ drop consumed input"
        "given v (dec_stream d') = given v (dec_stream d1) @ left'"
        "peer_window v (dec_stream d') = peer_window v (dec_stream d1)" "dec_window_bits d' = dec_window_bits d1"
      by auto
    then show ?thesis using st s by (simp add: inflate.simps [of fl already m input])
  qed
qed

section \<open>Two contexts in step\<close>

text \<open>
  The compressor of one endpoint and the decompressor of the other are in step: whatever
  the compressor writes next, the decompressor turns it into what the compressor takes next.
\<close>

definition in_step ::
  "('c, 'd) format_view \<Rightarrow> ('c, 'd) deflate_context \<Rightarrow> ('c, 'd) deflate_context \<Rightarrow> bool" where
  "in_step v e d \<longleftrightarrow>
     (let c = encoder e; s = dec_stream (decoder_of d) in
      own_window v c \<le> peer_window v s \<and> dec_window_bits (decoder_of d) = peer_window v s \<and>
      reset_encoder_flag e = reset_decoder_flag d \<and>
      (reset_encoder_flag e \<longrightarrow> taken v c = [] \<and> written v c = []) \<and>
      aligned v (written v c) \<and> aligned v (fed v s) \<and> decodes v (peer_window v s) (fed v s) = Some (given v s) \<and>
      (\<forall>t q. decodes v (own_window v c) (written v c @ t) = Some (taken v c @ q) \<longrightarrow>
         decodes v (peer_window v s) (fed v s @ t) = Some (given v s @ q)))"

text \<open>A compressor that starts afresh is in step with any decompressor between two messages.\<close>

lemma in_step_fresh:
  assumes "format_laws v" "taken v c = []" "written v c = []" "own_window v c \<le> peer_window v s"
    and "aligned v (fed v s)" "decodes v (peer_window v s) (fed v s) = Some (given v s)"
  shows "decodes v (own_window v c) (written v c @ t) = Some (taken v c @ q) \<Longrightarrow>
    decodes v (peer_window v s) (fed v s @ t) = Some (given v s @ q)"
proof -
  assume "decodes v (own_window v c) (written v c @ t) = Some (taken v c @ q)"
  then have "decodes v (peer_window v s) t = Some q"
    using format_mono [OF assms(1,4)] assms(2,3) by simp
  then show ?thesis by (rule format_concat [OF assms(1,5,6)])
qed

lemma in_step_reset_encoder:
  assumes "format_laws v" "compressor_laws fl v" "in_step v e d"
    and "own_window v c = own_window v (encoder e)" "e' = e\<lparr>encoder := compress_reset fl c\<rparr>"
  shows "in_step v e' d"
  using assms(3-5) in_step_fresh [OF assms(1) compressor_reset(1,2) [OF assms(2)], of c "dec_stream (decoder_of d)"]
  by (simp add: in_step_def Let_def compressor_lawsD [OF assms(2)] format_Nil [OF assms(1)])

text \<open>Freshly created contexts with matching settings are in step.\<close>

lemma deflate_context_new_parts:
  assumes "deflate_context_new fl r s = Ok c"
  shows "encoder c = compress_new fl (compression s) (case r of Client \<Rightarrow> client_max_window_bits s | Server \<Rightarrow> server_max_window_bits s)"
    "decoder_of c = (let n = max (case r of Client \<Rightarrow> server_max_window_bits s | Server \<Rightarrow> client_max_window_bits s) 9
       in \<lparr>dec_stream = decompress_new fl n, dec_window_bits = n\<rparr>)"
    "reset_encoder_flag c = (case r of Client \<Rightarrow> client_no_context_takeover s | Server \<Rightarrow> server_no_context_takeover s)"
    "reset_decoder_flag c = (case r of Client \<Rightarrow> server_no_context_takeover s | Server \<Rightarrow> client_no_context_takeover s)"
  using assms
  by (cases r; auto simp: deflate_context_new_def decoder_new_def bind_out_Ok_iff Let_def split: if_splits)+

lemma in_step_new:
  assumes "format_laws v" "compressor_laws fl v" "decompressor_laws fl v"
    and "deflate_context_new fl r settings = Ok e" "deflate_context_new fl r' settings' = Ok d" "r \<noteq> r'"
    and "client_no_context_takeover settings = client_no_context_takeover settings'"
    and "server_no_context_takeover settings = server_no_context_takeover settings'"
    and "client_max_window_bits settings = client_max_window_bits settings'"
    and "server_max_window_bits settings = server_max_window_bits settings'"
  shows "in_step v e d"
proof -
  let ?c = "encoder e" and ?s = "dec_stream (decoder_of d)"
  note parts = deflate_context_new_parts [OF assms(4)] deflate_context_new_parts [OF assms(5)]
  have c: "taken v ?c = []" "written v ?c = []" "fed v ?s = []" "given v ?s = []"
    by (simp_all add: parts Let_def compressor_lawsD [OF assms(2)] decompressor_lawsD [OF assms(3)])
  have w: "own_window v ?c \<le> peer_window v ?s" "dec_window_bits (decoder_of d) = peer_window v ?s"
    "reset_encoder_flag e = reset_decoder_flag d"
    using assms(6-10) unfolding parts
    by (cases r; cases r'; simp add: Let_def compressor_lawsD [OF assms(2)] decompressor_lawsD [OF assms(3)])+
  show ?thesis
    using in_step_fresh [OF assms(1) c(1,2) w(1)] c w
    by (simp add: in_step_def Let_def format_Nil [OF assms(1)])
qed

text \<open>The decoder after a message, reset or not.\<close>

definition decoder_done :: "('c, 'd) flate \<Rightarrow> bool \<Rightarrow> 'd decoder \<Rightarrow> 'd decoder" where
  "decoder_done fl reset d = (if reset then decoder_reset fl d else d)"

lemma decoder_reset_view:
  assumes "decompressor_laws fl v" "dec_window_bits d = peer_window v (dec_stream d)"
  shows "fed v (dec_stream (decoder_reset fl d)) = []" "given v (dec_stream (decoder_reset fl d)) = []"
    "peer_window v (dec_stream (decoder_reset fl d)) = peer_window v (dec_stream d)"
    "dec_window_bits (decoder_reset fl d) = dec_window_bits d"
  using assms(2) by (simp_all add: decoder_reset_def reconstructs_on_reset_def decompressor_lawsD [OF assms(1)])

definition message_limit :: "nat option \<Rightarrow> nat" where
  "message_limit lim = (case lim of Some n \<Rightarrow> n | None \<Rightarrow> usize_max)"

text \<open>A payload whose tail has been cut off is decompressed to the message.\<close>

lemma decompress_gives:
  assumes "format_laws v" "decompressor_laws fl v" "message_limit lim \<le> usize_max"
    and "decodes v (peer_window v (dec_stream (decoder_of d))) (fed v (dec_stream (decoder_of d)) @ wire_data @ TRAILER)
       = Some (given v (dec_stream (decoder_of d)) @ data)"
    and "decodes v (peer_window v (dec_stream (decoder_of d))) (fed v (dec_stream (decoder_of d)))
       = Some (given v (dec_stream (decoder_of d)))"
    and "length data \<le> isize_max" "length data \<le> message_limit lim"
  shows "\<exists>d1. decompress fl wire_data True 0 lim d = (Ok data, d\<lparr>decoder_of := decoder_done fl (reset_decoder_flag d) d1\<rparr>) \<and>
      fed v (dec_stream d1) = fed v (dec_stream (decoder_of d)) @ wire_data @ TRAILER \<and>
      given v (dec_stream d1) = given v (dec_stream (decoder_of d)) @ data \<and>
      peer_window v (dec_stream d1) = peer_window v (dec_stream (decoder_of d)) \<and>
      dec_window_bits d1 = dec_window_bits (decoder_of d)"
proof -
  let ?d = "decoder_of d" and ?m = "message_limit lim"
  let ?s = "dec_stream ?d"
  have whole: "decodes v (peer_window v ?s) ((fed v ?s @ wire_data) @ TRAILER) = Some (given v ?s @ data)"
    using assms(4) by simp
  obtain q r where q: "decodes v (peer_window v ?s) (fed v ?s @ wire_data) = Some q" "given v ?s @ data = q @ r"
    using format_prefix [OF assms(1) whole] by blast
  obtain q' r' where "decodes v (peer_window v ?s) (fed v ?s) = Some q'" "q = q' @ r'"
    using format_prefix [OF assms(1) q(1)] by blast
  then have q': "q = given v ?s @ r'" using assms(5) by simp
  then have data: "data = r' @ r" using q(2) by simp
  have "decodes v (peer_window v ?s) (fed v ?s @ wire_data) = Some (given v ?s @ r')" using q(1) q' by simp
  from inflate_gives [OF assms(2,3) this, of 0 "[]"] assms(6,7) data
  obtain d1 where d1: "inflate fl 0 ?m wire_data [] ?d = (Ok r', d1)" "fed v (dec_stream d1) = fed v ?s @ wire_data"
      "given v (dec_stream d1) = given v ?s @ r'" "peer_window v (dec_stream d1) = peer_window v ?s"
      "dec_window_bits d1 = dec_window_bits ?d"
    by auto
  have "decodes v (peer_window v (dec_stream d1)) (fed v (dec_stream d1) @ TRAILER) = Some (given v (dec_stream d1) @ r)"
    using whole d1 data by simp
  from inflate_gives [OF assms(2,3) this, of 0 r'] assms(6,7) data
  obtain d2 where d2: "inflate fl 0 ?m TRAILER r' d1 = (Ok data, d2)" "fed v (dec_stream d2) = fed v (dec_stream d1) @ TRAILER"
      "given v (dec_stream d2) = given v (dec_stream d1) @ r" "peer_window v (dec_stream d2) = peer_window v (dec_stream d1)"
      "dec_window_bits d2 = dec_window_bits d1"
    by auto
  have "decompress fl wire_data True 0 lim d = (Ok data, d\<lparr>decoder_of := decoder_done fl (reset_decoder_flag d) d2\<rparr>)"
    using d1(1) d2(1) by (simp add: decompress_def message_limit_def decoder_done_def)
  then show ?thesis using d1 d2 data by auto
qed

lemma compress_empty: "compress fl [] e = (Ok out, e') \<Longrightarrow> out = [0] \<and> e' = e"
  by (simp add: compress_def)

text \<open>After a message that both ends have seen, they are in step again, reset or not.\<close>

lemma in_step_after:
  assumes "format_laws v" "compressor_laws fl v" "decompressor_laws fl v" "in_step v e d"
    and "own_window v c = own_window v (encoder e)" "peer_window v (dec_stream d1) = peer_window v (dec_stream (decoder_of d))"
    and "dec_window_bits d1 = dec_window_bits (decoder_of d)"
    and "aligned v (written v c)" "aligned v (fed v (dec_stream d1))"
    and "decodes v (peer_window v (dec_stream d1)) (fed v (dec_stream d1)) = Some (given v (dec_stream d1))"
    and "\<And>t q. decodes v (own_window v c) (written v c @ t) = Some (taken v c @ q) \<Longrightarrow>
       decodes v (peer_window v (dec_stream d1)) (fed v (dec_stream d1) @ t) = Some (given v (dec_stream d1) @ q)"
    and "\<not> reset_encoder_flag e \<or> c' = compress_reset fl c \<or> c' = c \<and> taken v c = [] \<and> written v c = []"
    and "\<not> reset_encoder_flag e \<Longrightarrow> c' = c"
  shows "in_step v (e\<lparr>encoder := c'\<rparr>) (d\<lparr>decoder_of := decoder_done fl (reset_decoder_flag d) d1\<rparr>)"
proof (cases "reset_encoder_flag e")
  case False
  then show ?thesis
    using assms by (simp add: in_step_def Let_def decoder_done_def)
next
  case True
  have w: "dec_window_bits d1 = peer_window v (dec_stream d1)" "own_window v c \<le> peer_window v (dec_stream d1)"
    using assms(4-7) by (simp_all add: in_step_def Let_def)
  note d2 = decoder_reset_view [OF assms(3) w(1)]
  have c': "taken v c' = []" "written v c' = []" "own_window v c' = own_window v c"
    using assms(12) True by (auto simp: compressor_lawsD [OF assms(2)])
  have "reset_decoder_flag d" using assms(4) True by (simp add: in_step_def Let_def)
  moreover have "own_window v c' \<le> peer_window v (dec_stream (decoder_reset fl d1))" using c'(3) d2(3) w(2) by simp
  ultimately show ?thesis
    using in_step_fresh [OF assms(1) c'(1,2), of "dec_stream (decoder_reset fl d1)"] c' d2 w True
    by (simp add: in_step_def Let_def decoder_done_def format_Nil [OF assms(1)])
qed

lemma in_step_message:
  assumes "format_laws v" "compressor_laws fl v" "decompressor_laws fl v" "in_step v e d"
    and "compress fl data e = (Ok out, e')"
    and "length data \<le> isize_max" "length data \<le> message_limit lim" "message_limit lim \<le> usize_max"
  shows "\<exists>d'. decompress fl out True 0 lim d = (Ok data, d') \<and> in_step v e' d'"
proof -
  let ?s = "dec_stream (decoder_of d)"
  have st: "aligned v (written v (encoder e))" "aligned v (fed v ?s)"
    "decodes v (peer_window v ?s) (fed v ?s) = Some (given v ?s)"
    "\<And>t q. decodes v (own_window v (encoder e)) (written v (encoder e) @ t) = Some (taken v (encoder e) @ q) \<Longrightarrow>
       decodes v (peer_window v ?s) (fed v ?s @ t) = Some (given v ?s @ q)"
    "reset_encoder_flag e \<Longrightarrow> taken v (encoder e) = [] \<and> written v (encoder e) = []"
    using assms(4) by (simp_all add: in_step_def Let_def)
  note gives = decompress_gives [OF assms(1,3,8), of d out data, OF _ st(3) assms(6,7)]
  show ?thesis
  proof (cases "data = []")
    case True
    then have out: "out = [0]" "e' = e" using compress_empty assms(5) by blast+
    have same: "decodes v w (fed v ?s @ out @ TRAILER @ t) = decodes v w (fed v ?s @ t)" for w t
      using format_empty(2) [OF assms(1) st(2), of w t] out(1) by simp
    obtain d1 where d1: "decompress fl out True 0 lim d = (Ok data, d\<lparr>decoder_of := decoder_done fl (reset_decoder_flag d) d1\<rparr>)"
        "fed v (dec_stream d1) = fed v ?s @ out @ TRAILER" "given v (dec_stream d1) = given v ?s"
        "peer_window v (dec_stream d1) = peer_window v ?s" "dec_window_bits d1 = dec_window_bits (decoder_of d)"
      using gives same [of _ "[]"] st(3) True by auto
    have "in_step v (e\<lparr>encoder := encoder e\<rparr>) (d\<lparr>decoder_of := decoder_done fl (reset_decoder_flag d) d1\<rparr>)"
    proof (rule in_step_after [OF assms(1-4)])
      show "aligned v (fed v (dec_stream d1))"
        using format_aligned [OF assms(1) st(2), of "out @ TRAILER"] format_empty(1) [OF assms(1)] d1(2) out(1) by simp
    qed (use d1 st same [of _ "[]"] same in auto)
    then show ?thesis using d1(1) out(2) by auto
  next
    case False
    obtain c where c: "grows v (encoder e) data (out @ TRAILER) c"
        "decodes v (own_window v c) (written v c) = Some (taken v c)" "aligned v (written v c)"
        "e' = e\<lparr>encoder := (if reset_encoder_flag e then compress_reset fl c else c)\<rparr>"
      using compress_grows [OF assms(2,5) False] by blast
    have g: "taken v c = taken v (encoder e) @ data" "written v c = written v (encoder e) @ out @ TRAILER"
      "own_window v c = own_window v (encoder e)"
      using c(1) by (simp_all add: grows_def)
    have "decodes v (peer_window v ?s) (fed v ?s @ out @ TRAILER) = Some (given v ?s @ data)"
      using st(4) [of "out @ TRAILER" data] c(2) g by simp
    from gives [OF this] obtain d1 where
      d1: "decompress fl out True 0 lim d = (Ok data, d\<lparr>decoder_of := decoder_done fl (reset_decoder_flag d) d1\<rparr>)"
        "fed v (dec_stream d1) = fed v ?s @ out @ TRAILER" "given v (dec_stream d1) = given v ?s @ data"
        "peer_window v (dec_stream d1) = peer_window v ?s" "dec_window_bits d1 = dec_window_bits (decoder_of d)"
      by blast
    have "aligned v (out @ TRAILER)" using format_aligned [OF assms(1) st(1), of "out @ TRAILER"] c(3) g(2) by simp
    then have "aligned v (fed v (dec_stream d1))" using format_aligned [OF assms(1) st(2), of "out @ TRAILER"] d1(2) by simp
    moreover have "decodes v (peer_window v (dec_stream d1)) (fed v (dec_stream d1) @ t) = Some (given v (dec_stream d1) @ q)"
      if "decodes v (own_window v c) (written v c @ t) = Some (taken v c @ q)" for t q
      using st(4) [of "out @ TRAILER @ t" "data @ q"] that g d1(2-4) by simp
    ultimately have "in_step v (e\<lparr>encoder := (if reset_encoder_flag e then compress_reset fl c else c)\<rparr>)
        (d\<lparr>decoder_of := decoder_done fl (reset_decoder_flag d) d1\<rparr>)"
      using d1 \<open>decodes v (peer_window v ?s) (fed v ?s @ out @ TRAILER) = Some (given v ?s @ data)\<close> c(3) g(3)
      by (intro in_step_after [OF assms(1-4)]) auto
    then show ?thesis using d1(1) c(4) by auto
  qed
qed

end
