(* ===== verification/Deflate_Sample.thy ===== *)
theory Deflate_Sample
  imports Deflate_Roundtrip
begin

text \<open>
  A small codec with the interface of \<open>flate2\<close> that keeps the laws of the format and of both
  ends, so that the hypotheses about \<open>flate2\<close> are shown to be satisfiable and the theorems
  about compression can be run: literals, and the empty stored block of a sync flush. It
  writes a literal \<open>b\<close> as the two bytes \<open>1, b\<close>.
\<close>

section \<open>The format\<close>

fun literal_decodes :: "bytes \<Rightarrow> bytes option" where
  "literal_decodes [] = Some []"
| "literal_decodes (k # r) =
     (if k = 1 then (case r of [] \<Rightarrow> Some [] | b # r' \<Rightarrow> map_option (\<lambda>p. b # p) (literal_decodes r'))
      else if k = 0 then
        (if length r < 4 then (if r = take (length r) TRAILER then Some [] else None)
         else if take 4 r = TRAILER then literal_decodes (drop 4 r) else None)
      else None)"

fun literal_aligned :: "bytes \<Rightarrow> bool" where
  "literal_aligned [] \<longleftrightarrow> True"
| "literal_aligned (k # r) \<longleftrightarrow>
     (if k = 1 then (case r of [] \<Rightarrow> False | b # r' \<Rightarrow> literal_aligned r')
      else k = 0 \<and> take 4 r = TRAILER \<and> literal_aligned (drop 4 r))"

definition literal_block :: "u8 option \<Rightarrow> bytes" where
  "literal_block b = (case b of Some b \<Rightarrow> [1, b] | None \<Rightarrow> 0 # TRAILER)"

lemma literal_block_simps [simp]: "literal_block (Some b) = [1, b]" "literal_block None = 0 # TRAILER"
  by (simp_all add: literal_block_def)

lemma length_TRAILER [simp]: "length TRAILER = 4"
  by (simp add: TRAILER_def)

lemma take_TRAILER_append [simp]: "take 4 (TRAILER @ t) = TRAILER" "drop 4 (TRAILER @ t) = t"
  by (simp_all add: TRAILER_def)

lemma literal_block_steps:
  "literal_decodes (literal_block b @ t) = (case b of Some b \<Rightarrow> map_option (\<lambda>p. b # p) (literal_decodes t) | None \<Rightarrow> literal_decodes t)"
  "literal_aligned (literal_block b @ t) = literal_aligned t"
  by (cases b; simp)+

text \<open>Aligned streams are sequences of blocks.\<close>

lemma literal_aligned_blocks: "literal_aligned s \<Longrightarrow> \<exists>bs. s = concat (map literal_block bs)"
proof (induction s rule: literal_aligned.induct)
  case 1
  show ?case by (intro exI [of _ "[]"]) simp
next
  case (2 k r)
  show ?case
  proof (cases "k = 1")
    case True
    then obtain b r' where r: "r = b # r'" "literal_aligned r'" using "2.prems" by (cases r) simp_all
    then obtain bs where "r' = concat (map literal_block bs)" using "2.IH"(1) [OF True r(1)] by blast
    then show ?thesis using r True by (intro exI [of _ "Some b # bs"]) simp
  next
    case False
    then have r: "k = 0" "take 4 r = TRAILER" "literal_aligned (drop 4 r)" using "2.prems" by simp_all
    then obtain bs where "drop 4 r = concat (map literal_block bs)" using "2.IH"(2) [OF False] by blast
    then have "r = TRAILER @ concat (map literal_block bs)" using r(2) by (metis append_take_drop_id)
    then show ?thesis using r(1) by (intro exI [of _ "None # bs"]) simp
  qed
qed

fun plain_of :: "u8 option list \<Rightarrow> bytes" where
  "plain_of [] = []"
| "plain_of (Some b # bs) = b # plain_of bs"
| "plain_of (None # bs) = plain_of bs"

lemma plain_of_append [simp]: "plain_of (xs @ ys) = plain_of xs @ plain_of ys"
  by (induction xs rule: plain_of.induct) simp_all

lemma plain_of_Some [simp]: "plain_of (map Some xs) = xs"
  by (induction xs) simp_all

lemma literal_blocks:
  "literal_decodes (concat (map literal_block bs) @ t) = map_option ((@) (plain_of bs)) (literal_decodes t)"
  "literal_aligned (concat (map literal_block bs) @ t) = literal_aligned t"
proof (induction bs)
  case (Cons b bs)
  case 1
  show ?case using Cons.IH(1) by (cases b; cases "literal_decodes t") (simp_all add: literal_block_steps)
  case 2
  show ?case using Cons.IH(2) by (simp add: literal_block_steps)
next
  case Nil
  case 1
  show ?case by (cases "literal_decodes t") simp_all
  case 2
  show ?case by simp
qed

lemma literal_prefix:
  "literal_decodes (s @ t) = Some p \<Longrightarrow> \<exists>q r. literal_decodes s = Some q \<and> p = q @ r"
proof (induction s arbitrary: p rule: literal_decodes.induct)
  case (2 k r)
  show ?case
  proof (cases "k = 1")
    case True
    show ?thesis
    proof (cases r)
      case (Cons b r')
      then obtain p' where p: "literal_decodes (r' @ t) = Some p'" "p = b # p'" using "2.prems" True by auto
      from "2.IH"(1) [OF True Cons p(1)] show ?thesis using p(2) True Cons by auto
    qed (use True in simp)
  next
    case False
    then have k: "k = 0" using "2.prems" by (simp split: if_splits)
    show ?thesis
    proof (cases "length r < 4")
      case True
      have "r @ t = take (length (r @ t)) TRAILER \<or> take 4 (r @ t) = TRAILER"
        using "2.prems" k by (simp split: if_splits)
      then have "take (length r) (r @ t) = take (length r) TRAILER"
      proof
        assume "r @ t = take (length (r @ t)) TRAILER"
        from arg_cong [OF this, of "take (length r)"] show ?thesis by (simp add: min_def)
      next
        assume "take 4 (r @ t) = TRAILER"
        from arg_cong [OF this, of "take (length r)"] show ?thesis using True by (simp add: min_def)
      qed
      then have "r = take (length r) TRAILER" by simp
      then show ?thesis using k True by simp
    next
      case long: False
      then have "take 4 r = TRAILER" "literal_decodes (drop 4 r @ t) = Some p"
        using "2.prems" k by (auto split: if_splits)
      from "2.IH"(2) [OF False k long this(1) this(2)] show ?thesis
        using k long \<open>take 4 r = TRAILER\<close> by simp
    qed
  qed
qed simp

section \<open>The two ends\<close>

text \<open>
  The compressor's state is the blocks it has written and its window; a sync flush writes a
  marker unless one was written last. The decompressor's is what it was fed and has given.
\<close>

type_synonym literal_compressor = "u8 option list \<times> nat"
type_synonym literal_decompressor = "bytes \<times> bytes \<times> nat"

definition flushed :: "u8 option list \<Rightarrow> bool" where
  "flushed bs \<longleftrightarrow> bs = [] \<or> last bs = None"

definition literal_compress ::
  "literal_compressor \<Rightarrow> bytes \<Rightarrow> bool \<Rightarrow> (unit, status \<times> nat \<times> bytes) outcome \<times> literal_compressor" where
  "literal_compress c input sync =
     (let new = map Some input;
          marked = (if sync \<and> \<not> flushed (fst c @ new) then new @ [None] else new)
      in (Ok (if marked = [] then BufError else StatusOk, length input, concat (map literal_block marked)),
          (fst c @ marked, snd c)))"

definition literal_decompress ::
  "literal_decompressor \<Rightarrow> bytes \<Rightarrow> nat \<Rightarrow> (unit, status \<times> nat \<times> bytes) outcome \<times> literal_decompressor" where
  "literal_decompress d input room =
     (case d of (f, g, n) \<Rightarrow>
        (case literal_decodes (f @ input) of
           None \<Rightarrow> (Err (), d)
         | Some p \<Rightarrow>
             (let out = take room (drop (length g) p)
              in (Ok (if input = [] \<and> out = [] then BufError else StatusOk, length input, out), (f @ input, g @ out, n)))))"

definition literal_flate :: "(literal_compressor, literal_decompressor) flate" where
  "literal_flate = \<lparr>compress_new = (\<lambda>_ n. ([], n)), compress_reset = (\<lambda>c. ([], snd c)),
     compress_call = literal_compress, decompress_new = (\<lambda>n. ([], [], n)),
     decompress_reset = (\<lambda>d. ([], [], snd (snd d))), decompress_call = literal_decompress\<rparr>"

definition literal_view :: "(literal_compressor, literal_decompressor) format_view" where
  "literal_view = \<lparr>decodes = (\<lambda>_. literal_decodes), aligned = literal_aligned,
     taken = (\<lambda>c. plain_of (fst c)), written = (\<lambda>c. concat (map literal_block (fst c))), own_window = snd,
     fed = fst, given = (\<lambda>d. fst (snd d)), peer_window = (\<lambda>d. snd (snd d))\<rparr>"

lemma literal_format: "format_laws literal_view"
proof -
  have al: "literal_aligned (s @ t) = literal_aligned t" if "literal_aligned s" for s t
    using literal_aligned_blocks [OF that] literal_blocks(2) by auto
  have cc: "literal_decodes (s @ t) = Some (p @ q)"
    if "literal_aligned s" "literal_decodes s = Some p" "literal_decodes t = Some q" for s t p q
  proof -
    obtain bs where s: "s = concat (map literal_block bs)" using literal_aligned_blocks \<open>literal_aligned s\<close> by blast
    have "p = plain_of bs" using that(2) literal_blocks(1) [of bs "[]"] by (simp add: s)
    then show ?thesis using that(3) literal_blocks(1) [of bs t] by (simp add: s)
  qed
  have em: "literal_decodes (s @ (0 # TRAILER) @ t) = literal_decodes (s @ t)" if "literal_aligned s" for s t
  proof -
    obtain bs where "s = concat (map literal_block bs)" using literal_aligned_blocks \<open>literal_aligned s\<close> by blast
    then show ?thesis using literal_blocks(1) [of bs] by simp
  qed
  show ?thesis
    unfolding format_laws_def literal_view_def format_view.simps
    by (intro conjI allI impI) (assumption | rule al cc em literal_prefix | simp)+
qed

lemma literal_compressor: "compressor_laws literal_flate literal_view"
proof -
  have whole: "literal_decodes (concat (map literal_block bs)) = Some (plain_of bs) \<and> literal_aligned (concat (map literal_block bs))" for bs
    using literal_blocks [of bs "[]"] by simp
  show ?thesis
    unfolding compressor_laws_def
    by (auto simp: literal_flate_def literal_view_def literal_compress_def Let_def whole split: if_splits)
qed

lemma literal_decompressor: "decompressor_laws literal_flate literal_view"
proof -
  have rest: "\<exists>r. l = take n l @ r" for l :: bytes and n by (rule exI [of _ "drop n l"]) simp
  show ?thesis
    unfolding decompressor_laws_def
    by (auto simp: literal_flate_def literal_view_def literal_decompress_def Let_def rest)
qed

text \<open>A byte costs at most its two bytes and the marker that may follow.\<close>

lemma length_literal_blocks: "length (concat (map literal_block (map Some bs))) = 2 * length bs"
  by (induction bs) simp_all

lemma literal_compress_within:
  "compress_within literal_flate (\<lambda>c. if flushed (fst c) then 0 else 5)"
  unfolding compress_within_def
proof (intro allI)
  fix c :: literal_compressor and input :: bytes and sync
  have "5 \<le> 14 * length input" if "input \<noteq> []" using that by (cases input) simp_all
  then show "case compress_call literal_flate c input sync of
      (Ok (st, consumed, out), c') \<Rightarrow> consumed \<le> length input \<and>
        (if flushed (fst c') then 0 else 5) + length out \<le> (if flushed (fst c) then 0 else 5) + 16 * consumed
    | (Err _, _) \<Rightarrow> True | (Panic, _) \<Rightarrow> False"
    using length_literal_blocks [of input]
    by (cases "input = []") (auto simp: literal_flate_def literal_compress_def flushed_def Let_def)
qed

lemma literal_compress_fits: "compress_fits literal_flate 5"
  unfolding compress_fits_def using literal_compress_within by (intro exI conjI) auto

end
