(* ===== verification/Conversation.thy ===== *)
theory Conversation
  imports Message_Exchange Deflate_Sample
begin

text \<open>
  A conversation: a sequence of messages that one endpoint sends and the other reads, on a
  connection with or without compression, through \<open>prepare_data\<close>, the frame codecs of both
  ends, any chunking of the stream, and \<open>inflate_frame\<close>.
\<close>

section \<open>Sending and reading many messages\<close>

fun send_all :: "('c, 'd) flate \<Rightarrow> message list \<Rightarrow> ('c, 'd) ws \<Rightarrow> unit result \<times> ('c, 'd) ws" where
  "send_all fl [] s = (Ok (), s)"
| "send_all fl (m # ms) s = and_then (websocket_send fl m s) (\<lambda>_ t. send_all fl ms t)"

fun read_all :: "('c, 'd) flate \<Rightarrow> nat \<Rightarrow> ('c, 'd) ws \<Rightarrow> message list result \<times> ('c, 'd) ws" where
  "read_all fl 0 s = (Ok [], s)"
| "read_all fl (Suc n) s =
     and_then (ctx_read fl s) (\<lambda>m t. and_then (read_all fl n t) (\<lambda>ms t'. (Ok (m # ms), t')))"

fun data_of :: "message \<Rightarrow> (data_op \<times> bytes) option" where
  "data_of (Text d) = Some (TextOp, d)"
| "data_of (Binary d) = Some (BinaryOp, d)"
| "data_of _ = None"

text \<open>The sender and the receiver of a conversation, between two messages.\<close>

definition deflates_in_step ::
  "('c, 'd) format_view \<Rightarrow> ('c, 'd) deflate_context option \<Rightarrow> ('c, 'd) deflate_context option \<Rightarrow> bool" where
  "deflates_in_step v a b \<longleftrightarrow>
     (case (a, b) of (None, None) \<Rightarrow> True | (Some e, Some d) \<Rightarrow> in_step v e d | _ \<Rightarrow> False)"

definition speaking :: "('c, 'd) ctx \<Rightarrow> bool" where
  "speaking x \<longleftrightarrow> ws_state x = Active \<and> additional_send x = None"

definition listening :: "('c, 'd) ctx \<Rightarrow> bool" where
  "listening z \<longleftrightarrow> can_read (ws_state z) \<and> limit_ok (max_message_size (cfg z)) \<and> incomplete_msg z = None \<and>
     additional_send z = None \<and> \<not> unflushed_additional z \<and> codec_header (frame_codec z) = None"

definition conversing :: "('c, 'd) format_view \<Rightarrow> ('c, 'd) ctx \<Rightarrow> ('c, 'd) ctx \<Rightarrow> bool" where
  "conversing v x z \<longleftrightarrow> speaking x \<and> listening z \<and> ctx_role z \<noteq> ctx_role x \<and> deflates_in_step v (deflate x) (deflate z)"

text \<open>A message within the receiver's limits, however it is compressed.\<close>

definition acceptable :: "('c, 'd) flate \<Rightarrow> config \<Rightarrow> message \<Rightarrow> bool" where
  "acceptable fl c msg \<longleftrightarrow> message_ok (max_message_size c) msg \<and>
     (\<exists>opc d. data_of msg = Some (opc, d) \<and> length d \<le> isize_max \<and> length d \<le> read_limit (max_frame_size c) \<and>
        (\<forall>e out. fst (compress fl d e) = Ok out \<longrightarrow> length out \<le> read_limit (max_frame_size c)))"

section \<open>The sender's side\<close>

lemma flush_quiet:
  assumes "speaking x" "ctx_flush (x, w) = (Ok (), y, v)"
  shows "sent v = sent w @ out_buffer (frame_codec x) \<and> out_buffer (frame_codec y) = [] \<and> speaking y \<and>
    deflate y = deflate x \<and> ctx_role y = ctx_role x"
proof -
  have i: "inner_write None (x, w) = (Ok (unflushed_additional x), x, w)"
    using assms(1) by (simp add: inner_write_def send_additional_def finish_write_def speaking_def)
  obtain r c v1 where b: "write_out_buffer (frame_codec x, w) = (r, c, v1)" by (metis prod.exhaust)
  have r: "r = Ok ()" using assms(2) i b by (cases r) (auto simp: ctx_flush_def ctx_write_out_def split: if_splits)
  obtain r2 v2 where f: "stream_flush v1 = (r2, v2)" by fastforce
  have "r2 = Ok ()" "v = v2" "y = x\<lparr>frame_codec := c, unflushed_additional := False\<rparr>"
    using assms(2) i b f r
    by (cases r2; auto simp: ctx_flush_def ctx_write_out_def ctx_stream_flush_def split: if_splits)+
  moreover have "sent v2 = sent v1" using stream_flush_frame [OF f] by simp
  moreover have "sent v1 @ out_buffer c = sent w @ out_buffer (frame_codec x)" "out_buffer c = []"
    using write_out_buffer_spec [OF b] r unfolding stream_so_far_def by auto
  ultimately show ?thesis using assms(1) by (simp add: speaking_def)
qed

lemma write_frame_sent:
  assumes "speaking x" "write_frame f (x, w) = (Ok (), y, v)"
  shows "sent v @ out_buffer (frame_codec y) = sent w @ out_buffer (frame_codec x) @ wire (outgoing x w f) \<and>
    speaking y \<and> deflate y = deflate x \<and> ctx_role y = ctx_role x"
proof -
  obtain r y1 v1 where b: "ctx_buffer_frame f (x, w) = (r, y1, v1)" by (metis prod.exhaust)
  note spec = ctx_buffer_frame_spec [OF b]
  have r: "r = Ok ()" using assms(2) b by (cases r) (auto simp: write_frame_def inner_write_def)
  then have fits: "can_buffer (frame_codec x) (frame_len (outgoing x w f))" using spec by (simp split: if_splits)
  have y1: "y1 = x\<lparr>frame_codec := frame_codec y1\<rparr>" using spec by blast
  have s1: "speaking y1" "deflate y1 = deflate x" "ctx_role y1 = ctx_role x" "unflushed_additional y1 = unflushed_additional x"
    using assms(1) by (subst y1; simp add: speaking_def)+
  have sent1: "sent v1 @ out_buffer (frame_codec y1) = sent w @ out_buffer (frame_codec x) @ wire (outgoing x w f)"
    using spec fits by (simp add: ws_sent_def stream_so_far_def)
  have i: "inner_write (Some f) (x, w) = (Ok (unflushed_additional x), y1, v1)"
    using b r s1(1,4) by (simp add: inner_write_def send_additional_def finish_write_def speaking_def)
  show ?thesis
  proof (cases "unflushed_additional x")
    case True
    then have "ctx_flush (y1, v1) = (Ok (), y, v)" using assms(2) i by (simp add: write_frame_def)
    from flush_quiet [OF s1(1) this] show ?thesis using sent1 s1 by simp
  next
    case False
    then have "y = y1 \<and> v = v1" using assms(2) i by (simp add: write_frame_def)
    then show ?thesis using sent1 s1 by simp
  qed
qed

text \<open>What \<open>prepare_data\<close> makes of a message.\<close>

lemma prepare_data_cases:
  assumes "prepare_data fl d opc x = (Ok f, x1)"
  obtains (plain) "f = data_frame d opc" "x1 = x" "deflate x = None"
  | (too_long) e e1 out where "f = data_frame d opc" "deflate x = Some e" "compress fl d e = (Ok out, e1)"
      "x1 = x\<lparr>deflate := Some (reset_encoder fl e1)\<rparr>"
  | (compressed) e e1 out where "f = (data_frame out opc)\<lparr>header := (header (data_frame out opc))\<lparr>rsv1 := True\<rparr>\<rparr>"
      "deflate x = Some e" "compress fl d e = (Ok out, e1)" "x1 = x\<lparr>deflate := Some e1\<rparr>"
proof (cases "deflate x")
  case None
  then show ?thesis using assms that(1) by (simp add: prepare_data_def)
next
  case (Some e)
  obtain r e1 where c: "compress fl d e = (r, e1)" by fastforce
  have p: "payload (data_frame d opc) = d" by (simp add: data_frame_def frame_message_def)
  then obtain out where "r = Ok out"
    using assms Some c by (cases r) (auto simp: prepare_data_def Let_def split: if_splits)
  then show ?thesis
    using assms Some c p that(2) that(3) by (auto simp: prepare_data_def Let_def split: if_splits)
qed

lemma send_data:
  assumes "speaking x" "data_of msg = Some (opc, d)" "websocket_send fl msg (x, w) = (Ok (), y, v)"
  obtains f x1 where "prepare_data fl d opc x = (Ok f, x1)" "out_buffer (frame_codec y) = []"
    "sent v = sent w @ out_buffer (frame_codec x) @ wire (outgoing x w f)"
    "speaking y" "deflate y = deflate x1" "ctx_role y = ctx_role x"
proof -
  have wr: "ctx_write fl msg (x, w) = write_data fl d opc (x, w)"
    using assms(1,2) by (cases msg) (auto simp: ctx_write_def speaking_def)
  obtain s1 where s1: "write_data fl d opc (x, w) = (Ok (), s1)" "ctx_flush s1 = (Ok (), y, v)"
    using assms(3) by (auto simp: websocket_send_def wr and_then_Ok_iff)
  obtain r x1 where p: "prepare_data fl d opc x = (r, x1)" by fastforce
  then obtain f where f: "r = Ok f" "write_frame f (x1, w) = (Ok (), s1)"
    using s1(1) by (cases r) (simp_all add: write_data_def)
  have x1: "speaking x1" "ctx_role x1 = ctx_role x" "frame_codec x1 = frame_codec x"
    using prepare_data_simps [of fl d opc x] p assms(1) by (simp_all add: speaking_def)
  obtain y1 v1 where y1: "s1 = (y1, v1)" by fastforce
  note ws = write_frame_sent [OF x1(1) f(2) [unfolded y1]]
  have "outgoing x1 w f = outgoing x w f" by (simp add: outgoing_def x1(2))
  then show thesis
    using that [OF p [unfolded f(1)]] ws flush_quiet [of y1 v1 y v] s1(2) x1 y1 by simp
qed

section \<open>The receiver's side\<close>

lemma data_frame_simps [simp]:
  "payload (data_frame d opc) = d" "hdr_opcode (header (data_frame d opc)) = DataOp opc"
  "is_final (header (data_frame d opc))" "hdr_mask (header (data_frame d opc)) = None"
  "\<not> rsv1 (header (data_frame d opc))" "\<not> rsv2 (header (data_frame d opc))" "\<not> rsv3 (header (data_frame d opc))"
  by (simp_all add: data_frame_def frame_message_def default_header_def)

abbreviation compressed_frame :: "bytes \<Rightarrow> data_op \<Rightarrow> frame" where
  "compressed_frame out opc \<equiv> (data_frame out opc)\<lparr>header := (header (data_frame out opc))\<lparr>rsv1 := True\<rparr>\<rparr>"

lemma handle_data_whole:
  assumes "data_of msg = Some (opc, d)" "payload f = d" "is_final (header f)" "incomplete_msg z = None"
    and "message_ok (max_message_size (cfg z)) msg"
  shows "handle_data f opc z = (Ok (Some msg), z)"
proof -
  have "check_max_size (length d) (max_message_size (cfg z)) = Ok ()"
    using assms(1,5) by (cases msg) (auto simp: check_max_size_Ok within_def)
  then show ?thesis
    using assms
    by (cases msg) (auto simp: handle_data_def collect_data_def deliver_data_def utf8_try_from_def valid_utf8_def)
qed

lemma data_of_op: "data_of msg = Some (opc, d) \<Longrightarrow> opc = TextOp \<or> opc = BinaryOp"
  by (cases msg) auto

lemma handle_plain:
  assumes "listening z" "data_of msg = Some (opc, d)" "message_ok (max_message_size (cfg z)) msg"
  shows "handle_frame fl (data_frame d opc) z = (Ok (Some msg), z)"
proof -
  have i: "inflate_frame fl (data_frame d opc) z = (Ok (data_frame d opc), z)"
    using assms(1) data_of_op [OF assms(2)]
    by (auto simp: inflate_frame_def owns_stream_def listening_def frame_compressed_def remember_compressed_def)
  have "check_frame (data_frame d opc) z = (Ok (), z)"
    using assms(1) by (simp add: check_frame_def listening_def reserved_bits_set_def is_masked_def)
  then show ?thesis
    using i handle_data_whole [OF assms(2) _ _ _ assms(3), of "data_frame d opc"] assms(1)
    by (simp add: handle_frame_def listening_def)
qed

lemma handle_compressed:
  assumes "listening z" "data_of msg = Some (opc, d)" "message_ok (max_message_size (cfg z)) msg"
    and "deflate z = Some dd" "decompress fl out True 0 (max_message_size (cfg z)) dd = (Ok d, dd')"
  shows "handle_frame fl (compressed_frame out opc) z = (Ok (Some msg), z\<lparr>deflate := Some dd'\<rparr>)"
proof -
  let ?z = "z\<lparr>deflate := Some dd'\<rparr>" and ?h = "(header (compressed_frame out opc))\<lparr>rsv1 := False\<rparr>"
  have n: "incomplete_msg z = None" using assms(1) by (simp add: listening_def)
  have "ctx_decompress fl out True z = (Ok d, ?z)" using assms(4,5) n by (simp add: ctx_decompress_def)
  then have p: "inflate_payload fl (compressed_frame out opc) z = (Ok (frame_from_payload ?h d), ?z)"
    by (simp add: inflate_payload_def)
  have "owns_stream opc z" "frame_compressed opc (compressed_frame out opc) z" "remember_compressed opc True True ?z = ?z"
    using data_of_op [OF assms(2)] n by (auto simp: owns_stream_def frame_compressed_def remember_compressed_def)
  then have i: "inflate_frame fl (compressed_frame out opc) z = (Ok (frame_from_payload ?h d), ?z)"
    using p by (simp add: inflate_frame_def)
  have "check_frame (compressed_frame out opc) z = (Ok (), z)"
    using assms(1,4) data_of_op [OF assms(2)]
    by (auto simp: check_frame_def listening_def reserved_bits_set_def is_masked_def)
  then show ?thesis
    using i n handle_data_whole [OF assms(2), of "frame_from_payload ?h d" ?z] assms(3)
    by (simp add: handle_frame_def frame_from_payload_def)
qed

lemma listening_same:
  assumes "listening z" "ws_state z' = ws_state z" "cfg z' = cfg z" "incomplete_msg z' = incomplete_msg z"
    and "additional_send z' = additional_send z" "unflushed_additional z' = unflushed_additional z"
    and "codec_header (frame_codec z') = None"
  shows "listening z'"
  using assms by (simp add: listening_def)

text \<open>The frame of one message, handled by a receiver that is in step with the sender.\<close>

lemma handle_prepared:
  assumes "format_laws v" "compressor_laws fl v" "decompressor_laws fl v"
    and "listening z" "deflates_in_step v (deflate x) (deflate z)" "acceptable fl (cfg z) msg"
    and "data_of msg = Some (opc, d)" "prepare_data fl d opc x = (Ok f, x1)"
  shows "\<exists>dz. handle_frame fl f z = (Ok (Some msg), z\<lparr>deflate := dz\<rparr>) \<and> deflates_in_step v (deflate x1) dz \<and>
    length (payload f) \<le> read_limit (max_frame_size (cfg z)) \<and> hdr_mask (header f) = None \<and>
    hdr_opcode (header f) = DataOp opc"
proof -
  have msg: "message_ok (max_message_size (cfg z)) msg" "length d \<le> isize_max"
    "length d \<le> read_limit (max_frame_size (cfg z))"
    "\<And>e out. fst (compress fl d e) = Ok out \<Longrightarrow> length out \<le> read_limit (max_frame_size (cfg z))"
    using assms(6,7) by (auto simp: acceptable_def)
  have lim: "message_limit (max_message_size (cfg z)) \<le> usize_max" "length d \<le> message_limit (max_message_size (cfg z))"
    using assms(4,7) msg(1,2) isize_less_usize
    by (cases msg; auto simp: listening_def limit_ok_def im_max_def message_limit_def within_def split: option.split)+
  from assms(8) show ?thesis
  proof (cases rule: prepare_data_cases)
    case plain
    have "z\<lparr>deflate := deflate z\<rparr> = z" by (cases z) simp
    then show ?thesis
      using handle_plain [OF assms(4,7) msg(1), of fl] plain assms(5) msg(3)
      by (intro exI [of _ "deflate z"]) simp
  next
    case (too_long e e1 out)
    obtain dd where dd: "deflate z = Some dd" "in_step v e dd"
      using assms(5) too_long(2) by (auto simp: deflates_in_step_def split: option.splits)
    have "own_window v (encoder e1) = own_window v (encoder e) \<and> e1 = e\<lparr>encoder := encoder e1\<rparr>"
    proof (cases "d = []")
      case False
      then show ?thesis
        using compress_grows [OF assms(2) too_long(3) False] by (auto simp: grows_def compressor_lawsD [OF assms(2)])
    qed (use too_long(3) compress_empty [of fl e out e1] in simp)
    then have "reset_encoder fl e1 = e\<lparr>encoder := compress_reset fl (encoder e1)\<rparr>"
      "own_window v (encoder e1) = own_window v (encoder e)"
      by (simp_all add: reset_encoder_def, metis deflate_context.update_convs(1) deflate_context.surjective)
    then have "in_step v (reset_encoder fl e1) dd"
      using in_step_reset_encoder [OF assms(1,2) dd(2)] by blast
    moreover have "z\<lparr>deflate := deflate z\<rparr> = z" by (cases z) simp
    ultimately show ?thesis
      using handle_plain [OF assms(4,7) msg(1), of fl] too_long dd msg(3)
      by (intro exI [of _ "deflate z"]) (simp add: deflates_in_step_def)
  next
    case (compressed e e1 out)
    obtain dd where dd: "deflate z = Some dd" "in_step v e dd"
      using assms(5) compressed(2) by (auto simp: deflates_in_step_def split: option.splits)
    obtain dd' where dd': "decompress fl out True 0 (max_message_size (cfg z)) dd = (Ok d, dd')" "in_step v e1 dd'"
      using in_step_message [OF assms(1-3) dd(2) compressed(3) msg(2) lim(2,1)] by blast
    show ?thesis
      using handle_compressed [OF assms(4,7) msg(1) dd(1) dd'(1)] compressed dd'(2) msg(4) [of e out]
      by (intro exI [of _ "Some dd'"]) (simp add: deflates_in_step_def)
  qed
qed

section \<open>One message and many\<close>

text \<open>Bytes that may still arrive, and what the receiver does with them.\<close>

definition awaits :: "('c, 'd) ws \<Rightarrow> read_event list \<Rightarrow> bytes \<Rightarrow> bool" where
  "awaits s tail data \<longleftrightarrow> in_ok (read_limit (max_frame_size (cfg (fst s)))) (frame_codec (fst s)) (snd s) \<and>
     (\<exists>chunks. chunked chunks tail (snd s) \<and> in_buffer (frame_codec (fst s)) @ concat chunks = data)"

lemma read_prepared:
  assumes "format_laws v" "compressor_laws fl v" "decompressor_laws fl v"
    and "conversing v x z" "acceptable fl (cfg z) msg" "websocket_send fl msg (x, w) = (Ok (), y, w')"
  shows "\<exists>added. sent w' = sent w @ out_buffer (frame_codec x) @ added \<and> out_buffer (frame_codec y) = [] \<and>
    (\<forall>u tail rest. awaits (z, u) tail (added @ rest) \<longrightarrow>
       (\<exists>z' u'. ctx_read fl (z, u) = (Ok msg, z', u') \<and> awaits (z', u') tail rest \<and>
          conversing v y z' \<and> cfg z' = cfg z))"
proof -
  obtain opc d where op: "data_of msg = Some (opc, d)" using assms(5) by (auto simp: acceptable_def)
  have x: "speaking x" "listening z" "ctx_role z \<noteq> ctx_role x" "deflates_in_step v (deflate x) (deflate z)"
    using assms(4) by (simp_all add: conversing_def)
  obtain f x1 where s: "prepare_data fl d opc x = (Ok f, x1)" "out_buffer (frame_codec y) = []"
      "sent w' = sent w @ out_buffer (frame_codec x) @ wire (outgoing x w f)"
      "speaking y" "deflate y = deflate x1" "ctx_role y = ctx_role x"
    by (rule send_data [OF x(1) op assms(6)])
  let ?g = "outgoing x w f"
  have "\<exists>z' u'. ctx_read fl (z, u) = (Ok msg, z', u') \<and> awaits (z', u') tail rest \<and> conversing v y z' \<and> cfg z' = cfg z"
    if a: "awaits (z, u) tail (wire ?g @ rest)" for u tail rest
  proof -
    obtain chunks where a': "in_ok (read_limit (max_frame_size (cfg z))) (frame_codec z) u" "chunked chunks tail u"
        "in_buffer (frame_codec z) @ concat chunks = wire ?g @ rest"
      using a by (auto simp: awaits_def)
    obtain dz where f: "length (payload f) \<le> read_limit (max_frame_size (cfg z))" "hdr_mask (header f) = None"
        "hdr_opcode (header f) = DataOp opc"
      using handle_prepared [OF assms(1-3) x(2,4) assms(5) op s(1)] by auto
    have g: "masked_as (ctx_role z) f ?g" by (rule outgoing_masked [OF f(2) x(3)])
    have "read_limit (max_frame_size (cfg z)) \<le> usize_max" using a'(1) isize_less_usize by (simp add: in_ok_def)
    then have wf: "wire_frame ?g"
      using f data_of_op [OF op] by (auto simp: wire_frame_def wire_header_def usize_max_eq)
    obtain c u' chunks' where r: "fetch_frame (z, u) = (Ok f, z\<lparr>frame_codec := c\<rparr>, u')" "codec_header c = None"
        "in_ok (read_limit (max_frame_size (cfg z))) c u'" "chunked chunks' tail u'" "in_buffer c @ concat chunks' = rest"
      using fetch_wire [OF _ g f(2) wf f(1) a'] x(2) by (auto simp: listening_def)
    let ?z = "z\<lparr>frame_codec := c\<rparr>"
    have z: "listening ?z" "deflates_in_step v (deflate x) (deflate ?z)" "acceptable fl (cfg ?z) msg"
      using x(2,4) assms(5) r(2) by (simp_all add: listening_def)
    obtain dz where h: "handle_frame fl f ?z = (Ok (Some msg), ?z\<lparr>deflate := dz\<rparr>)" "deflates_in_step v (deflate x1) dz"
      using handle_prepared [OF assms(1-3) z op s(1)] by blast
    let ?z' = "?z\<lparr>deflate := dz\<rparr>"
    have "read_message_frame fl (z, u) = (Ok (Some msg), ?z', u')" using r(1) h(1) by (simp add: read_message_frame_def)
    moreover have "before_read (z, u) = (Ok (), z, u)" "ws_state z \<noteq> Terminated"
      using x(2) by (auto simp: before_read_def listening_def)
    ultimately have "ctx_read fl (z, u) = (Ok msg, ?z', u')"
      by (simp add: ctx_read_def read_messages.simps [of fl "(z, u)"])
    moreover have "awaits (?z', u') tail rest" using r by (auto simp: awaits_def)
    moreover have "listening ?z'" by (rule listening_same [OF x(2)]) (simp_all add: r(2))
    then have "conversing v y ?z'" using s(4-6) h(2) x(3) by (simp add: conversing_def)
    ultimately show ?thesis by (intro exI [of _ ?z'] exI [of _ u']) simp
  qed
  with s(2,3) show ?thesis by blast
qed

text \<open>What sending a sequence adds to the wire.\<close>

lemma send_all_sent:
  "speaking x \<Longrightarrow> list_all (acceptable fl c) msgs \<Longrightarrow> send_all fl msgs (x, w) = (Ok (), y, w') \<Longrightarrow>
     \<exists>added. sent w' @ out_buffer (frame_codec y) = sent w @ out_buffer (frame_codec x) @ added"
proof (induction msgs arbitrary: x w)
  case (Cons m ms)
  obtain x1 w1 where s: "websocket_send fl m (x, w) = (Ok (), x1, w1)" "send_all fl ms (x1, w1) = (Ok (), y, w')"
    using Cons.prems(3) by (auto simp: and_then_Ok_iff)
  obtain opc d where op: "data_of m = Some (opc, d)" using Cons.prems(2) by (auto simp: acceptable_def)
  obtain f where f: "sent w1 = sent w @ out_buffer (frame_codec x) @ wire (outgoing x w f)" "speaking x1"
      "out_buffer (frame_codec x1) = []"
    by (rule send_data [OF Cons.prems(1) op s(1)])
  from Cons.IH [OF f(2) _ s(2)] Cons.prems(2) obtain added where
    "sent w' @ out_buffer (frame_codec y) = sent w1 @ out_buffer (frame_codec x1) @ added" by auto
  then show ?case using f by (intro exI [of _ "wire (outgoing x w f) @ added"]) simp
qed simp

lemma read_all_sent:
  assumes "format_laws v" "compressor_laws fl v" "decompressor_laws fl v"
    and "conversing v x z" "list_all (acceptable fl (cfg z)) msgs" "send_all fl msgs (x, w) = (Ok (), y, w')"
    and "sent w' @ out_buffer (frame_codec y) = sent w @ out_buffer (frame_codec x) @ added"
    and "awaits (z, u) tail (added @ rest)"
  shows "\<exists>z' u'. read_all fl (length msgs) (z, u) = (Ok msgs, z', u') \<and> awaits (z', u') tail rest \<and> conversing v y z'"
  using assms(4-8)
proof (induction msgs arbitrary: x z w u added)
  case Nil
  then show ?case by auto
next
  case (Cons m ms)
  obtain x1 w1 where s: "websocket_send fl m (x, w) = (Ok (), x1, w1)" "send_all fl ms (x1, w1) = (Ok (), y, w')"
    using Cons.prems(3) by (auto simp: and_then_Ok_iff)
  have acc: "acceptable fl (cfg z) m" "list_all (acceptable fl (cfg z)) ms" using Cons.prems(2) by simp_all
  obtain a1 where a1: "sent w1 = sent w @ out_buffer (frame_codec x) @ a1" "out_buffer (frame_codec x1) = []"
      "\<And>u tail rest. awaits (z, u) tail (a1 @ rest) \<Longrightarrow>
         \<exists>z' u'. ctx_read fl (z, u) = (Ok m, z', u') \<and> awaits (z', u') tail rest \<and> conversing v x1 z' \<and> cfg z' = cfg z"
    using read_prepared [OF assms(1-3) Cons.prems(1) acc(1) s(1)] by blast
  have "speaking x1"
    using Cons.prems(1) acc(1) s(1) by (auto simp: conversing_def acceptable_def elim: send_data)
  then obtain a2 where a2: "sent w' @ out_buffer (frame_codec y) = sent w1 @ out_buffer (frame_codec x1) @ a2"
    using send_all_sent [OF _ acc(2) s(2)] by blast
  then have added: "added = a1 @ a2" using Cons.prems(4) a1(1,2) by simp
  then obtain z1 u1 where z1: "ctx_read fl (z, u) = (Ok m, z1, u1)" "awaits (z1, u1) tail (a2 @ rest)"
      "conversing v x1 z1" "cfg z1 = cfg z"
    using a1(3) [of u tail "a2 @ rest"] Cons.prems(5) by auto
  from Cons.IH [OF z1(3) _ s(2) a2 z1(2)] acc(2) z1(1,4) show ?case by auto
qed

text \<open>
  Claim C1. Messages arrive, in order and unchanged, with compression and without: when two
  endpoints agree on compression or on none and one of them has sent any sequence of text
  and binary messages successfully, then the bytes that it has added to the wire make the
  other endpoint, however they are chunked and whatever follows, read exactly this sequence
  and leave what follows for the next read. Afterwards the two ends are in step again, so
  that the conversation can go on. This holds in both directions, through masking, with and
  without context takeover, for empty messages, and when a compressed message did not fit
  the write buffer and was sent uncompressed.
\<close>

theorem messages_arrive:
  assumes "format_laws v" "compressor_laws fl v" "decompressor_laws fl v"
    and "conversing v x z" "list_all (acceptable fl (cfg z)) msgs" "send_all fl msgs (x, w) = (Ok (), y, w')"
  shows "\<exists>added. sent w' @ out_buffer (frame_codec y) = sent w @ out_buffer (frame_codec x) @ added \<and>
    (\<forall>u tail rest. awaits (z, u) tail (added @ rest) \<longrightarrow>
       (\<exists>z' u'. read_all fl (length msgs) (z, u) = (Ok msgs, z', u') \<and> awaits (z', u') tail rest \<and>
          conversing v y z'))"
proof -
  have "speaking x" using assms(4) by (simp add: conversing_def)
  from send_all_sent [OF this assms(5,6)] obtain added where
    "sent w' @ out_buffer (frame_codec y) = sent w @ out_buffer (frame_codec x) @ added" by blast
  with read_all_sent [OF assms this] show ?thesis by blast
qed

text \<open>A server that agreed on compression says three things to its client.\<close>

definition talk_config :: config where
  "talk_config = default_config\<lparr>cfg_deflate := Some default_settings, write_buffer_size := 0\<rparr>"

definition talk_deflate :: "(literal_compressor, literal_decompressor) deflate_context" where
  "talk_deflate = \<lparr>encoder = ([], 15), decoder_of = \<lparr>dec_stream = ([], [], 15), dec_window_bits = 15\<rparr>,
     reset_encoder_flag = False, reset_decoder_flag = False\<rparr>"

definition talk_ctx :: "role \<Rightarrow> (literal_compressor, literal_decompressor) ctx" where
  "talk_ctx r = \<lparr>ctx_role = r, frame_codec = (codec_new 16)\<lparr>out_buffer_write_len := 0\<rparr>, ws_state = Active,
     incomplete_msg = None, additional_send = None, unflushed_additional = False, cfg = talk_config,
     deflate = Some talk_deflate, compressed_incomplete = False, compression_unusable = False\<rparr>"

lemmas send_simps = websocket_send_def ctx_write_def write_data_def prepare_data_def data_frame_def frame_message_def
  can_buffer_def wire_size_def frame_len_def header_len_def for_length_def sat_add_def usize_max_eq default_header_def
  compress_def compress_input.simps compress_flush.simps compress_step_def made_progress.simps CHUNK_def isize_max_def usize_bits_def
  literal_flate_def literal_compress_def flushed_def ends_with_def TRAILER_def
  write_frame_def inner_write_def ctx_buffer_frame_def buffer_frame_def format_into_buf_def write_out_buffer.simps
  stream_write_def check_connection_reset_def send_additional_def finish_write_def ctx_flush_def ctx_write_out_def
  ctx_stream_flush_def stream_flush_def

lemma talk_deflate_new: "deflate_context_new literal_flate r default_settings = Ok talk_deflate"
  by (cases r) (simp_all add: deflate_context_new_def decoder_new_def window_in_range_def default_settings_def
      talk_deflate_def literal_flate_def Let_def)

lemma talk_conversing: "r' \<noteq> r \<Longrightarrow> conversing literal_view (talk_ctx r) (talk_ctx r')"
  using in_step_new [OF literal_format literal_compressor literal_decompressor talk_deflate_new talk_deflate_new, of r r']
  by (simp add: conversing_def speaking_def listening_def talk_ctx_def deflates_in_step_def talk_config_def
      default_config_def limit_ok_def im_max_def usize_max_eq codec_new_def)

lemma talk_acceptable:
  assumes "data_of msg = Some (opc, d)" "length d \<le> 1000" "message_ok (Some (64 * 2 ^ 20)) msg"
  shows "acceptable literal_flate talk_config msg"
proof -
  have "length out \<le> 16 * 2 ^ 20" if "fst (compress literal_flate d e) = Ok out" for e out
    using compress_bounded [OF literal_compress_fits, of d e] assms(2) that
    by (cases "compress literal_flate d e") (auto simp: CHUNK_def isize_max_def usize_bits_def)
  then show ?thesis
    using assms by (auto simp: acceptable_def talk_config_def default_config_def read_limit_def isize_max_def usize_bits_def)
qed

definition talk :: "message list" where
  "talk = [Text [72, 105], Text [], Binary [0, 255]]"

theorem messages_arrive_witness:
  "\<exists>y w z' u. send_all literal_flate talk (talk_ctx Server, idle_world) = (Ok (), y, w) \<and>
     read_all literal_flate 3 (talk_ctx Client, idle_world\<lparr>reads := [RdBytes (take 3 (sent w)), RdBytes (drop 3 (sent w))]\<rparr>) =
       (Ok talk, z', u)"
proof -
  obtain y w where s: "send_all literal_flate talk (talk_ctx Server, idle_world) = (Ok (), y, w)"
      "out_buffer (frame_codec y) = []" "3 < length (sent w)" "length (sent w) \<le> 1000"
    by (simp add: send_simps talk_ctx_def talk_deflate_def codec_new_def idle_world_def talk_def header_format_def)
  have v: "valid_utf8 [72, 105]" by (simp add: valid_utf8_cons utf8_head_def)
  have acc: "list_all (acceptable literal_flate (cfg (talk_ctx Client))) talk"
    using v talk_acceptable [of "Text [72, 105]" TextOp "[72, 105]"] talk_acceptable [of "Text []" TextOp "[]"]
      talk_acceptable [of "Binary [0, 255]" BinaryOp "[0, 255]"]
    by (simp add: talk_def talk_ctx_def within_def)
  obtain added where a: "sent w @ out_buffer (frame_codec y) = sent idle_world @ out_buffer (frame_codec (talk_ctx Server)) @ added"
      "\<And>u tail rest. awaits (talk_ctx Client, u) tail (added @ rest) \<Longrightarrow>
         \<exists>z' u'. read_all literal_flate (length talk) (talk_ctx Client, u) = (Ok talk, z', u')"
    using messages_arrive [OF literal_format literal_compressor literal_decompressor talk_conversing acc s(1)] by blast
  have sent: "added = sent w" using a(1) s(2) by (simp add: idle_world_def talk_ctx_def codec_new_def)
  let ?u = "idle_world\<lparr>reads := [RdBytes (take 3 (sent w)), RdBytes (drop 3 (sent w))]\<rparr>"
  have "awaits (talk_ctx Client, ?u) [] (added @ [])"
    unfolding awaits_def
    by (intro conjI exI [of _ "[take 3 (sent w), drop 3 (sent w)]"])
      (use s(3,4) in \<open>auto simp: in_ok_def chunked_def talk_ctx_def codec_new_def read_limit_def talk_config_def
        default_config_def header_max_size_def isize_max_def usize_bits_def sent\<close>)
  from a(2) [OF this] s(1) show ?thesis by (auto simp: talk_def numeral_3_eq_3)
qed

end
