(* ===== verification/Closing_Handshake.thy ===== *)
theory Closing_Handshake
  imports Conversation
begin

text \<open>
  The closing handshake of RFC 6455, between the two ends: the application of one end calls
  \<open>close\<close>, the other end reads the close frame and its next flush replies, and the first end
  reads the reply. Both ends agree on the code, both know that the connection is closed.
\<close>

section \<open>Close frames\<close>

text \<open>What the receiver makes of the code it is given (\<open>do_close\<close>).\<close>

definition agreed_close :: "close_frame option \<Rightarrow> close_frame option" where
  "agreed_close code = map_option (\<lambda>cf.
     if \<not> is_allowed (cf_code cf)
     then \<lparr>cf_code = ProtocolCode, cf_reason = ascii ''Protocol violation''\<rparr> else cf) code"

text \<open>A close frame that can be on the wire: its code is one of a \<open>u16\<close>, its reason is short.\<close>

definition proper_close :: "close_frame option \<Rightarrow> bool" where
  "proper_close code \<longleftrightarrow> (case code of None \<Rightarrow> True
     | Some cf \<Rightarrow> close_code_from_u16 (u16_from_close_code (cf_code cf)) = cf_code cf \<and>
         valid_utf8 (cf_reason cf) \<and> length (cf_reason cf) \<le> 123)"

lemma agreed_close_proper: "proper_close code \<Longrightarrow> proper_close (agreed_close code)"
proof -
  have "valid_utf8 (ascii ''Protocol violation'')" by (simp add: valid_utf8_cons utf8_head_def)
  moreover have "close_code_from_u16 1002 = ProtocolCode" by (simp add: close_code_from_u16_def)
  ultimately show "proper_close code \<Longrightarrow> proper_close (agreed_close code)"
    by (cases code) (simp_all add: proper_close_def agreed_close_def)
qed

lemma frame_into_close_proper: "proper_close code \<Longrightarrow> frame_into_close (frame_close code) = Ok code"
proof (cases code)
  case None
  then show ?thesis by (simp add: frame_into_close_def frame_close_def)
next
  case (Some cf)
  assume "proper_close code"
  then have "frame_into_close (frame_close (Some cf)) = Ok (Some cf)"
    using Some by (intro close_frame_roundtrip) (simp_all only: proper_close_def option.case)
  then show ?thesis by (simp only: Some)
qed

lemma frame_close_simps [simp]:
  "hdr_opcode (header (frame_close code)) = ControlOp CloseOp" "is_final (header (frame_close code))"
  "\<not> rsv1 (header (frame_close code))" "\<not> rsv2 (header (frame_close code))" "\<not> rsv3 (header (frame_close code))"
  by (simp_all add: frame_close_def default_header_def Let_def)

lemma frame_close_short: "proper_close code \<Longrightarrow> length (payload (frame_close code)) \<le> 125"
  by (auto simp: frame_close_def proper_close_def split: option.splits)

text \<open>131 bytes are enough for any control frame.\<close>

lemma can_buffer_mono: "can_buffer c m \<Longrightarrow> n \<le> m \<Longrightarrow> can_buffer c n"
  by (auto simp: can_buffer_def sat_add_def)

lemma close_frame_buffered:
  assumes "proper_close code" "can_buffer c 131"
  shows "can_buffer c (frame_len (outgoing x w (frame_close code)))"
proof (rule can_buffer_mono [OF assms(2)])
  show "frame_len (outgoing x w (frame_close code)) \<le> 131"
    using frame_close_short [OF assms(1)] outgoing_simps(2) [of x w "frame_close code"]
    by (simp add: frame_len_def header_len_def for_length_def)
qed

section \<open>One side closes\<close>

definition open_end :: "('c, 'd) ctx \<Rightarrow> bool" where
  "open_end x \<longleftrightarrow> listening x \<and> ws_state x = Active \<and> \<not> compression_unusable x \<and>
     can_buffer (frame_codec x) 131 \<and> 125 \<le> read_limit (max_frame_size (cfg x))"

lemma close_sends:
  assumes "open_end x" "accepting w" "proper_close code"
  shows "\<exists>y v. ctx_close code (x, w) = (Ok (), y, v) \<and>
    sent v = sent w @ out_buffer (frame_codec x) @ wire (outgoing x w (frame_close code)) \<and>
    listening y \<and> ws_state y = ClosedByUs \<and> \<not> compression_unusable y \<and> ctx_role y = ctx_role x \<and> cfg y = cfg x"
proof -
  let ?x = "x\<lparr>ws_state := ClosedByUs\<rparr>" and ?f = "frame_close code"
  have x: "listening x" "ws_state x = Active" "\<not> compression_unusable x" using assms(1) by (simp_all add: open_end_def)
  have o: "outgoing ?x w ?f = outgoing x w ?f" by (simp add: outgoing_def)
  have "can_buffer (frame_codec x) (frame_len (outgoing x w ?f))"
    by (rule close_frame_buffered [OF assms(3)]) (use assms(1) in \<open>simp add: open_end_def\<close>)
  then obtain c v where b: "ctx_buffer_frame ?f (?x, w) = (Ok (), ?x\<lparr>frame_codec := c\<rparr>, v)" "accepting v"
      "sent v @ out_buffer c = sent w @ out_buffer (frame_codec x) @ wire (outgoing x w ?f)"
    using ctx_buffer_frame_accepting [OF assms(2), of ?x ?f] by (auto simp: o)
  let ?y = "?x\<lparr>frame_codec := c\<rparr>"
  have y: "\<not> server_done ?y" "reply_fits ?y v" "pending_reply ?y v = []" "\<not> compression_unusable ?y"
    using x by (simp_all add: server_done_def reply_fits_def pending_reply_def listening_def)
  have i: "inner_write (Some ?f) (?x, w) = (Ok (unflushed_additional x), ?y, v)"
    using b(1) x(1) by (simp add: inner_write_def send_additional_def finish_write_def listening_def)
  obtain z u where z: "ctx_flush (?y, v) = (Ok (), z, u)" "sent u = sent v @ out_buffer c" "additional_send z = None"
      "ws_state z = ClosedByUs"
    using ctx_flush_accepting [OF b(2) y(2,4)] y(1,3) by auto
  have "ctx_close code (x, w) = (Ok (), z, u)"
    using i z(1) x(2) by (simp add: ctx_close_def)
  moreover have wo: "writes_only (?y, v) (z, u)" using ctx_flush_writes_only [of "(?y, v)"] z(1) by simp
  moreover have "codec_header c = None"
  proof -
    have "but_out c = but_out (frame_codec x)" using ctx_buffer_frame_spec [OF b(1)] by simp
    then show ?thesis using but_outD(6) x(1) by (metis listening_def)
  qed
  moreover have "\<not> unflushed_additional z"
    using z(1) y(4) by (auto simp: ctx_flush_def and_then_Ok_iff split: prod.splits)
  ultimately have "listening z"
    using x(1) z(3,4) but_outD(6) [of "frame_codec z" c] by (simp add: listening_def writes_only_def)
  then show ?thesis
    using \<open>ctx_close code (x, w) = (Ok (), z, u)\<close> z b(3) wo x(3) by (simp add: writes_only_def)
qed

section \<open>Reading a close frame\<close>

lemma fetch_frame_out:
  assumes "fetch_frame (z, u) = (r, z', u')"
  shows "out_buffer (frame_codec z') = out_buffer (frame_codec z) \<and>
    max_out_buffer_len (frame_codec z') = max_out_buffer_len (frame_codec z) \<and> sent u' = sent u"
proof -
  obtain r1 c v where f: "read_frame (max_frame_size (cfg z)) (ctx_role z = Server)
      (accept_unmasked_frames (cfg z)) (frame_codec z, u) = (r1, c, v)" by (metis prod.exhaust)
  have "out_same (frame_codec z, u) (c, v)" using read_frame_out [of "(frame_codec z, u)"] f by (metis snd_conv)
  moreover have "frame_codec z' = c" "u' = v"
    using assms f by (auto simp: fetch_frame_def Let_def split: outcome.splits option.splits if_splits)
  ultimately show ?thesis by (simp add: out_same_def)
qed

lemma close_frame_wire:
  assumes "proper_close code"
  shows "wire_frame (outgoing x w (frame_close code))"
  using frame_close_short [OF assms] by (simp add: wire_frame_def wire_header_def)

text \<open>The frame handled: an active end queues its reply, a closing one is done.\<close>

lemma handle_close:
  assumes "can_read (ws_state z)" "additional_send z = None" "proper_close code"
  shows "handle_frame fl (frame_close code) z =
    (if ws_state z = Active
     then (Ok (Some (Close (agreed_close code))),
        z\<lparr>ws_state := ClosedByPeer, additional_send := Some (frame_close (agreed_close code))\<rparr>)
     else (Ok (Some (Close code)), z\<lparr>ws_state := CloseAcknowledged\<rparr>))"
proof -
  have "check_frame (frame_close code) z = (Ok (), z)"
    using assms(1) by (simp add: check_frame_def reserved_bits_set_def is_masked_def)
  moreover have "inflate_frame fl (frame_close code) z = (Ok (frame_close code), z)" by (simp add: inflate_frame_def)
  moreover have "handle_control (frame_close code) CloseOp z =
      and_then (do_close code z) (\<lambda>r x2. (Ok (map_option Close r), x2))"
    using frame_into_close_proper [OF assms(3)] frame_close_short [OF assms(3)] by (simp add: handle_control_def)
  ultimately show ?thesis
    using assms(1,2)
    by (cases "ws_state z") (auto simp: handle_frame_def do_close_def agreed_close_def set_additional_def Let_def)
qed

lemma read_close:
  assumes "listening z" "125 \<le> read_limit (max_frame_size (cfg z))" "proper_close code" "ctx_role z \<noteq> ctx_role x"
    and "awaits (z, u) [] (wire (outgoing x w (frame_close code)))"
  shows "\<exists>c u'. ctx_read fl (z, u) = (case handle_frame fl (frame_close code) (z\<lparr>frame_codec := c\<rparr>) of
        (Ok (Some m), z') \<Rightarrow> (Ok m, z', u') | (_, z') \<Rightarrow> (Panic, z', u')) \<and>
      codec_header c = None \<and> in_buffer c = [] \<and> reads u' = [] \<and> in_ok (read_limit (max_frame_size (cfg z))) c u' \<and>
      out_buffer c = out_buffer (frame_codec z) \<and> max_out_buffer_len c = max_out_buffer_len (frame_codec z) \<and>
      sent u' = sent u"
proof -
  let ?f = "frame_close code"
  obtain chunks where a: "in_ok (read_limit (max_frame_size (cfg z))) (frame_codec z) u" "chunked chunks [] u"
      "in_buffer (frame_codec z) @ concat chunks = wire (outgoing x w ?f) @ []"
    using assms(5) by (auto simp: awaits_def)
  have "length (payload ?f) \<le> read_limit (max_frame_size (cfg z))"
    using frame_close_short [OF assms(3)] assms(2) by simp
  from fetch_wire [OF _ outgoing_masked [OF reply_frames_unmasked(1) assms(4)] reply_frames_unmasked(1)
      close_frame_wire [OF assms(3)] this a] assms(1)
  obtain c u' chunks' where r: "fetch_frame (z, u) = (Ok ?f, z\<lparr>frame_codec := c\<rparr>, u')" "codec_header c = None"
      "in_ok (read_limit (max_frame_size (cfg z))) c u'" "chunked chunks' [] u'" "in_buffer c @ concat chunks' = []"
    by (auto simp: listening_def)
  have e: "in_buffer c = []" "reads u' = []" using r(4,5) by (cases chunks'; simp add: chunked_def)+
  have "before_read (z, u) = (Ok (), z, u)" "ws_state z \<noteq> Terminated"
    using assms(1) by (auto simp: before_read_def listening_def)
  moreover have "\<exists>m z'. handle_frame fl ?f (z\<lparr>frame_codec := c\<rparr>) = (Ok (Some m), z')"
    using handle_close [of "z\<lparr>frame_codec := c\<rparr>", OF _ _ assms(3)] assms(1) by (simp add: listening_def)
  ultimately have "ctx_read fl (z, u) = (case handle_frame fl ?f (z\<lparr>frame_codec := c\<rparr>) of
        (Ok (Some m), z') \<Rightarrow> (Ok m, z', u') | (_, z') \<Rightarrow> (Panic, z', u'))"
    using r(1) by (auto simp: ctx_read_def read_messages.simps [of fl "(z, u)"] read_message_frame_def)
  then show ?thesis using r e fetch_frame_out [OF r(1)] by auto
qed

text \<open>After both close frames, the next \<open>read\<close> at the end of the stream reports the closed connection.\<close>

lemma read_ended:
  assumes "ws_state y = ClosedByPeer \<or> ws_state y = CloseAcknowledged" "additional_send y = None"
    and "\<not> unflushed_additional y" "codec_header (frame_codec y) = None" "in_buffer (frame_codec y) = []"
    and "reads v = []" "in_ok (read_limit (max_frame_size (cfg y))) (frame_codec y) v"
  shows "\<exists>y' v'. ctx_read fl (y, v) = (Err ConnectionClosed, y', v') \<and> ws_state y' = Terminated"
proof (cases "ctx_role y")
  case Server
  then have "before_read (y, v) = (Err ConnectionClosed, y\<lparr>ws_state := Terminated\<rparr>, v)"
    using assms(1-3) by (auto simp: before_read_def)
  then show ?thesis using assms(1) by (auto simp: ctx_read_def read_messages.simps [of fl "(y, v)"])
next
  case Client
  let ?lim = "read_limit (max_frame_size (cfg y))"
  have "next_frame ?lim (codec_header (frame_codec y)) (in_buffer (frame_codec y) @ concat []) = NeedMore None []"
    using assms(4,5) by (simp add: next_frame_def parse_internal_def)
  moreover have "chunked [] [] v" using assms(6) by (simp add: chunked_def)
  ultimately obtain c v' where l: "read_loop ?lim (frame_codec y, v) = (Ok None, c, v')"
    using read_loop_spec [OF assms(7), of "[]" "[]"] by auto
  have "read_frame (max_frame_size (cfg y)) (ctx_role y = Server) (accept_unmasked_frames (cfg y)) (frame_codec y, v) =
      (Ok None, c, v')"
    using read_frame_of_loop_other [OF l] by simp
  then have "fetch_frame (y, v) = (Err ConnectionClosed, (y\<lparr>frame_codec := c\<rparr>)\<lparr>ws_state := Terminated\<rparr>, v')"
    using assms(1) by (auto simp: fetch_frame_def check_connection_reset_def Let_def)
  moreover have "before_read (y, v) = (Ok (), y, v)" using Client assms(2,3) by (simp add: before_read_def)
  ultimately show ?thesis
    using assms(1) by (auto simp: ctx_read_def read_messages.simps [of fl "(y, v)"] read_message_frame_def)
qed

lemma in_ok_but_out: "in_ok m c w \<Longrightarrow> but_out c' = but_out c \<Longrightarrow> reads w' = reads w \<Longrightarrow> in_ok m c' w'"
  using but_outD [of c' c] by (auto simp: in_ok_def split: option.splits)

text \<open>
  The reply: the end that was told to close reads the close frame, and its flush sends the
  same code back. A server is then done; a client waits for the server to end the stream.
\<close>

text \<open>
  The stages of the handshake: a connection whose next read ends it, one whose flush sends the
  answer, and one that reads the answer to its own close frame.
\<close>

definition ends :: "('c, 'd) flate \<Rightarrow> ('c, 'd) ws \<Rightarrow> bool" where
  "ends fl s \<longleftrightarrow> (\<exists>z v. ctx_read fl s = (Err ConnectionClosed, z, v) \<and> ws_state z = Terminated)"

definition answer_sent :: "('c, 'd) flate \<Rightarrow> role \<Rightarrow> bytes \<Rightarrow> ('c, 'd) ws \<Rightarrow> bool" where
  "answer_sent fl r all s \<longleftrightarrow>
     (\<exists>z v. ctx_flush s = ((if r = Server then Err ConnectionClosed else Ok ()), z, v) \<and> sent v = all \<and>
        (if r = Server then ws_state z = Terminated else ends fl (z, v)))"

definition acknowledged :: "('c, 'd) flate \<Rightarrow> close_frame option \<Rightarrow> ('c, 'd) ws \<Rightarrow> bool" where
  "acknowledged fl code s \<longleftrightarrow>
     (\<exists>y v. ctx_read fl s = (Ok (Close code), y, v) \<and> ws_state y = CloseAcknowledged \<and> ends fl (y, v))"

lemma close_answered:
  assumes "open_end z" "proper_close code" "ctx_role z \<noteq> ctx_role x"
    and "awaits (z, u) [] (wire (outgoing x w (frame_close code)))"
  shows "\<exists>z1 u1. ctx_read fl (z, u) = (Ok (Close (agreed_close code)), z1, u1) \<and> ws_state z1 = ClosedByPeer \<and>
    (\<forall>u2. accepting u2 \<and> sent u2 = sent u1 \<and> reads u2 = reads u1 \<longrightarrow>
      answer_sent fl (ctx_role z)
        (sent u @ out_buffer (frame_codec z) @ wire (outgoing z u2 (frame_close (agreed_close code)))) (z1, u2))"
proof -
  let ?a = "agreed_close code"
  have z: "listening z" "ws_state z = Active" "\<not> compression_unusable z" "can_buffer (frame_codec z) 131"
    "125 \<le> read_limit (max_frame_size (cfg z))"
    using assms(1) by (simp_all add: open_end_def)
  obtain c u1 where r: "ctx_read fl (z, u) = (case handle_frame fl (frame_close code) (z\<lparr>frame_codec := c\<rparr>) of
        (Ok (Some m), z') \<Rightarrow> (Ok m, z', u1) | (_, z') \<Rightarrow> (Panic, z', u1))"
      "codec_header c = None" "in_buffer c = []" "reads u1 = []" "in_ok (read_limit (max_frame_size (cfg z))) c u1"
      "out_buffer c = out_buffer (frame_codec z)" "max_out_buffer_len c = max_out_buffer_len (frame_codec z)"
      "sent u1 = sent u"
    using read_close [OF z(1,5) assms(2,3,4), of fl] by blast
  let ?z = "z\<lparr>frame_codec := c\<rparr>"
  let ?z1 = "?z\<lparr>ws_state := ClosedByPeer, additional_send := Some (frame_close ?a)\<rparr>"
  have rd: "ctx_read fl (z, u) = (Ok (Close ?a), ?z1, u1)"
    using r(1) handle_close [of ?z code fl] z(1,2) assms(2) by (simp add: listening_def)
  have "answer_sent fl (ctx_role z)
      (sent u @ out_buffer (frame_codec z) @ wire (outgoing z u2 (frame_close ?a))) (?z1, u2)"
    if u2: "accepting u2" "sent u2 = sent u1" "reads u2 = reads u1" for u2
  proof -
    have "can_buffer c 131" using z(4) r(6,7) by (simp add: can_buffer_def)
    from close_frame_buffered [OF agreed_close_proper [OF assms(2)] this]
    have "reply_fits ?z1 u2" by (simp add: reply_fits_def)
    from ctx_flush_accepting [OF u2(1) this] z(3) obtain z2 u3 where
      f: "ctx_flush (?z1, u2) = ((if server_done ?z1 then Err ConnectionClosed else Ok ()), z2, u3)"
        "sent u3 = sent u2 @ out_buffer c @ pending_reply ?z1 u2" "additional_send z2 = None"
        "ws_state z2 = (if server_done ?z1 then Terminated else ClosedByPeer)"
      by auto
    have sd: "server_done ?z1 \<longleftrightarrow> ctx_role z = Server" by (simp add: server_done_def)
    have out: "sent u3 = sent u @ out_buffer (frame_codec z) @ wire (outgoing z u2 (frame_close ?a))"
      using f(2) u2(2) r(6,8) by (simp add: pending_reply_def outgoing_def)
    show ?thesis
    proof (cases "ctx_role z = Server")
      case True
      then show ?thesis
        unfolding answer_sent_def using f sd out by (intro exI [of _ z2] exI [of _ u3]) simp
    next
      case False
      have wo: "writes_only (?z1, u2) (z2, u3)" using ctx_flush_writes_only [of "(?z1, u2)"] f(1) by simp
      then have same: "but_out (frame_codec z2) = but_out c" "reads u3 = reads u1" "cfg z2 = cfg z"
        using u2(3) by (simp_all add: writes_only_def)
      have "\<not> unflushed_additional z2"
        using f(1) False sd z(3) by (auto simp: ctx_flush_def and_then_Ok_iff split: prod.splits)
      then have "ends fl (z2, u3)"
        unfolding ends_def using f(3,4) False sd same r(2-4) but_outD(1,6) [OF same(1)] in_ok_but_out [OF r(5) same(1,2)]
        by (intro read_ended) simp_all
      then show ?thesis
        unfolding answer_sent_def using f sd out False by (intro exI [of _ z2] exI [of _ u3]) simp
    qed
  qed
  then show ?thesis using rd by (intro exI [of _ ?z1] exI [of _ u1]) simp
qed

lemma close_acknowledged:
  assumes "listening y" "ws_state y = ClosedByUs" "125 \<le> read_limit (max_frame_size (cfg y))"
    and "ctx_role y \<noteq> ctx_role z" "proper_close code" "awaits (y, v) [] (wire (outgoing z u (frame_close code)))"
  shows "acknowledged fl code (y, v)"
proof -
  obtain c v2 where r: "ctx_read fl (y, v) = (case handle_frame fl (frame_close code) (y\<lparr>frame_codec := c\<rparr>) of
        (Ok (Some m), z') \<Rightarrow> (Ok m, z', v2) | (_, z') \<Rightarrow> (Panic, z', v2))"
      "codec_header c = None" "in_buffer c = []" "reads v2 = []" "in_ok (read_limit (max_frame_size (cfg y))) c v2"
    using read_close [OF assms(1,3,5,4,6), of fl] by blast
  let ?y = "(y\<lparr>frame_codec := c\<rparr>)\<lparr>ws_state := CloseAcknowledged\<rparr>"
  have "ctx_read fl (y, v) = (Ok (Close code), ?y, v2)"
    using r(1) handle_close [of "y\<lparr>frame_codec := c\<rparr>" code fl] assms(1,2,5) by (simp add: listening_def)
  moreover have "ends fl (?y, v2)"
    unfolding ends_def by (rule read_ended) (use r assms(1) in \<open>simp_all add: listening_def\<close>)
  ultimately show ?thesis by (auto simp: acknowledged_def)
qed

section \<open>Properties\<close>

text \<open>
  Claim C3. The closing handshake completes, between any two open ends, a client and a server,
  whichever of them closes: \<open>close\<close> succeeds and puts a close frame on the wire; the other
  end, however the bytes are chunked, reads it as a close message with the code both may use;
  its next flush sends exactly one close frame with that code back, after which a server is
  terminated and a client learns that the connection is closed when the stream ends; and the
  first end reads the same code and then \<open>ConnectionClosed\<close>. Both connections end terminated.
\<close>

theorem closing_handshake:
  assumes "open_end x" "open_end z" "ctx_role z \<noteq> ctx_role x" "accepting w" "proper_close code"
  shows "\<exists>y v. ctx_close code (x, w) = (Ok (), y, v) \<and> ws_state y = ClosedByUs \<and>
    sent v = sent w @ out_buffer (frame_codec x) @ wire (outgoing x w (frame_close code)) \<and>
    (\<forall>u. awaits (z, u) [] (wire (outgoing x w (frame_close code))) \<longrightarrow>
      (\<exists>z1 u1. ctx_read fl (z, u) = (Ok (Close (agreed_close code)), z1, u1) \<and> ws_state z1 = ClosedByPeer \<and>
        (\<forall>u2 answer. accepting u2 \<and> sent u2 = sent u1 \<and> reads u2 = reads u1 \<and>
            answer = wire (outgoing z u2 (frame_close (agreed_close code))) \<longrightarrow>
          answer_sent fl (ctx_role z) (sent u @ out_buffer (frame_codec z) @ answer) (z1, u2) \<and>
          (\<forall>v1. awaits (y, v1) [] answer \<longrightarrow> acknowledged fl (agreed_close code) (y, v1)))))"
proof -
  let ?a = "agreed_close code"
  obtain y v where y: "ctx_close code (x, w) = (Ok (), y, v)" "listening y" "ws_state y = ClosedByUs"
      "sent v = sent w @ out_buffer (frame_codec x) @ wire (outgoing x w (frame_close code))"
      "ctx_role y = ctx_role x" "cfg y = cfg x"
    using close_sends [OF assms(1,4,5)] by blast
  have "125 \<le> read_limit (max_frame_size (cfg y))" "ctx_role y \<noteq> ctx_role z"
    using assms(1,3) y(5,6) by (simp_all add: open_end_def)
  note ack = close_acknowledged [OF y(2,3) this agreed_close_proper [OF assms(5)], of _ _ fl]
  have "\<exists>z1 u1. ctx_read fl (z, u) = (Ok (Close ?a), z1, u1) \<and> ws_state z1 = ClosedByPeer \<and>
      (\<forall>u2 answer. accepting u2 \<and> sent u2 = sent u1 \<and> reads u2 = reads u1 \<and>
          answer = wire (outgoing z u2 (frame_close ?a)) \<longrightarrow>
        answer_sent fl (ctx_role z) (sent u @ out_buffer (frame_codec z) @ answer) (z1, u2) \<and>
        (\<forall>v1. awaits (y, v1) [] answer \<longrightarrow> acknowledged fl ?a (y, v1)))"
    if a: "awaits (z, u) [] (wire (outgoing x w (frame_close code)))" for u
    using close_answered [OF assms(2,5,3) a, of fl] ack by blast
  then show ?thesis
    using y(1,3,4) by (intro exI [of _ y] exI [of _ v]) simp
qed

text \<open>A server that leaves, and its client.\<close>

lemma talk_open_end: "open_end (talk_ctx r)"
  by (simp add: open_end_def listening_def talk_ctx_def talk_config_def default_config_def limit_ok_def im_max_def
      usize_max_eq codec_new_def can_buffer_def sat_add_def read_limit_def)

definition bye :: "close_frame option" where
  "bye = Some \<lparr>cf_code = Away, cf_reason = [98, 121, 101]\<rparr>"

lemma bye_proper: "proper_close bye" "agreed_close bye = bye"
  by (simp_all add: bye_def proper_close_def agreed_close_def is_allowed_def close_code_from_u16_def valid_utf8_cons utf8_head_def)

lemma bye_wire: "wire (outgoing x w (frame_close bye)) \<noteq> []" "length (wire (outgoing x w (frame_close bye))) \<le> 1000"
proof -
  have "length (wire (outgoing x w (frame_close bye))) = frame_len (outgoing x w (frame_close bye))"
    by (simp add: length_wire)
  then have "2 \<le> length (wire (outgoing x w (frame_close bye))) \<and> length (wire (outgoing x w (frame_close bye))) \<le> 1000"
    using outgoing_simps(2) [of x w "frame_close bye"] frame_close_short [OF bye_proper(1)]
    by (simp add: frame_len_def header_len_def for_length_def)
  then show "wire (outgoing x w (frame_close bye)) \<noteq> []" "length (wire (outgoing x w (frame_close bye))) \<le> 1000"
    by auto
qed

lemma talk_awaits:
  assumes "frame_codec x = frame_codec (talk_ctx r)" "cfg x = talk_config" "data \<noteq> []" "length data \<le> 1000"
  shows "awaits (x, w\<lparr>reads := [RdBytes data]\<rparr>) [] data"
  unfolding awaits_def
  by (intro conjI exI [of _ "[data]"])
    (use assms in \<open>auto simp: in_ok_def chunked_def talk_ctx_def codec_new_def read_limit_def talk_config_def
      default_config_def header_max_size_def isize_max_def usize_bits_def\<close>)

theorem closing_handshake_witness:
  "\<exists>y v z1 u1 u2 answer. ctx_close bye (talk_ctx Server, idle_world) = (Ok (), y, v) \<and>
     ctx_read literal_flate (talk_ctx Client, idle_world\<lparr>reads := [RdBytes (sent v)]\<rparr>) = (Ok (Close bye), z1, u1) \<and>
     answer_sent literal_flate Client answer (z1, u2) \<and>
     acknowledged literal_flate bye (y, idle_world\<lparr>reads := [RdBytes answer]\<rparr>)"
proof -
  let ?x = "talk_ctx Server" and ?z = "talk_ctx Client"
  obtain y v where s: "ctx_close bye (?x, idle_world) = (Ok (), y, v)"
      "frame_codec y = frame_codec ?x" "cfg y = talk_config"
    by (simp add: ctx_close_def frame_close_def bye_def send_simps talk_ctx_def talk_deflate_def codec_new_def
        idle_world_def header_format_def)
  have out: "out_buffer (frame_codec (talk_ctx r)) = []" "sent idle_world = []" "ctx_role (talk_ctx r) = r" for r
    by (simp_all add: talk_ctx_def codec_new_def idle_world_def)
  have "ctx_role ?z \<noteq> ctx_role ?x" by (simp add: talk_ctx_def)
  from closing_handshake [OF talk_open_end talk_open_end this idle_accepting bye_proper(1), where fl = literal_flate] s(1)
  have hs: "sent v = wire (outgoing ?x idle_world (frame_close bye))"
    "awaits (?z, u) [] (wire (outgoing ?x idle_world (frame_close bye))) \<Longrightarrow>
      \<exists>z1 u1. ctx_read literal_flate (?z, u) = (Ok (Close bye), z1, u1) \<and>
        (\<forall>u2. accepting u2 \<and> sent u2 = sent u1 \<and> reads u2 = reads u1 \<longrightarrow>
          answer_sent literal_flate Client (sent u @ wire (outgoing ?z u2 (frame_close bye))) (z1, u2) \<and>
          (\<forall>v1. awaits (y, v1) [] (wire (outgoing ?z u2 (frame_close bye))) \<longrightarrow>
             acknowledged literal_flate bye (y, v1)))" for u
    by (fastforce simp: bye_proper(2) out)+
  let ?u = "idle_world\<lparr>reads := [RdBytes (sent v)]\<rparr>"
  have "awaits (?z, ?u) [] (wire (outgoing ?x idle_world (frame_close bye)))"
    unfolding hs(1) by (rule talk_awaits [OF refl _ bye_wire]) (simp add: talk_ctx_def)
  from hs(2) [OF this] obtain z1 u1 where z1: "ctx_read literal_flate (?z, ?u) = (Ok (Close bye), z1, u1)"
      "\<And>u2. accepting u2 \<and> sent u2 = sent u1 \<and> reads u2 = reads u1 \<Longrightarrow>
        answer_sent literal_flate Client (sent ?u @ wire (outgoing ?z u2 (frame_close bye))) (z1, u2) \<and>
        (\<forall>v1. awaits (y, v1) [] (wire (outgoing ?z u2 (frame_close bye))) \<longrightarrow> acknowledged literal_flate bye (y, v1))"
    by blast
  let ?u2 = "idle_world\<lparr>reads := reads u1, sent := sent u1\<rparr>"
  let ?answer = "wire (outgoing ?z ?u2 (frame_close bye))"
  have "accepting ?u2 \<and> sent ?u2 = sent u1 \<and> reads ?u2 = reads u1" by (simp add: accepting_def idle_world_def)
  from z1(2) [OF this] have f: "answer_sent literal_flate Client ?answer (z1, ?u2)"
      "\<And>v1. awaits (y, v1) [] ?answer \<Longrightarrow> acknowledged literal_flate bye (y, v1)"
    by (auto simp: idle_world_def)
  have "awaits (y, idle_world\<lparr>reads := [RdBytes ?answer]\<rparr>) [] ?answer" using talk_awaits [OF s(2,3) bye_wire] .
  from f(2) [OF this] have "ctx_close bye (?x, idle_world) = (Ok (), y, v) \<and>
     ctx_read literal_flate (?z, ?u) = (Ok (Close bye), z1, u1) \<and> answer_sent literal_flate Client ?answer (z1, ?u2) \<and>
     acknowledged literal_flate bye (y, idle_world\<lparr>reads := [RdBytes ?answer]\<rparr>)"
    by (intro conjI s(1) z1(1) f(1))
  then show ?thesis by (intro exI)
qed

end
