(* ===== verification/Utf8_Bytes.thy ===== *)
theory Utf8_Bytes
  imports Utf8 "HOL-Library.List_Lexorder"
begin

text \<open>
  \<open>Utf8Bytes\<close>, \<open>src/src/protocol/frame/utf8.rs\<close>: bytes known to be UTF-8. The crate relies on
  that without a check (\<open>from_utf8_unchecked\<close>), so the struct is a plain wrapper here, and
  that its safe constructors keep the promise is a theorem. \<open>str\<close> and \<open>String\<close> of the
  standard library are the type \<open>str\<close> of valid byte strings. \<open>Bytes\<close>, \<open>BytesMut\<close> and
  \<open>Vec<u8>\<close> are byte lists, which sharing and copying leave alone.
\<close>

section \<open>Strings of the standard library\<close>

typedef str = "{bs. valid_utf8 bs}"
  morphisms str_as_bytes from_utf8_unchecked
  by (rule exI [of _ "[]"]) simp

setup_lifting type_definition_str

text \<open>\<open>str\<close> is compared byte by byte.\<close>

instantiation str :: linorder
begin

lift_definition less_eq_str :: "str \<Rightarrow> str \<Rightarrow> bool" is "\<lambda>a b. a \<le> b" .
lift_definition less_str :: "str \<Rightarrow> str \<Rightarrow> bool" is "\<lambda>a b. a < b" .

instance
  by standard (transfer; auto)+

end

instantiation str :: equal
begin

lift_definition equal_str :: "str \<Rightarrow> str \<Rightarrow> bool" is "\<lambda>a b. a = b" .

instance
  by standard (transfer; simp)

end

lemma valid_str_as_bytes [simp]: "valid_utf8 (str_as_bytes s)"
  using str_as_bytes [of s] by simp

section \<open>The struct\<close>

datatype utf8_bytes = Utf8Bytes (utf8_inner: bytes)

definition utf8_bytes_default :: utf8_bytes where
  "utf8_bytes_default = Utf8Bytes []"

text \<open>\<open>from_static\<close>, and the unchecked constructor.\<close>

definition from_static :: "str \<Rightarrow> utf8_bytes" where
  "from_static s = Utf8Bytes (str_as_bytes s)"

definition from_bytes_unchecked :: "bytes \<Rightarrow> utf8_bytes" where
  "from_bytes_unchecked bs = Utf8Bytes bs"

definition as_str :: "utf8_bytes \<Rightarrow> str" where
  "as_str u = from_utf8_unchecked (utf8_inner u)"

definition utf8_deref :: "utf8_bytes \<Rightarrow> str" where
  "utf8_deref u = as_str u"

definition as_ref_slice :: "utf8_bytes \<Rightarrow> bytes" where
  "as_ref_slice u = utf8_inner u"

definition as_ref_str :: "utf8_bytes \<Rightarrow> str" where
  "as_ref_str u = as_str u"

definition as_ref_bytes :: "utf8_bytes \<Rightarrow> bytes" where
  "as_ref_bytes u = utf8_inner u"

definition utf8_borrow :: "utf8_bytes \<Rightarrow> str" where
  "utf8_borrow u = as_str u"

text \<open>\<open>Hash\<close>, over the hash function of \<open>str\<close>; \<open>Ordering\<close>, and the two orders.\<close>

definition utf8_hash :: "(str \<Rightarrow> 'h \<Rightarrow> 'h) \<Rightarrow> utf8_bytes \<Rightarrow> 'h \<Rightarrow> 'h" where
  "utf8_hash hash_str u state = hash_str (as_str u) state"

datatype ordering = Less | Equal | Greater

definition str_cmp :: "str \<Rightarrow> str \<Rightarrow> ordering" where
  "str_cmp a b = (if a < b then Less else if a = b then Equal else Greater)"

definition utf8_cmp :: "utf8_bytes \<Rightarrow> utf8_bytes \<Rightarrow> ordering" where
  "utf8_cmp u v = str_cmp (as_str u) (as_str v)"

definition utf8_partial_cmp :: "utf8_bytes \<Rightarrow> utf8_bytes \<Rightarrow> ordering option" where
  "utf8_partial_cmp u v = Some (utf8_cmp u v)"

text \<open>\<open>PartialEq<T>\<close>, for every \<open>T\<close> that a \<open>str\<close> can be compared with.\<close>

definition utf8_eq :: "(str \<Rightarrow> 't \<Rightarrow> bool) \<Rightarrow> utf8_bytes \<Rightarrow> 't \<Rightarrow> bool" where
  "utf8_eq str_eq u other \<longleftrightarrow> str_eq (as_str u) other"

text \<open>\<open>Display\<close> on a formatter that collects what is written.\<close>

definition utf8_fmt :: "utf8_bytes \<Rightarrow> bytes \<Rightarrow> bytes" where
  "utf8_fmt u f = f @ str_as_bytes (as_str u)"

section \<open>Conversions\<close>

type_synonym utf8_error = "nat \<times> nat option"  \<comment> \<open>\<open>valid_up_to\<close>, \<open>error_len\<close>\<close>

definition try_from_bytes :: "bytes \<Rightarrow> (utf8_error, utf8_bytes) outcome" where
  "try_from_bytes bs = (case from_utf8 bs of Invalid n e \<Rightarrow> Err (n, e) | Valid \<Rightarrow> Ok (Utf8Bytes bs))"

definition try_from_bytes_mut :: "bytes \<Rightarrow> (utf8_error, utf8_bytes) outcome" where
  "try_from_bytes_mut bs = try_from_bytes bs"

definition try_from_vec :: "bytes \<Rightarrow> (utf8_error, utf8_bytes) outcome" where
  "try_from_vec v = try_from_bytes v"

definition utf8_from_string :: "str \<Rightarrow> utf8_bytes" where
  "utf8_from_string s = Utf8Bytes (str_as_bytes s)"

definition utf8_from_str :: "str \<Rightarrow> utf8_bytes" where
  "utf8_from_str s = Utf8Bytes (str_as_bytes s)"

definition utf8_from_string_ref :: "str \<Rightarrow> utf8_bytes" where
  "utf8_from_string_ref s = utf8_from_str s"

definition bytes_from_utf8_bytes :: "utf8_bytes \<Rightarrow> bytes" where
  "bytes_from_utf8_bytes u = (case u of Utf8Bytes bs \<Rightarrow> bs)"

text \<open>
  The rest of the development holds a \<open>Utf8Bytes\<close> as its bytes: \<open>utf8_try_from\<close> is the
  conversion and \<open>?\<close> on its error.
\<close>

lemma utf8_try_from_as_conversion:
  "utf8_try_from bs = (case try_from_bytes bs of Ok u \<Rightarrow> Ok (bytes_from_utf8_bytes u)
     | Err (n, e) \<Rightarrow> Err (error_from_utf8 n e) | Panic \<Rightarrow> Panic)"
  by (simp add: utf8_try_from_def try_from_bytes_def bytes_from_utf8_bytes_def split: utf8_check.split)

section \<open>What the struct promises\<close>

definition utf8_ok :: "utf8_bytes \<Rightarrow> bool" where
  "utf8_ok u \<longleftrightarrow> valid_utf8 (utf8_inner u)"

lemma as_str_bytes: "utf8_ok u \<Longrightarrow> str_as_bytes (as_str u) = utf8_inner u"
  by (simp add: as_str_def utf8_ok_def from_utf8_unchecked_inverse)

lemma from_str_ok [simp]:
  "utf8_ok (from_static s)" "utf8_ok (utf8_from_string s)" "utf8_ok (utf8_from_str s)"
  "utf8_ok (utf8_from_string_ref s)" "utf8_ok utf8_bytes_default"
  by (simp_all add: utf8_ok_def from_static_def utf8_from_string_def utf8_from_str_def utf8_from_string_ref_def
      utf8_bytes_default_def)

lemma as_str_from_str [simp]: "as_str (utf8_from_str s) = s"
  by (simp add: as_str_def utf8_from_str_def str_as_bytes_inverse)

lemma try_from_bytes_Ok_iff: "try_from_bytes bs = Ok u \<longleftrightarrow> valid_utf8 bs \<and> u = Utf8Bytes bs"
  by (auto simp: try_from_bytes_def valid_utf8_def split: utf8_check.splits)

lemma as_str_inj: "utf8_ok u \<Longrightarrow> utf8_ok v \<Longrightarrow> as_str u = as_str v \<longleftrightarrow> u = v"
  by (metis as_str_bytes utf8_bytes.expand)

section \<open>What a refused conversion says\<close>

text \<open>Nothing longer than what comes before the error is UTF-8.\<close>

lemma valid_up_to_longest:
  assumes "from_utf8 bs = Invalid n e" "n < k" "k \<le> length bs"
  shows "\<not> valid_utf8 (take k bs)"
proof
  note inv = from_utf8_InvalidD [OF assms(1)]
  let ?tl = "take (k - n) (drop n bs)"
  assume "valid_utf8 (take k bs)"
  moreover have "take k bs = take n bs @ ?tl"
    using assms(2) by (metis le_add_diff_inverse less_imp_le_nat take_add)
  ultimately have "valid_utf8 ?tl" using inv valid_utf8_append [of "take n bs" ?tl] by simp
  moreover have "?tl \<noteq> []" using assms(2,3) by simp
  ultimately obtain j where "utf8_head ?tl = CharLen j" by (auto simp: valid_utf8_cons)
  then have "utf8_head (drop n bs) = CharLen j"
    using utf8_head_CharLen_append [of ?tl j "drop (k - n) (drop n bs)"] by (metis append_take_drop_id)
  with inv show False by (cases e) simp_all
qed

text \<open>The bytes that complete the beginning of a character.\<close>

fun completion :: "bytes \<Rightarrow> bytes" where
  "completion [b] =
     (if unat b < 0xE0 then [0x80]
      else if unat b < 0xF0 then [if unat b = 0xE0 then 0xA0 else 0x80, 0x80]
      else [if unat b = 0xF0 then 0x90 else 0x80, 0x80, 0x80])"
| "completion [b, c] = (if unat b < 0xF0 then [0x80] else [0x80, 0x80])"
| "completion _ = [0x80]"

lemma completion_head:
  assumes "bs \<noteq> []" "utf8_head bs = Truncated"
  shows "utf8_head (bs @ completion bs) = CharLen (length (bs @ completion bs))"
proof -
  have "length bs \<le> 3" using utf8_head_Truncated_length [OF assms(2)] .
  then consider (one) a where "bs = [a]" | (two) a b where "bs = [a, b]" | (three) a b c where "bs = [a, b, c]"
    using assms(1) by (cases bs; cases "tl bs"; cases "tl (tl bs)"; cases "tl (tl (tl bs))") auto
  then show ?thesis
  proof cases
    case one
    then show ?thesis
      using assms(2)
      by (simp add: utf8_head_def expect_cont_def second_of_three_def second_of_four_def cont_byte_def split: if_splits)
  next
    case two
    then show ?thesis
      using assms(2) by (simp add: utf8_head_def expect_cont_def cont_byte_def split: if_splits)
  next
    case three
    then show ?thesis
      using assms(2) by (simp add: utf8_head_def expect_cont_def cont_byte_def split: if_splits)
  qed
qed

text \<open>\<open>error_len\<close> tells whether more input could still help.\<close>

lemma error_len_completable:
  assumes "from_utf8 bs = Invalid n e"
  shows "e = None \<longleftrightarrow> (\<exists>ys. valid_utf8 (bs @ ys))"
proof (cases e)
  case None
  note inv = from_utf8_InvalidD [OF assms]
  have d: "drop n bs \<noteq> []" "utf8_head (drop n bs) = Truncated" using inv None by simp_all
  have "valid_utf8 (drop n bs @ completion (drop n bs))"
    using completion_head [OF d] d(1) by (simp add: valid_utf8_cons)
  then have "valid_utf8 (take n bs @ drop n bs @ completion (drop n bs))" using inv valid_utf8_append by blast
  then have "valid_utf8 (bs @ completion (drop n bs))" by (metis append_assoc append_take_drop_id)
  with None show ?thesis by blast
next
  case (Some k)
  note inv = from_utf8_InvalidD [OF assms]
  have "\<not> valid_utf8 (take n bs @ drop n bs @ ys)" for ys
    using inv Some by (intro valid_utf8_BadLen [of _ _ k]) simp_all
  then have "\<not> valid_utf8 (bs @ ys)" for ys by (metis append_assoc append_take_drop_id)
  with Some show ?thesis by simp
qed

text \<open>
  Claim C28. The conversions into \<open>Utf8Bytes\<close> keep the promise of the type. \<open>TryFrom\<close>, from
  \<open>Bytes\<close>, \<open>BytesMut\<close> or a \<open>Vec\<close>, succeeds with exactly these bytes if they are UTF-8. If they
  are not, it fails and says how: \<open>valid_up_to\<close> is the length of the longest prefix that is
  UTF-8, and \<open>error_len\<close> is missing if and only if more bytes could still complete the input.
  \<open>from_static\<close> and the conversions from \<open>&str\<close>, \<open>String\<close> and \<open>&String\<close> cannot fail. Of all that is
  made in these ways, \<open>as_str\<close>, which does not check, gives the text that went in.
\<close>

theorem utf8_bytes_conversions:
  "(case try_from_bytes bs of
      Ok u \<Rightarrow> valid_utf8 bs \<and> utf8_ok u \<and> bytes_from_utf8_bytes u = bs \<and> str_as_bytes (as_str u) = bs \<and>
        utf8_from_str (as_str u) = u
    | Err (n, e) \<Rightarrow> n < length bs \<and> valid_utf8 (take n bs) \<and>
        (\<forall>k \<in> {n<..length bs}. \<not> valid_utf8 (take k bs)) \<and> (e = None \<longleftrightarrow> (\<exists>ys. valid_utf8 (bs @ ys)))
    | Panic \<Rightarrow> False) \<and>
   try_from_bytes_mut bs = try_from_bytes bs \<and> try_from_vec bs = try_from_bytes bs \<and>
   (\<forall>u \<in> {from_static s, utf8_from_str s, utf8_from_string s, utf8_from_string_ref s}.
      utf8_ok u \<and> as_str u = s \<and> try_from_bytes (bytes_from_utf8_bytes u) = Ok u)"
proof -
  have "case try_from_bytes bs of
      Ok u \<Rightarrow> valid_utf8 bs \<and> utf8_ok u \<and> bytes_from_utf8_bytes u = bs \<and> str_as_bytes (as_str u) = bs \<and>
        utf8_from_str (as_str u) = u
    | Err (n, e) \<Rightarrow> n < length bs \<and> valid_utf8 (take n bs) \<and>
        (\<forall>k \<in> {n<..length bs}. \<not> valid_utf8 (take k bs)) \<and> (e = None \<longleftrightarrow> (\<exists>ys. valid_utf8 (bs @ ys)))
    | Panic \<Rightarrow> False"
  proof (cases "from_utf8 bs")
    case Valid
    then show ?thesis
      by (simp add: try_from_bytes_def valid_utf8_def utf8_ok_def bytes_from_utf8_bytes_def utf8_from_str_def as_str_bytes)
  next
    case (Invalid n e)
    then show ?thesis
      using from_utf8_InvalidD [OF Invalid] valid_up_to_longest [OF Invalid] error_len_completable [OF Invalid]
      by (simp add: try_from_bytes_def)
  qed
  moreover have "as_str u = s \<and> try_from_bytes (bytes_from_utf8_bytes u) = Ok u" if "u = Utf8Bytes (str_as_bytes s)" for u
    using that by (simp add: as_str_def str_as_bytes_inverse try_from_bytes_Ok_iff bytes_from_utf8_bytes_def)
  ultimately show ?thesis
    by (simp add: try_from_bytes_mut_def try_from_vec_def from_static_def utf8_from_str_def utf8_from_string_def
        utf8_from_string_ref_def utf8_ok_def)
qed

definition euro :: bytes where
  "euro = [0xE2, 0x82, 0xAC]"

text \<open>The sign of the euro is accepted; cut after two bytes it could be completed; followed by \<open>FF\<close> not.\<close>

theorem utf8_bytes_conversions_witness:
  "try_from_bytes euro = Ok (Utf8Bytes euro) \<and> str_as_bytes (as_str (Utf8Bytes euro)) = euro \<and>
   try_from_bytes (65 # take 2 euro) = Err (1, None) \<and> (\<exists>ys. valid_utf8 (65 # take 2 euro @ ys)) \<and>
   try_from_bytes (euro @ [0xFF]) = Err (3, Some 1) \<and> (\<nexists>ys. valid_utf8 (euro @ [0xFF] @ ys))"
proof -
  have t: "try_from_bytes euro = Ok (Utf8Bytes euro)" "try_from_bytes (65 # take 2 euro) = Err (1, None)"
    "try_from_bytes (euro @ [0xFF]) = Err (3, Some 1)"
    by code_simp+
  note law = utf8_bytes_conversions [THEN conjunct1]
  show ?thesis using law [of euro] law [of "65 # take 2 euro"] law [of "euro @ [0xFF]"] unfolding t by simp
qed

text \<open>
  \<open>Hash\<close>, \<open>Eq\<close> and \<open>Ord\<close> agree with those of the \<open>str\<close> that is borrowed, as maps that
  are searched by \<open>&str\<close> need, and the order is the lexicographic order of the bytes, with
  \<open>Equal\<close> only for equal values.
\<close>

theorem utf8_bytes_compare:
  assumes "utf8_ok u" "utf8_ok v"
  shows "utf8_cmp u v = str_cmp (utf8_borrow u) (utf8_borrow v) \<and>
    utf8_hash h u st = h (utf8_borrow u) st \<and>
    utf8_eq (=) u (utf8_borrow v) = (u = v) \<and>
    (utf8_cmp u v = Equal \<longleftrightarrow> u = v) \<and>
    (utf8_cmp u v = Less \<longleftrightarrow> utf8_inner u < utf8_inner v) \<and>
    (utf8_cmp u v = Greater \<longleftrightarrow> utf8_inner v < utf8_inner u) \<and>
    utf8_partial_cmp u v = Some (utf8_cmp u v)"
proof -
  have less: "as_str a < as_str b \<longleftrightarrow> utf8_inner a < utf8_inner b" if "utf8_ok a" "utf8_ok b" for a b
    using as_str_bytes that by (simp add: less_str.rep_eq)
  show ?thesis
    using less [OF assms] less [OF assms(2,1)] as_str_inj [OF assms]
    by (auto simp: utf8_cmp_def str_cmp_def utf8_borrow_def utf8_hash_def utf8_eq_def utf8_partial_cmp_def)
qed

theorem utf8_bytes_compare_witness:
  "utf8_cmp (Utf8Bytes [97]) (Utf8Bytes euro) = Less"
proof -
  have "utf8_ok (Utf8Bytes [97])" "utf8_ok (Utf8Bytes euro)" by code_simp+
  from utf8_bytes_compare [OF this, where h = "\<lambda>_ n. n" and st = "0 :: nat"]
  have "utf8_cmp (Utf8Bytes [97]) (Utf8Bytes euro) = Less \<longleftrightarrow> utf8_inner (Utf8Bytes [97]) < utf8_inner (Utf8Bytes euro)"
    by (elim conjE)
  then show ?thesis by (simp add: euro_def)
qed

end
