(* ===== verification/Error_Display.thy ===== *)
theory Error_Display
  imports Errors
begin

text \<open>
  The texts of the errors, \<open>src/src/error.rs\<close>: what the \<open>#[error(..)]\<close> attributes make of
  \<open>Display\<close>. The texts of foreign errors and of an HTTP status are the parameter \<open>foreign_texts\<close>.
\<close>

record foreign_texts =
  io_text :: "io_kind \<Rightarrow> bytes"
  native_tls_text :: bytes
  rustls_text :: bytes
  utf8_error_text :: "utf8_text \<Rightarrow> bytes"
  httparse_text :: "httparse_error \<Rightarrow> bytes"
  http_format_text :: "http_format_error \<Rightarrow> bytes"
  status_text :: "nat \<Rightarrow> bytes"

primrec capacity_error_display :: "capacity_error \<Rightarrow> bytes" where
  "capacity_error_display TooManyHeaders = ascii ''Too many headers''"
| "capacity_error_display (MessageTooLong n max_size) =
     ascii ''Message too long: '' @ decimal n @ ascii '' > '' @ decimal max_size"

primrec sub_protocol_error_display :: "sub_protocol_error \<Rightarrow> bytes" where
  "sub_protocol_error_display ServerSentSubProtocolNoneRequested =
     ascii ''Server sent a subprotocol but none was requested''"
| "sub_protocol_error_display InvalidSubProtocol = ascii ''Server sent an invalid subprotocol''"
| "sub_protocol_error_display NoSubProtocol = ascii ''Server sent no subprotocol''"

text \<open>Text in double quotes.\<close>

definition quoted :: "string \<Rightarrow> bytes" where
  "quoted s = [34] @ ascii s @ [34]"

primrec protocol_error_display :: "foreign_texts \<Rightarrow> protocol_error \<Rightarrow> bytes" where
  "protocol_error_display T Compression = ascii ''Compression failed''"
| "protocol_error_display T WrongHttpMethod = ascii ''Unsupported HTTP method used - only GET is allowed''"
| "protocol_error_display T WrongHttpVersion = ascii ''HTTP version must be 1.1 or higher''"
| "protocol_error_display T MissingConnectionUpgradeHeader =
     ascii ''No '' @ quoted ''Connection: upgrade'' @ ascii '' header''"
| "protocol_error_display T MissingUpgradeWebSocketHeader =
     ascii ''No '' @ quoted ''Upgrade: websocket'' @ ascii '' header''"
| "protocol_error_display T MissingSecWebSocketVersionHeader =
     ascii ''No '' @ quoted ''Sec-WebSocket-Version: 13'' @ ascii '' header''"
| "protocol_error_display T MissingSecWebSocketKey =
     ascii ''No '' @ quoted ''Sec-WebSocket-Key'' @ ascii '' header''"
| "protocol_error_display T InvalidSecWebSocketKey =
     ascii ''Invalid '' @ quoted ''Sec-WebSocket-Key'' @ ascii '' header value''"
| "protocol_error_display T SecWebSocketAcceptKeyMismatch =
     ascii ''Key mismatch in '' @ quoted ''Sec-WebSocket-Accept'' @ ascii '' header''"
| "protocol_error_display T (SecWebSocketSubProtocolError e) =
     ascii ''SubProtocol error: '' @ sub_protocol_error_display e"
| "protocol_error_display T JunkAfterRequest = ascii ''Junk after client request''"
| "protocol_error_display T CustomResponseSuccessful = ascii ''Custom response must not be successful''"
| "protocol_error_display T (InvalidHeader name) =
     ascii ''Missing, duplicated or incorrect header '' @ name"
| "protocol_error_display T HandshakeIncomplete = ascii ''Handshake not finished''"
| "protocol_error_display T (HttparseError e) = ascii ''httparse error: '' @ httparse_text T e"
| "protocol_error_display T SendAfterClosing = ascii ''Sending after closing is not allowed''"
| "protocol_error_display T ReceivedAfterClosing = ascii ''Remote sent after having closed''"
| "protocol_error_display T NonZeroReservedBits = ascii ''Reserved bits are non-zero''"
| "protocol_error_display T UnmaskedFrameFromClient = ascii ''Received an unmasked frame from client''"
| "protocol_error_display T MaskedFrameFromServer = ascii ''Received a masked frame from server''"
| "protocol_error_display T FragmentedControlFrame = ascii ''Fragmented control frame''"
| "protocol_error_display T ControlFrameTooBig =
     ascii ''Control frame too big (payload must be 125 bytes or less)''"
| "protocol_error_display T (UnknownControlFrameType n) =
     ascii ''Unknown control frame type: '' @ decimal (unat n)"
| "protocol_error_display T (UnknownDataFrameType n) =
     ascii ''Unknown data frame type: '' @ decimal (unat n)"
| "protocol_error_display T UnexpectedContinueFrame = ascii ''Continue frame but nothing to continue''"
| "protocol_error_display T (ExpectedFragment d) =
     ascii ''While waiting for more fragments received: '' @ data_display d"
| "protocol_error_display T ResetWithoutClosingHandshake = ascii ''Connection reset without closing handshake''"
| "protocol_error_display T (InvalidOpcode n) = ascii ''Encountered invalid opcode: '' @ decimal (unat n)"
| "protocol_error_display T InvalidCloseSequence = ascii ''Invalid close sequence''"

primrec url_error_display :: "url_error \<Rightarrow> bytes" where
  "url_error_display TlsFeatureNotEnabled = ascii ''TLS support not compiled in''"
| "url_error_display NoHostName = ascii ''No host name in the URL''"
| "url_error_display (UnableToConnect uri) = ascii ''Unable to connect to '' @ uri"
| "url_error_display UnsupportedUrlScheme = ascii ''URL scheme not supported''"
| "url_error_display EmptyHostName = ascii ''URL contains empty host name''"
| "url_error_display NoPathOrQuery = ascii ''No path/query in URL''"

primrec tls_error_display :: "foreign_texts \<Rightarrow> tls_error \<Rightarrow> bytes" where
  "tls_error_display T NativeTlsError = ascii ''native-tls error: '' @ native_tls_text T"
| "tls_error_display T RustlsError = ascii ''rustls error: '' @ rustls_text T"
| "tls_error_display T InvalidDnsName = ascii ''Invalid DNS name''"

primrec error_display :: "foreign_texts \<Rightarrow> error \<Rightarrow> bytes" where
  "error_display T ConnectionClosed = ascii ''Connection closed normally''"
| "error_display T AlreadyClosed = ascii ''Trying to work with closed connection''"
| "error_display T (Io k) = ascii ''IO error: '' @ io_text T k"
| "error_display T (Tls e) = ascii ''TLS error: '' @ tls_error_display T e"
| "error_display T (Capacity e) = ascii ''Space limit exceeded: '' @ capacity_error_display e"
| "error_display T (Protocol e) = ascii ''WebSocket protocol error: '' @ protocol_error_display T e"
| "error_display T (WriteBufferFull m) = ascii ''Write buffer is full''"
| "error_display T (Utf8 t) = ascii ''UTF-8 encoding error: '' @ utf8_error_text T t"
| "error_display T AttackAttempt = ascii ''Attack attempt detected''"
| "error_display T (Url e) = ascii ''URL error: '' @ url_error_display e"
| "error_display T (Http response) = ascii ''HTTP error: '' @ status_text T (resp_status response)"
| "error_display T (HttpFormat e) = ascii ''HTTP format error: '' @ http_format_text T e"

section \<open>What a text says\<close>

text \<open>
  The kind of an error can be told from its text: two errors with the same text are of the same
  variant, and a text is never empty.
\<close>

fun error_variant :: "error \<Rightarrow> nat" where
  "error_variant ConnectionClosed = 0"
| "error_variant AlreadyClosed = 1"
| "error_variant (Io _) = 2"
| "error_variant (Tls _) = 3"
| "error_variant (Capacity _) = 4"
| "error_variant (Protocol _) = 5"
| "error_variant (WriteBufferFull _) = 6"
| "error_variant (Utf8 _) = 7"
| "error_variant AttackAttempt = 8"
| "error_variant (Url _) = 9"
| "error_variant (Http _) = 10"
| "error_variant (HttpFormat _) = 11"

definition first_bytes :: "bytes list" where
  "first_bytes = map ascii [''Connec'', ''Trying'', ''IO err'', ''TLS er'', ''Space '', ''WebSoc'', ''Write '', ''UTF-8 '',
     ''Attack'', ''URL er'', ''HTTP e'', ''HTTP f'']"

lemma error_display_starts: "take 6 (error_display T e) = first_bytes ! error_variant e \<and> error_variant e < length first_bytes"
  by (cases e) (simp_all add: first_bytes_def)

lemma first_bytes_distinct: "distinct first_bytes"
  by code_simp

lemma error_display_variant:
  "error_display T e = error_display T e' \<Longrightarrow> error_variant e = error_variant e'"
  using error_display_starts [of T e] error_display_starts [of T e'] nth_eq_iff_index_eq [OF first_bytes_distinct]
  by metis

lemma error_display_not_empty: "error_display T e \<noteq> []"
  by (cases e) simp_all

end
