(* ===== verification/Conversions.thy ===== *)
theory Conversions
  imports Client Server_Handshake Utf8_Bytes Error_Display
begin

text \<open>
  The conversions of the public interface: what \<open>IntoClientRequest\<close> accepts
  (\<open>src/src/client.rs\<close>), the \<open>From\<close> implementations of \<open>Message\<close>
  (\<open>src/src/protocol/message.rs\<close>), \<open>HandshakeError\<close> as an error
  (\<open>src/src/handshake/mod.rs\<close>), the text of \<open>DecodeError\<close> (\<open>src/src/utf8.rs\<close>), and the errors
  of other libraries (\<open>src/src/error.rs\<close>).
\<close>

section \<open>Requests\<close>

definition str_ref_into_client_request :: "'u http_lib \<Rightarrow> bytes \<Rightarrow> str \<Rightarrow> 'u http_request result" where
  "str_ref_into_client_request H key_bytes s = str_into_client_request H key_bytes (str_as_bytes s)"

definition string_ref_into_client_request :: "'u http_lib \<Rightarrow> bytes \<Rightarrow> str \<Rightarrow> 'u http_request result" where
  "string_ref_into_client_request H key_bytes s = str_ref_into_client_request H key_bytes s"

definition string_into_client_request :: "'u http_lib \<Rightarrow> bytes \<Rightarrow> str \<Rightarrow> 'u http_request result" where
  "string_into_client_request H key_bytes s = str_ref_into_client_request H key_bytes s"

definition uri_ref_into_client_request :: "'u http_lib \<Rightarrow> bytes \<Rightarrow> 'u \<Rightarrow> 'u http_request result" where
  "uri_ref_into_client_request H key_bytes uri = uri_into_client_request H key_bytes uri"

text \<open>\<open>url::Url\<close>, with its \<open>as_str\<close>.\<close>

definition url_into_client_request ::
  "('v \<Rightarrow> str) \<Rightarrow> 'u http_lib \<Rightarrow> bytes \<Rightarrow> 'v \<Rightarrow> 'u http_request result" where
  "url_into_client_request url_as_str H key_bytes url = str_ref_into_client_request H key_bytes (url_as_str url)"

definition request_into_client_request :: "'u http_request \<Rightarrow> 'u http_request result" where
  "request_into_client_request request = Ok request"

definition httparse_into_client_request :: "'u http_lib \<Rightarrow> raw_request \<Rightarrow> 'u http_request result" where
  "httparse_into_client_request H raw = request_from_httparse H raw"

text \<open>
  A conversion that starts from a URL makes a \<open>GET\<close> of HTTP/1.1 for it, and one that starts
  from text fails unless the text is a URL.
\<close>

lemma uri_into_client_request_Ok:
  "uri_into_client_request H key_bytes uri = Ok request \<Longrightarrow>
     rq_method request = ascii ''GET'' \<and> rq_uri request = uri \<and> rq_version request = Http11"
  by (auto simp: uri_into_client_request_def bind_out_Ok_iff Let_def simp del: ascii_simps split: if_splits)

lemma str_ref_into_client_request_Ok:
  "str_ref_into_client_request H key_bytes s = Ok request \<Longrightarrow>
     \<exists>uri. uri_parse H (str_as_bytes s) = Some uri \<and> uri_into_client_request H key_bytes uri = Ok request"
  by (auto simp: str_ref_into_client_request_def str_into_client_request_def bind_out_Ok_iff)

section \<open>Messages\<close>

definition message_from_string :: "str \<Rightarrow> message" where
  "message_from_string s = message_text (utf8_inner (utf8_from_string s))"

definition message_from_str :: "str \<Rightarrow> message" where
  "message_from_str s = message_text (utf8_inner (utf8_from_str s))"

definition message_from_slice :: "bytes \<Rightarrow> message" where
  "message_from_slice data = message_binary data"

definition message_from_bytes :: "bytes \<Rightarrow> message" where
  "message_from_bytes data = message_binary data"

definition message_from_vec :: "bytes \<Rightarrow> message" where
  "message_from_vec data = message_binary data"

definition bytes_from_message :: "message \<Rightarrow> bytes" where
  "bytes_from_message msg = into_data msg"

text \<open>
  The conversions into a message lose nothing: the message made from a string is text
  whose data, text and display are the bytes of the string; the message made from bytes is
  binary with these bytes as its data, and it reads back as text exactly when they are UTF-8.
\<close>

theorem message_conversions:
  "into_text (message_from_str s) = Ok (str_as_bytes s) \<and> message_from_string s = message_from_str s \<and>
   bytes_from_message (message_from_str s) = str_as_bytes s \<and>
   message_display (message_from_str s) = str_as_bytes s \<and>
   valid_utf8 (into_data (message_from_str s)) \<and> is_text (message_from_str s) \<and>
   bytes_from_message (message_from_bytes data) = data \<and> message_len (message_from_bytes data) = length data \<and>
   ((\<exists>t. into_text (message_from_bytes data) = Ok t) \<longleftrightarrow> valid_utf8 data) \<and>
   message_from_slice data = message_from_bytes data \<and> message_from_vec data = message_from_bytes data"
proof -
  have "(\<exists>t. utf8_try_from data = Ok t) \<longleftrightarrow> valid_utf8 data"
    by (simp add: utf8_try_from_def valid_utf8_def split: utf8_check.split)
  then show ?thesis
    by (simp add: message_from_str_def message_from_string_def message_from_slice_def message_from_bytes_def
        message_from_vec_def bytes_from_message_def message_text_def message_binary_def utf8_from_string_def
        utf8_from_str_def message_display_def)
qed

section \<open>The error of a handshake\<close>

definition handshake_error_from_error :: "error \<Rightarrow> 'role handshake_error" where
  "handshake_error_from_error err = Failure err"

lemma lift_failure_from:
  "lift_failure r = (case r of Ok a \<Rightarrow> Ok a | Err e \<Rightarrow> Err (handshake_error_from_error e) | Panic \<Rightarrow> Panic)"
  by (simp add: lift_failure_def handshake_error_from_error_def split: outcome.split)

text \<open>\<open>Debug\<close>, with that of \<open>Error\<close> as a parameter, and \<open>Display\<close>.\<close>

definition handshake_error_debug :: "(error \<Rightarrow> bytes) \<Rightarrow> 'role handshake_error \<Rightarrow> bytes" where
  "handshake_error_debug error_debug h =
     (case h of
        Interrupted _ _ \<Rightarrow> ascii ''HandshakeError::Interrupted(...)''
      | Failure e \<Rightarrow> ascii ''HandshakeError::Failure('' @ error_debug e @ ascii '')'')"

definition handshake_error_display :: "foreign_texts \<Rightarrow> 'role handshake_error \<Rightarrow> bytes" where
  "handshake_error_display T h =
     (case h of Interrupted _ _ \<Rightarrow> ascii ''Interrupted handshake (WouldBlock)'' | Failure e \<Rightarrow> error_display T e)"

section \<open>The error of the incremental decoder\<close>

text \<open>Bytes under \<open>{:02x?}\<close>: a list of two-digit numbers.\<close>

primrec hex_debug_tail :: "bytes \<Rightarrow> bytes" where
  "hex_debug_tail [] = []"
| "hex_debug_tail (b # bs) = ascii '', '' @ hex_byte b @ hex_debug_tail bs"

definition hex_debug :: "bytes \<Rightarrow> bytes" where
  "hex_debug bs = ascii ''['' @ (case bs of [] \<Rightarrow> [] | b # bs1 \<Rightarrow> hex_byte b @ hex_debug_tail bs1) @ ascii '']''"

text \<open>The derived \<open>Debug\<close> of \<open>Incomplete\<close> hands the format on to the fields.\<close>

definition incomplete_hex_debug :: "incomplete \<Rightarrow> bytes" where
  "incomplete_hex_debug i =
     ascii ''Incomplete { buffer: '' @ hex_debug (ibuf i)
     @ ascii '', buffer_len: '' @ hex_byte (word_of_nat (ibuf_len i)) @ ascii '' }''"

definition decode_error_display :: "decode_error \<Rightarrow> bytes" where
  "decode_error_display e =
     (case e of
        DecodeInvalid valid_prefix invalid_sequence remaining_input \<Rightarrow>
          ascii ''found invalid byte sequence '' @ hex_debug invalid_sequence @ ascii '' after ''
          @ decimal (length valid_prefix) @ ascii '' valid bytes, followed by ''
          @ decimal (length remaining_input) @ ascii '' more unprocessed bytes''
      | DecodeIncomplete valid_prefix incomplete_suffix \<Rightarrow>
          ascii ''found incomplete byte sequence '' @ incomplete_hex_debug incomplete_suffix @ ascii '' after ''
          @ decimal (length valid_prefix) @ ascii '' bytes'')"

lemma decode_error_display_sample:
  "decode_error_display (DecodeInvalid (ascii ''ab'') [0xE2, 0x0A] (ascii ''c'')) =
     ascii ''found invalid byte sequence [e2, 0a] after 2 valid bytes, followed by 1 more unprocessed bytes''"
  "decode_error_display (DecodeIncomplete [] \<lparr>ibuf = [0xE2, 0x82, 0, 0], ibuf_len = 2\<rparr>) =
     ascii ''found incomplete byte sequence Incomplete { buffer: [e2, 82, 00, 00], buffer_len: 02 } after 0 bytes''"
  by code_simp+

section \<open>The errors of other libraries\<close>

definition error_from_string_utf8 :: "nat \<Rightarrow> nat option \<Rightarrow> error" where
  "error_from_string_utf8 valid_up_to error_len = Utf8 (FromUtf8 valid_up_to error_len)"

definition tls_error_from_native :: tls_error where
  "tls_error_from_native = NativeTlsError"

definition tls_error_from_rustls :: tls_error where
  "tls_error_from_rustls = RustlsError"

end
