(* ===== verification/Rejection.thy ===== *)
theory Rejection
  imports Handshake_Props
begin

text \<open>
  A server whose callback rejects the request: \<open>accept\<close> fails with the response of the callback,
  and by then the peer has been sent the whole of it. \<open>Error::Http\<close> has no other source on this
  side, so an application that gets it knows what the peer has been told.
\<close>

section \<open>Which results are not an HTTP error\<close>

named_theorems no_http_rules \<open>results that are no HTTP error\<close>

definition no_http :: "'a result \<Rightarrow> bool" where
  "no_http r \<longleftrightarrow> (\<forall>response. r \<noteq> Err (Http response))"

lemma no_http_simps [simp]:
  "no_http (Ok a)" "no_http Panic" "no_http (Err e) \<longleftrightarrow> (\<forall>response. e \<noteq> Http response)"
  by (simp_all add: no_http_def)

lemma no_http_bind_out [no_http_rules]:
  "no_http r \<Longrightarrow> (\<And>a. r = Ok a \<Longrightarrow> no_http (k a)) \<Longrightarrow> no_http (bind_out r k)"
  by (cases r) simp_all

lemma no_http_if: "(b \<Longrightarrow> no_http x) \<Longrightarrow> (\<not> b \<Longrightarrow> no_http y) \<Longrightarrow> no_http (if b then x else y)"
  by simp

lemma no_http_ok_or [no_http_rules]: "(\<And>response. e \<noteq> Http response) \<Longrightarrow> no_http (ok_or e x)"
  by (cases x) simp_all

lemma error_from_no_http [simp]:
  "error_from_to_str \<noteq> Http r" "error_from_invalid_uri \<noteq> Http r" "error_from_invalid_header_name \<noteq> Http r"
  "error_from_invalid_header_value \<noteq> Http r" "invalid_header \<noteq> Http r" "error_from_httparse e \<noteq> Http r"
  by (simp_all add: error_from_to_str_def error_from_invalid_uri_def error_from_invalid_header_name_def
      error_from_invalid_header_value_def invalid_header_def) (cases e; simp)

lemma split_scan_no_http: "no_http (split_scan d quoted escaped current parts bs)"
  by (induction bs arbitrary: quoted escaped current parts) auto

lemma headers_select_deflate_no_http [no_http_rules]: "no_http (headers_select_deflate values)"
  by (induction "values") (auto simp: split_header_def intro!: no_http_rules split_scan_no_http)

lemma to_header_no_http [no_http_rules]: "no_http (to_header from_str v)"
  by (simp add: to_header_def split: option.split)

lemma accept_offer_no_http: "no_http (accept_offer from_str s p)"
  unfolding accept_offer_def Let_def
  by (rule no_http_if, simp, rule no_http_bind_out, rule to_header_no_http, simp)

lemma choose_offer_no_http: "no_http (choose_offer from_str s offers fallback)"
  by (induction from_str s offers fallback rule: choose_offer.induct)
    (auto intro!: no_http_rules accept_offer_no_http split: outcome.split extension.split option.split)

lemma accept_deflate_offers_no_http [no_http_rules]: "no_http (accept_deflate_offers from_str offers c)"
  by (auto simp: accept_deflate_offers_def accept_offers_def intro!: no_http_rules choose_offer_no_http
      split: option.split)

lemma answer_extensions_no_http [no_http_rules]: "no_http (answer_extensions H request response conf)"
  by (auto simp: answer_extensions_def intro!: no_http_rules split: option.split)

lemma builder_header_no_http [no_http_rules]: "no_http b \<Longrightarrow> no_http (builder_header H n v b)"
  by (auto simp: builder_header_def intro!: no_http_rules)

lemma create_response_no_http [no_http_rules]: "no_http (create_response H request)"
  unfolding create_response_def create_parts_def by (auto simp del: ascii_simps intro!: no_http_rules)

lemma write_response_no_http [no_http_rules]: "no_http (write_response H response)"
proof -
  have "no_http (write_header_lines H hs)" for hs
    by (induction H hs rule: write_header_lines.induct) (auto intro!: no_http_rules)
  moreover have "no_http (version_as_str v)" for v by (cases v) simp_all
  ultimately show ?thesis by (auto simp: write_response_def intro!: no_http_rules)
qed

lemma lift_httparse_no_http [no_http_rules]: "no_http (lift_httparse r)"
  by (cases r) (simp_all add: lift_httparse_def)

lemma request_try_parse_no_http [no_http_rules]: "no_http (request_try_parse H buf)"
proof -
  have headers: "no_http (headers_from_httparse H headers raw)" for headers raw
    by (induction H headers raw rule: headers_from_httparse.induct) (auto intro!: no_http_rules)
  have "no_http (request_from_httparse H raw)" for raw
    by (auto simp: request_from_httparse_def intro!: no_http_rules headers split: option.split)
  then show ?thesis by (auto simp: request_try_parse_def intro!: no_http_rules split: option.split)
qed

lemma ctx_new_no_http: "no_http (ctx_new fl r conf)"
proof -
  have "no_http (decoder_new fl r s)" for s by (simp add: decoder_new_def Let_def)
  then have "no_http (deflate_context_new fl r s)" for s
    by (auto simp: deflate_context_new_def Let_def split_beta intro!: no_http_rules)
  then show ?thesis
    by (auto simp: ctx_new_def codec_with_capacity_def ctx_create_def Let_def intro!: no_http_rules split: option.split)
qed

section \<open>Failures of a role\<close>

text \<open>A role that says in which state of the stream it fails.\<close>

locale failing_role = handshake_role +
  fixes fail :: "error \<Rightarrow> world \<Rightarrow> bool"
  assumes round_fails: "single_round try_parse m w = (Err e, w') \<Longrightarrow> fail e w'"
    and reading_fails: "inv role True (data @ script_bytes (reads w)) (sent w) \<Longrightarrow>
      try_parse data = Ok (Some (len, obj)) \<Longrightarrow> len \<le> length data \<Longrightarrow>
      stage_finished (DoneReading obj (drop len data)) role w = (Err e, role', w') \<Longrightarrow> fail e w'"
    and writing_fails: "inv role False (script_bytes (reads w)) (sent w) \<Longrightarrow>
      stage_finished DoneWriting role w = (Err e, role', w') \<Longrightarrow> fail e w'"
begin

lemma stage_fails:
  assumes "round_ok try_parse m w (StageFinished st) w1" "inv_at role m w"
    and "stage_finished st role w1 = (Err e, role1, w2)"
  shows "fail e w2"
proof (cases st)
  case (DoneReading obj tail)
  then obtain data len where "try_parse data = Ok (Some (len, obj))" "len \<le> length data"
    "tail = drop len data" "machine_in m w = data @ script_bytes (reads w1)" "sent w1 = machine_out m w" "is_reading m"
    using assms(1) by (auto simp: round_ok_def)
  then show ?thesis
    using reading_fails [of role data w1 len obj e role1 w2] assms(2,3) DoneReading by (simp add: inv_at_def)
next
  case DoneWriting
  then show ?thesis
    using writing_fails [of role w1 e role1 w2] assms by (simp add: inv_at_def round_ok_def)
qed

lemma stage_continues:
  assumes "round_ok try_parse m w (StageFinished st) w1" "inv_at role m w"
    and "stage_finished st role w1 = (Ok (Continue m1), role1, w2)"
  shows "machine_ok m1 \<and> inv_at role1 m1 w2"
proof (cases st)
  case (DoneReading obj tail)
  then obtain data len where "try_parse data = Ok (Some (len, obj))" "len \<le> length data"
    "tail = drop len data" "machine_in m w = data @ script_bytes (reads w1)" "sent w1 = machine_out m w" "is_reading m"
    using assms(1) by (auto simp: round_ok_def)
  then show ?thesis
    using reading_law [of role data w1 len obj "Continue m1" role1 w2] progress [OF assms(3)] assms(2,3) DoneReading
    by (simp add: inv_at_def)
next
  case DoneWriting
  then show ?thesis
    using writing_law [of role w1 "Continue m1" role1 w2] progress [OF assms(3)] assms
    by (simp add: inv_at_def round_ok_def)
qed

lemma handshake_fails:
  assumes "handshake try_parse stage_finished role m w = Some (Err (Failure e), w')" "machine_ok m" "inv_at role m w"
  shows "fail e w'"
proof -
  let ?P = "\<lambda>tp sf role m w y. tp = try_parse \<longrightarrow> sf = stage_finished \<longrightarrow> machine_ok m \<longrightarrow> inv_at role m w \<longrightarrow>
      (\<forall>e w'. y = (Err (Failure e), w') \<longrightarrow> fail e w')"
  have "?P tp sf role m w y" if "handshake tp sf role m w = Some y" for tp sf role m w y
    using that
  proof (rule handshake.raw_induct [where P = ?P, rotated])
    fix hs tp sf role m w y
    assume IH: "\<And>tp sf role m w y. hs tp sf role m w = Some y \<Longrightarrow> ?P tp sf role m w y"
      and body: "(case single_round tp m w of
         (Err e, w1) \<Rightarrow> Some (Err (Failure e), w1)
       | (Panic, w1) \<Rightarrow> Some (Panic, w1)
       | (Ok (WouldBlockRound m), w1) \<Rightarrow> Some (Err (Interrupted role m), w1)
       | (Ok (Incomplete m), w1) \<Rightarrow> hs tp sf role m w1
       | (Ok (StageFinished s), w1) \<Rightarrow>
           (case sf s role w1 of
              (Err e, role1, w2) \<Rightarrow> Some (Err (Failure e), w2)
            | (Panic, role1, w2) \<Rightarrow> Some (Panic, w2)
            | (Ok (Continue m), role1, w2) \<Rightarrow> hs tp sf role1 m w2
            | (Ok (Done result), role1, w2) \<Rightarrow> Some (Ok result, w2))) = Some y"
    show "?P tp sf role m w y"
    proof (intro impI allI)
      fix e w'
      assume eqs: "tp = try_parse" "sf = stage_finished" and ok: "machine_ok m" "inv_at role m w"
        and y: "y = (Err (Failure e), w')"
      obtain q w1 where rd: "single_round try_parse m w = (q, w1)" by (rule prod.exhaust)
      show "fail e w'"
      proof (cases q)
        case (Ok res)
        note keep = single_round_ok [OF rd [unfolded Ok] ok(1)]
        show ?thesis
        proof (cases res)
          case (WouldBlockRound m1)
          then show ?thesis using body rd Ok y eqs by simp
        next
          case (Incomplete m1)
          then have "same_stage m w m1 w1" using keep by (simp add: round_ok_def)
          then have "machine_ok m1" "inv_at role m1 w1" using ok by (simp_all add: same_stage_def inv_at_def)
          then show ?thesis using IH [of try_parse stage_finished role m1 w1 y] body rd Ok y eqs Incomplete by simp
        next
          case (StageFinished st)
          obtain p role1 w2 where st: "stage_finished st role w1 = (p, role1, w2)" by (metis prod.exhaust)
          have k: "round_ok try_parse m w (StageFinished st) w1" using keep StageFinished by simp
          show ?thesis
          proof (cases p)
            case p: (Ok res1)
            show ?thesis
            proof (cases res1)
              case (Continue m1)
              then have "machine_ok m1 \<and> inv_at role1 m1 w2" using stage_continues [OF k ok(2)] st p by simp
              then show ?thesis
                using IH [of try_parse stage_finished role1 m1 w2 y] body rd Ok y eqs StageFinished st p Continue by simp
            qed (use body rd Ok y eqs StageFinished st p in simp)
          next
            case (Err e1)
            then show ?thesis using stage_fails [OF k ok(2)] body rd Ok y eqs StageFinished st by simp
          qed (use body rd Ok y eqs StageFinished st in simp)
        qed
      next
        case (Err e1)
        then show ?thesis using round_fails [of m w e1 w1] body rd y eqs by simp
      qed (use body rd y eqs in simp)
    qed
  qed
  from this [OF assms(1)] assms(2,3) show ?thesis by blast
qed

end

section \<open>A rejecting server\<close>

definition body_bytes :: "bytes option http_reply \<Rightarrow> bytes" where
  "body_bytes reply = (case rp_body reply of Some body \<Rightarrow> body | None \<Rightarrow> [])"

definition rejected ::
  "'u http_lib \<Rightarrow> 'u callback \<Rightarrow> bytes \<Rightarrow> bytes option http_reply \<Rightarrow> bytes \<Rightarrow> bool" where
  "rejected H cb data reply text \<longleftrightarrow>
     (\<exists>request response head.
        request_try_parse H data = Ok (Some (length data, request)) \<and> create_response H request = Ok response \<and>
        cb request response = Inl reply \<and> \<not> status_is_success H (rp_status reply) \<and>
        write_response H reply = Ok head \<and> text = head @ body_bytes reply)"

definition rejecting_inv ::
  "'u http_lib \<Rightarrow> 'u callback \<Rightarrow> config option \<Rightarrow> bytes \<Rightarrow> bytes
     \<Rightarrow> 'u server_handshake \<Rightarrow> bool \<Rightarrow> bytes \<Rightarrow> bytes \<Rightarrow> bool" where
  "rejecting_inv H cb conf input out0 role reading inn out \<longleftrightarrow>
     (if reading then role = fst (server_start cb conf) \<and> inn = input \<and> out = out0
      else \<forall>reply. sh_error_response role = Some reply \<longrightarrow>
        (\<exists>data text. input = data @ inn \<and> out = out0 @ text \<and> rejected H cb data reply text))"

definition rejection_told ::
  "'u http_lib \<Rightarrow> 'u callback \<Rightarrow> bytes \<Rightarrow> bytes \<Rightarrow> error \<Rightarrow> world \<Rightarrow> bool" where
  "rejection_told H cb input out0 e w \<longleftrightarrow>
     (\<forall>response. e = Http response \<longrightarrow>
        (\<exists>data reply text. input = data @ script_bytes (reads w) \<and> sent w = out0 @ text \<and>
           rejected H cb data reply text \<and> e = http_error reply))"

lemma no_http_told: "no_http (Err e :: 'a result) \<Longrightarrow> rejection_told H cb input out0 e w"
  by (simp add: rejection_told_def)

lemma no_block_io_no_http [no_http_rules]: "no_http (no_block_io r)"
  by (auto simp: no_http_def no_block_io_cases)

lemma single_round_no_http: "no_http (fst (single_round (request_try_parse H) m w))"
proof -
  have packet: "no_http (fst (check_incoming_packet_size n a))" for n a
    by (simp add: check_incoming_packet_size_def Let_def)
  have advance: "no_http (fst (buffer_advance n b))" "no_http (fst (cursor_advance n c))" "no_http (into_vec b)" for n b c
    by (simp_all add: buffer_advance_def cursor_advance_def into_vec_def clean_up_def Let_def)
  have finish: "no_http (finish_reading (request_try_parse H) b a)" for b a
    unfolding finish_reading_def
    by (auto intro!: no_http_rules advance simp: split_beta split: option.split)
  show ?thesis
    by (cases m) (auto simp: single_round_def read_round_def write_round_def flush_round_def split_beta
        intro!: no_http_rules packet advance finish split: option.split)
qed

lemma server_accepts_no_http: "no_http (fst (server_accepts H request response role))"
  using answer_extensions_no_http [of H request response "sh_config role"]
  by (auto simp: server_accepts_def no_http_def split: outcome.split dest!: bind_out_Err_iff [THEN iffD1]
      dest: write_response_no_http [unfolded no_http_def, rule_format, THEN notE])

lemma server_rejects_no_http: "no_http (fst (server_rejects H resp role))"
  by (auto simp: server_rejects_def intro!: no_http_rules)

lemma server_done_reading_no_http: "no_http (fst (server_done_reading H request tail role))"
  using create_response_no_http [of H request]
  by (cases "create_response H request")
    (auto simp: server_done_reading_def server_accepts_no_http server_rejects_no_http split: option.split sum.split)

lemma server_done_reading_rejects:
  assumes "server_done_reading H request tail (fst (server_start cb conf)) = (Ok res, role')"
    and "sh_error_response role' = Some reply"
  shows "tail = [] \<and> (\<exists>response head. create_response H request = Ok response \<and> cb request response = Inl reply \<and>
    \<not> status_is_success H (rp_status reply) \<and> write_response H reply = Ok head \<and>
    res = Continue (start_write (head @ body_bytes reply)))"
proof -
  have tail: "tail = []" using assms(1) by (simp add: server_done_reading_def split: if_splits)
  then obtain response where resp: "create_response H request = Ok response"
    using assms(1) by (cases "create_response H request") (simp_all add: server_done_reading_def)
  have cb: "sh_callback (fst (server_start cb conf)) = Some cb" "sh_error_response (fst (server_start cb conf)) = None"
    by (simp_all add: server_start_def)
  show ?thesis
  proof (cases "cb request response")
    case (Inl bad)
    then show ?thesis
      using assms tail resp cb
      by (auto simp: server_done_reading_def server_rejects_def body_bytes_def bind_out_Ok_iff split: if_splits)
  next
    case (Inr response1)
    then have "server_accepts H request response1 ((fst (server_start cb conf))\<lparr>sh_callback := None\<rparr>) = (Ok res, role')"
      using assms(1) tail resp cb by (simp add: server_done_reading_def)
    then show ?thesis using assms(2) cb(2) by (auto simp: server_accepts_def split: outcome.splits)
  qed
qed

interpretation rj: failing_role "request_try_parse H" "server_stage_finished fl H" server_rank
    "rejecting_inv H cb conf input out0" "\<lambda>x w. True" "rejection_told H cb input out0"
  for fl :: "('c, 'd) flate" and H :: "'u http_lib" and cb conf input out0
proof
  show "machine_ok m \<and>
      server_rank (is_reading m) < server_rank (case st of DoneReading _ _ \<Rightarrow> True | DoneWriting \<Rightarrow> False)"
    if "server_stage_finished fl H st role w = (Ok (Continue m), role', w')"
    for st :: "'u http_request stage_result" and role role' :: "'u server_handshake" and w w' m
    by (rule sv.progress [OF that])
next
  fix role role' :: "'u server_handshake" and data and w w' :: world and len obj
    and res :: "('c, 'd) ctx processing_result"
  assume inv: "rejecting_inv H cb conf input out0 role True (data @ script_bytes (reads w)) (sent w)"
    and parse: "request_try_parse H data = Ok (Some (len, obj))" and len: "len \<le> length data"
    and sf: "server_stage_finished fl H (DoneReading obj (drop len data)) role w = (Ok res, role', w')"
  have sf: "server_done_reading H obj (drop len data) role = (Ok res, role')" "w' = w"
    using sf by (auto simp: server_stage_finished_def split: prod.splits)
  obtain out where out: "res = Continue (start_write out)" using server_done_reading_Ok [OF sf(1)] by blast
  have start: "role = fst (server_start cb conf)" "input = data @ script_bytes (reads w)" "sent w = out0"
    using inv by (simp_all add: rejecting_inv_def)
  have "\<exists>d text. input = d @ script_bytes (reads w) \<and> sent w @ out = out0 @ text \<and> rejected H cb d reply text"
    if reply: "sh_error_response role' = Some reply" for reply
  proof (rule exI [of _ data], rule exI [of _ out], intro conjI)
    from server_done_reading_rejects [OF sf(1) [unfolded start(1)] reply]
    show "rejected H cb data reply out"
      using parse len out unfolding rejected_def by (auto simp: start_write_def cursor_new_def)
  qed (use start in simp_all)
  then have "rejecting_inv H cb conf input out0 role' False (script_bytes (reads w)) (sent w @ out)"
    by (simp add: rejecting_inv_def)
  then show "case res of
      Continue m \<Rightarrow> rejecting_inv H cb conf input out0 role' (is_reading m) (machine_in m w') (machine_out m w')
    | Done r \<Rightarrow> True"
    using out sf(2) by simp
next
  fix role role' :: "'u server_handshake" and w w' :: world and res :: "('c, 'd) ctx processing_result"
  assume "server_stage_finished fl H DoneWriting role w = (Ok res, role', w')"
  then have "\<exists>x. res = Done x"
    by (auto simp: server_stage_finished_def server_done_writing_def bind_out_Ok_iff split: option.splits prod.splits)
  then show "case res of
      Continue m \<Rightarrow> rejecting_inv H cb conf input out0 role' (is_reading m) (machine_in m w') (machine_out m w')
    | Done r \<Rightarrow> True" by auto
next
  fix m w e w'
  assume "single_round (request_try_parse H) m w = (Err e, w')"
  then show "rejection_told H cb input out0 e w'"
    using single_round_no_http [of H m w] by (simp add: rejection_told_def)
next
  fix role role' :: "'u server_handshake" and data and w w' :: world and len obj e
  assume "server_stage_finished fl H (DoneReading obj (drop len data)) role w = (Err e, role', w')"
  then have "server_done_reading H obj (drop len data) role = (Err e :: ('c, 'd) ctx processing_result result, role')"
    by (auto simp: server_stage_finished_def split: prod.splits)
  then have "no_http (Err e :: ('c, 'd) ctx processing_result result)"
    using server_done_reading_no_http by (metis fst_conv)
  then show "rejection_told H cb input out0 e w'" by (simp add: rejection_told_def)
next
  fix role role' :: "'u server_handshake" and w w' :: world and e
  assume inv: "rejecting_inv H cb conf input out0 role False (script_bytes (reads w)) (sent w)"
    and sf: "server_stage_finished fl H DoneWriting role w = (Err e, role', w')"
  show "rejection_told H cb input out0 e w'"
  proof (cases "sh_error_response role")
    case None
    then have "ctx_new fl Server (sh_config role) = Err e"
      using sf by (auto simp: server_stage_finished_def server_done_writing_def bind_out_Err_iff)
    then show ?thesis using ctx_new_no_http [of fl Server "sh_config role"] by (simp add: rejection_told_def)
  next
    case (Some reply)
    then have "e = http_error reply" "w' = w"
      using sf by (simp_all add: server_stage_finished_def server_done_writing_def)
    moreover obtain data t where "input = data @ script_bytes (reads w)" "sent w = out0 @ t"
      "rejected H cb data reply t"
      using inv Some by (auto simp: rejecting_inv_def)
    ultimately show ?thesis unfolding rejection_told_def by blast
  qed
qed

text \<open>
  Claim C11. When \<open>accept\<close> fails with an HTTP error, the callback has rejected the request, and
  the peer knows: exactly one request was consumed, it was a legal one, the error carries the
  response of the callback, which is not a successful one, and the complete response, header
  and body, has been sent and nothing else.
\<close>

theorem rejected_request_answered:
  assumes "accept_hdr_with_config fl H stream cb conf = Some (Err (Failure (Http response)), stream')"
  shows "\<exists>data request prepared reply head.
    script_bytes (reads stream) = data @ script_bytes (reads stream') \<and>
    request_try_parse H data = Ok (Some (length data, request)) \<and> create_response H request = Ok prepared \<and>
    cb request prepared = Inl reply \<and> \<not> status_is_success H (rp_status reply) \<and>
    write_response H reply = Ok head \<and> sent stream' = sent stream @ head @ body_bytes reply \<and>
    Http response = http_error reply"
proof -
  have "rj.inv_at H cb conf (script_bytes (reads stream)) (sent stream) (fst (server_start cb conf)) start_read stream"
    by (simp add: rj.inv_at_def rejecting_inv_def)
  with rj.handshake_fails [of H fl "fst (server_start cb conf)" start_read stream "Http response" stream'
      cb conf "script_bytes (reads stream)" "sent stream"] assms
  have "rejection_told H cb (script_bytes (reads stream)) (sent stream) (Http response) stream'"
    by (simp add: accept_hdr_with_config_def server_start_def)
  then show ?thesis unfolding rejection_told_def rejected_def by blast
qed

definition not_found :: "bytes option http_reply" where
  "not_found = \<lparr>rp_status = 404, rp_version = Http11, rp_headers = [], rp_body = Some (ascii ''none'')\<rparr>"

definition refuse_all :: "bytes callback" where
  "refuse_all request response = Inl not_found"

definition not_found_text :: bytes where
  "not_found_text = ascii ''HTTP/1.1 404'' @ [13, 10, 13, 10] @ ascii ''none''"

lemma not_found_written: "write_response sample_http not_found = Ok (ascii ''HTTP/1.1 404'' @ [13, 10, 13, 10])"
  by code_simp

lemma not_found_length: "0 < length not_found_text"
  by code_simp

lemma sample_rejection:
  "accept_hdr_with_config copying sample_http (handshake_world [RdBytes [82]]) refuse_all None =
     Some (Err (Failure (http_error not_found)), (handshake_world [])\<lparr>sent := not_found_text\<rparr>)"
proof -
  have rejects: "server_done_reading sample_http sample_rq []
      \<lparr>sh_callback = Some refuse_all, sh_config = None, sh_error_response = None\<rparr> =
     (Ok (Continue (start_write not_found_text)),
      \<lparr>sh_callback = None, sh_config = None, sh_error_response = Some not_found\<rparr>)"
    using not_found_written
    by (simp add: server_done_reading_def sample_create refuse_all_def server_rejects_def not_found_text_def)
      (simp add: not_found_def sample_library_def)
  let ?h = "handshake (request_try_parse sample_http) (server_stage_finished copying sample_http)
      \<lparr>sh_callback = None, sh_config = None, sh_error_response = Some not_found\<rparr>"
  have writes: "single_round tp (start_write not_found_text) (handshake_world []) =
      (Ok (Incomplete Flushing), (handshake_world [])\<lparr>sent := not_found_text\<rparr>)" for tp
    using not_found_length
    by (simp add: single_round_def start_write_def write_round_def handshake_world_def idle_world_def stream_write_def
      no_block_io_def cursor_new_def cursor_chunk_def cursor_remaining_def cursor_advance_def)
  have "accept_hdr_with_config copying sample_http (handshake_world [RdBytes [82]]) refuse_all None =
      ?h (start_write not_found_text) (handshake_world [])"
    by (simp add: accept_hdr_with_config_def server_start_def, subst handshake.simps)
      (simp add: sample_reads server_stage_finished_def rejects)
  also have "\<dots> = ?h Flushing ((handshake_world [])\<lparr>sent := not_found_text\<rparr>)"
    by (subst handshake.simps) (simp add: writes)
  also have "\<dots> = Some (Err (Failure (http_error not_found)), (handshake_world [])\<lparr>sent := not_found_text\<rparr>)"
    by (subst handshake.simps) (simp add: sample_flushes server_stage_finished_def server_done_writing_def)
  finally show ?thesis .
qed

theorem rejected_request_answered_witness:
  "\<exists>request prepared. refuse_all request prepared = Inl not_found \<and> \<not> status_is_success sample_http (rp_status not_found) \<and>
     sent ((handshake_world [])\<lparr>sent := not_found_text\<rparr>) = not_found_text"
  using rejected_request_answered [OF sample_rejection [unfolded http_error_def]]
  by (auto simp: refuse_all_def)

end
