(* ===== verification/Resumption.thy ===== *)
theory Resumption
  imports Handshake_Props
begin

text \<open>
  Handshakes on non-blocking streams. \<open>MidHandshake::handshake\<close> of \<open>src/src/handshake/mod.rs\<close>
  gives itself back in \<open>HandshakeError::Interrupted\<close> when the stream would block, and the caller
  calls it again when the stream is ready. This theory follows a handshake through any number of
  interruptions.
\<close>

section \<open>A handshake with interruptions\<close>

text \<open>
  \<open>resumed tp sf role m w extra r w'\<close>: the handshake is called in state \<open>m\<close> and called again
  after each interruption; \<open>extra\<close> is the input that arrives between the calls, and the last
  call returns \<open>r\<close>. What arrives while a call runs is part of the script of its world already.
\<close>

inductive resumed ::
  "(bytes \<Rightarrow> (nat \<times> 'o) option result)
   \<Rightarrow> ('o stage_result \<Rightarrow> 'role \<Rightarrow> world \<Rightarrow> 'r processing_result result \<times> 'role \<times> world)
   \<Rightarrow> 'role \<Rightarrow> handshake_state \<Rightarrow> world \<Rightarrow> bytes
   \<Rightarrow> ('role handshake_error, 'r) outcome \<Rightarrow> world \<Rightarrow> bool"
  for try_parse :: "bytes \<Rightarrow> (nat \<times> 'o) option result"
    and stage_finished :: "'o stage_result \<Rightarrow> 'role \<Rightarrow> world \<Rightarrow> 'r processing_result result \<times> 'role \<times> world"
where
  last_call: "handshake try_parse stage_finished role m w = Some (r, w') \<Longrightarrow>
    resumed try_parse stage_finished role m w [] r w'"
| call_again: "handshake try_parse stage_finished role m w = Some (Err (Interrupted role1 m1), w1) \<Longrightarrow>
    script_bytes (reads w2) = script_bytes (reads w1) @ extra \<Longrightarrow> sent w2 = sent w1 \<Longrightarrow>
    resumed try_parse stage_finished role1 m1 w2 later r w' \<Longrightarrow>
    resumed try_parse stage_finished role m w (extra @ later) r w'"

text \<open>Input that arrives later is input that had not been read.\<close>

lemma machine_in_later:
  "script_bytes (reads w2) = script_bytes (reads w1) @ extra \<Longrightarrow> machine_in m w2 = machine_in m w1 @ extra"
  by (cases m) simp_all

lemma machine_out_later: "sent w2 = sent w1 \<Longrightarrow> machine_out m w2 = machine_out m w1"
  by (cases m) simp_all

section \<open>Roles that can be resumed\<close>

text \<open>
  A role can be resumed if its contract is one for every input and if input that arrives later
  only lengthens what there is to read.
\<close>

locale resumable_role =
  fixes try_parse :: "bytes \<Rightarrow> (nat \<times> 'o) option result"
    and stage_finished :: "'o stage_result \<Rightarrow> 'role \<Rightarrow> world \<Rightarrow> 'r processing_result result \<times> 'role \<times> world"
    and rank :: "bool \<Rightarrow> nat"
    and inv :: "bytes \<Rightarrow> 'role \<Rightarrow> bool \<Rightarrow> bytes \<Rightarrow> bytes \<Rightarrow> bool"
    and post :: "bytes \<Rightarrow> 'r \<Rightarrow> world \<Rightarrow> bool"
  assumes contract: "handshake_role try_parse stage_finished rank (inv input) (post input)"
    and later_law: "inv input role reading inn out \<Longrightarrow> inv (input @ extra) role reading (inn @ extra) out"
begin

lemma goes_on:
  assumes "machine_ok m" "inv input role (is_reading m) (machine_in m w) (machine_out m w)"
    and "handshake try_parse stage_finished role m w = Some (Err (Interrupted role1 m1), w1)"
    and "script_bytes (reads w2) = script_bytes (reads w1) @ extra" "sent w2 = sent w1"
  shows "machine_ok m1 \<and> inv (input @ extra) role1 (is_reading m1) (machine_in m1 w2) (machine_out m1 w2)"
  using handshake_role.handshake_interrupted [OF contract [of input] assms(1) _ assms(3)] assms(2)
    later_law [of input role1 "is_reading m1" "machine_in m1 w1" "machine_out m1 w1" extra]
  by (simp add: handshake_role.inv_at_def [OF contract] machine_in_later [OF assms(4)] machine_out_later [OF assms(5)])

text \<open>A handshake that ends after interruptions ends as if all input had been there at once.\<close>

lemma resumed_done:
  assumes "resumed try_parse stage_finished role m w extra (Ok result) w'"
    and "machine_ok m" "inv input role (is_reading m) (machine_in m w) (machine_out m w)"
  shows "post (input @ extra) result w'"
  using assms
proof (induction role m w extra "Ok result :: ('role handshake_error, 'r) outcome" w' arbitrary: input
    rule: resumed.induct)
  case (last_call role m w w')
  then show ?case
    using handshake_role.handshake_done [OF contract [of input], of m role w result w']
    by (simp add: handshake_role.inv_at_def [OF contract])
next
  case (call_again role m w role1 m1 w1 w2 extra later w')
  have "machine_ok m1" "inv (input @ extra) role1 (is_reading m1) (machine_in m1 w2) (machine_out m1 w2)"
    using goes_on [OF call_again.prems call_again.hyps(1,2,3)] by simp_all
  then show ?case using call_again.hyps(5) [of "input @ extra"] by simp
qed

text \<open>A handshake that is still interrupted can be called again.\<close>

lemma resumed_interrupted:
  assumes "resumed try_parse stage_finished role m w extra (Err (Interrupted role' m')) w'"
    and "machine_ok m" "inv input role (is_reading m) (machine_in m w) (machine_out m w)"
  shows "machine_ok m' \<and> inv (input @ extra) role' (is_reading m') (machine_in m' w') (machine_out m' w')"
  using assms
proof (induction role m w extra "Err (Interrupted role' m') :: ('role handshake_error, 'r) outcome" w'
    arbitrary: input rule: resumed.induct)
  case (last_call role m w w')
  then show ?case
    using handshake_role.handshake_interrupted [OF contract [of input], of m role w role' m' w']
    by (simp add: handshake_role.inv_at_def [OF contract])
next
  case (call_again role m w role1 m1 w1 w2 extra later w')
  have "machine_ok m1" "inv (input @ extra) role1 (is_reading m1) (machine_in m1 w2) (machine_out m1 w2)"
    using goes_on [OF call_again.prems call_again.hyps(1,2,3)] by simp_all
  then show ?case using call_again.hyps(5) [of "input @ extra"] by simp
qed

end

interpretation rsv: resumable_role "request_try_parse H" "server_stage_finished fl H" server_rank
    "\<lambda>input. server_inv H cb conf input out0" "\<lambda>input. server_post fl H cb conf input out0"
  for fl :: "('c, 'd) flate" and H :: "'u http_lib" and cb conf out0
  by unfold_locales (auto simp: server_inv_def split: if_splits)

interpretation rcl: resumable_role "response_try_parse H" "client_stage_finished fl H cap" client_rank
    "\<lambda>input. client_inv role0 input out0" "\<lambda>input. client_post fl H role0 input out0"
  for fl :: "('c, 'd) flate" and H :: "'u http_lib" and cap role0 out0
  by unfold_locales (auto simp: client_inv_def)

section \<open>The two sides\<close>

text \<open>
  Claim C31. An interruption loses nothing, and neither do several: when \<open>accept\<close> is interrupted
  because the stream would block, and is called again after every interruption as more input
  arrives, it ends as if all the input had been there at once.
\<close>

theorem accept_resumed:
  assumes "resumed (request_try_parse H) (server_stage_finished fl H) (fst (server_start cb conf)) start_read
      stream extra (Ok x) stream'"
  shows "server_post fl H cb conf (script_bytes (reads stream) @ extra) (sent stream) x stream'"
  by (rule rsv.resumed_done [OF assms]) (simp_all add: server_inv_def)

lemma sample_server_blocks:
  "handshake (request_try_parse sample_http) (server_stage_finished copying sample_http)
      (fst (server_start no_callback None)) start_read (handshake_world [RdErr WouldBlock]) =
     Some (Err (Interrupted (fst (server_start no_callback None)) start_read), handshake_world [])"
  using sample_interrupted by (simp add: accept_started)

lemma sample_server_resumes:
  assumes "ctx_new copying Server None = Ok x"
  shows "resumed (request_try_parse sample_http) (server_stage_finished copying sample_http)
    (fst (server_start no_callback None)) start_read (handshake_world [RdErr WouldBlock]) ([] @ [82] @ []) (Ok x)
    ((handshake_world [])\<lparr>sent := sample_reply_text\<rparr>)"
proof (rule resumed.call_again [OF sample_server_blocks])
  show "script_bytes (reads (handshake_world [RdErr WouldBlock])) = script_bytes (reads (handshake_world [])) @ []"
    and "sent (handshake_world [RdErr WouldBlock]) = sent (handshake_world [])"
    by (simp_all add: handshake_world_def)
  show "resumed (request_try_parse sample_http) (server_stage_finished copying sample_http)
    (fst (server_start no_callback None)) start_read (handshake_world [RdErr WouldBlock]) ([82] @ []) (Ok x)
    ((handshake_world [])\<lparr>sent := sample_reply_text\<rparr>)"
  proof (rule resumed.call_again [OF sample_server_blocks])
    show "resumed (request_try_parse sample_http) (server_stage_finished copying sample_http)
      (fst (server_start no_callback None)) start_read (handshake_world [RdBytes [82]]) [] (Ok x)
      ((handshake_world [])\<lparr>sent := sample_reply_text\<rparr>)"
      using sample_accept [OF assms] by (intro resumed.last_call) (simp add: accept_started)
  qed (simp_all add: handshake_world_def)
qed

theorem accept_resumed_witness:
  "\<exists>x. server_post copying sample_http no_callback None [82] [] x
     ((handshake_world [])\<lparr>sent := sample_reply_text\<rparr>)"
proof -
  obtain x where x: "ctx_new copying Server None = Ok x" using sample_ctx_new by blast
  have "script_bytes (reads (handshake_world [RdErr WouldBlock])) = []" "sent (handshake_world [RdErr WouldBlock]) = []"
    by (simp_all add: handshake_world_def idle_world_def)
  with accept_resumed [OF sample_server_resumes [OF x]] show ?thesis by auto
qed

text \<open>
  Claim C32. The same holds for a client, whether it is interrupted while it writes its request
  or while it reads the response: it ends with the whole request sent, once, and with the
  response that all the input together begins with.
\<close>

theorem client_resumed:
  assumes "client_start H request conf = Ok (role, m)"
    and "resumed (response_try_parse H) (client_stage_finished fl H cap) role m stream extra (Ok (x, result)) stream'"
  shows "\<exists>req. m = start_write req \<and>
    client_post fl H role (script_bytes (reads stream) @ extra) (sent stream @ req) (x, result) stream'"
proof -
  obtain req where m: "m = start_write req" using client_start_Ok [OF assms(1)] by blast
  have "client_post fl H role (script_bytes (reads stream) @ extra) (sent stream @ req) (x, result) stream'"
    by (rule rcl.resumed_done [OF assms(2)]) (simp_all add: m client_inv_def)
  with m show ?thesis by blast
qed

abbreviation client_call :: "handshake_state \<Rightarrow> world \<Rightarrow> ((client_handshake handshake_error,
    (unit, unit) ctx \<times> bytes option http_reply) outcome \<times> world) option" where
  "client_call \<equiv> handshake (response_try_parse sample_http) (client_stage_finished copying sample_http 2) sample_client_role"

lemma sample_client_blocks:
  "client_call (start_write sample_client_text) (handshake_world [RdErr WouldBlock]) =
     Some (Err (Interrupted sample_client_role start_read), (handshake_world [])\<lparr>sent := sample_client_text\<rparr>)"
proof -
  have "client_call (start_write sample_client_text) (handshake_world [RdErr WouldBlock]) =
    client_call Flushing ((handshake_world [RdErr WouldBlock])\<lparr>sent := sample_client_text\<rparr>)"
    by (subst handshake.simps) (simp add: sample_client_writes)
  also have "\<dots> = client_call start_read ((handshake_world [RdErr WouldBlock])\<lparr>sent := sample_client_text\<rparr>)"
    by (subst handshake.simps) (simp add: sample_client_flushes client_stage_finished_def)
  also have "\<dots> = Some (Err (Interrupted sample_client_role start_read), (handshake_world [])\<lparr>sent := sample_client_text\<rparr>)"
    by (subst handshake.simps)
      (simp add: handshake_world_def single_round_def start_read_def read_round_def read_from_def clean_up_def
        read_buffer_new_def read_buffer_from_partially_read_def cursor_new_def stream_read_def CHUNK_SIZE_def
        no_block_io_def)
  finally show ?thesis .
qed

lemma sample_client_resumes:
  "\<exists>x. resumed (response_try_parse sample_http) (client_stage_finished copying sample_http 2) sample_client_role
     (start_write sample_client_text) (handshake_world [RdErr WouldBlock]) ([82, 129, 0] @ []) (Ok (x, sample_client_reply))
     ((handshake_world [])\<lparr>sent := sample_client_text\<rparr>)"
proof -
  let ?w = "(handshake_world [])\<lparr>sent := sample_client_text\<rparr>"
  let ?w2 = "(handshake_world [RdBytes [82, 129, 0]])\<lparr>sent := sample_client_text\<rparr>"
  obtain x where x: "ctx_from_partially_read copying [129, 0] 2 Client None ?w = (Ok x, ?w)"
    using sample_client_context by blast
  have "client_call start_read ?w2 = Some (Ok (x, sample_client_reply), ?w)"
    using sample_agreed
    by (subst handshake.simps) (simp add: sample_client_reads client_stage_finished_def client_done_reading_def
        sample_verified x, simp add: sample_client_role_def x)
  then have "resumed (response_try_parse sample_http) (client_stage_finished copying sample_http 2) sample_client_role
      start_read ?w2 [] (Ok (x, sample_client_reply)) ?w"
    by (rule resumed.last_call)
  then show ?thesis
    by (intro exI [of _ x] resumed.call_again [OF sample_client_blocks, of ?w2]) (simp_all add: handshake_world_def)
qed

theorem client_resumed_witness:
  "\<exists>req x. start_write sample_client_text = start_write req \<and>
     client_post copying sample_http sample_client_role [82, 129, 0] req (x, sample_client_reply)
       ((handshake_world [])\<lparr>sent := sample_client_text\<rparr>)"
proof -
  have w: "script_bytes (reads (handshake_world [RdErr WouldBlock])) = []" "sent (handshake_world [RdErr WouldBlock]) = []"
    by (simp_all add: handshake_world_def idle_world_def)
  obtain x where x: "resumed (response_try_parse sample_http) (client_stage_finished copying sample_http 2)
      sample_client_role (start_write sample_client_text) (handshake_world [RdErr WouldBlock]) ([82, 129, 0] @ [])
      (Ok (x, sample_client_reply)) ((handshake_world [])\<lparr>sent := sample_client_text\<rparr>)"
    using sample_client_resumes by blast
  from client_resumed [OF sample_client_start this] show ?thesis by (auto simp: w)
qed

end
