(* ===== verification/Handshake_Rounds.thy ===== *)
theory Handshake_Rounds
  imports Resumption
begin

text \<open>
  How long a handshake can take. A call of \<open>MidHandshake::handshake\<close> (\<open>src/src/handshake/mod.rs\<close>)
  loops over rounds, each of which reads, writes or flushes once. A peer decides how many reads
  it takes until the request or the response is complete, and a real peer can go on for ever; what
  stops it is the attack check of \<open>src/src/handshake/machine.rs\<close>. The bounds here do not depend
  on how much input there is.
\<close>

section \<open>Counting rounds\<close>

text \<open>The loop, allowed so many rounds; \<open>None\<close> if they are not enough.\<close>

primrec handshake_within ::
  "nat \<Rightarrow> (bytes \<Rightarrow> (nat \<times> 'o) option result)
   \<Rightarrow> ('o stage_result \<Rightarrow> 'role \<Rightarrow> world \<Rightarrow> 'r processing_result result \<times> 'role \<times> world)
   \<Rightarrow> 'role \<Rightarrow> handshake_state \<Rightarrow> world
   \<Rightarrow> (('role handshake_error, 'r) outcome \<times> world) option"
where
  "handshake_within 0 try_parse stage_finished role m w = None"
| "handshake_within (Suc n) try_parse stage_finished role m w =
     (case single_round try_parse m w of
        (Err e, w1) \<Rightarrow> Some (Err (Failure e), w1)
      | (Panic, w1) \<Rightarrow> Some (Panic, w1)
      | (Ok (WouldBlockRound m1), w1) \<Rightarrow> Some (Err (Interrupted role m1), w1)
      | (Ok (Incomplete m1), w1) \<Rightarrow> handshake_within n try_parse stage_finished role m1 w1
      | (Ok (StageFinished s), w1) \<Rightarrow>
          (case stage_finished s role w1 of
             (Err e, role1, w2) \<Rightarrow> Some (Err (Failure e), w2)
           | (Panic, role1, w2) \<Rightarrow> Some (Panic, w2)
           | (Ok (Continue m1), role1, w2) \<Rightarrow> handshake_within n try_parse stage_finished role1 m1 w2
           | (Ok (Done result), role1, w2) \<Rightarrow> Some (Ok result, w2)))"

text \<open>A round takes nothing back of what has been sent, and one that writes sends something.\<close>

lemma write_round_sends:
  assumes "write_round c w = (r, w1)"
  shows "length (sent w) \<le> length (sent w1)" "r = Ok (Incomplete m1) \<Longrightarrow> length (sent w) < length (sent w1)"
proof -
  obtain q w2 where s: "stream_write (cursor_chunk c) w = (q, w2)" by (rule prod.exhaust)
  have sent: "length (sent w) \<le> length (sent w2)"
  proof (cases q)
    case (Ok n)
    then show ?thesis using stream_write_Ok [of "cursor_chunk c" w n w2] s by simp
  next
    case (Err k)
    then show ?thesis using stream_write_Err [of "cursor_chunk c" w k w2] s by simp
  qed (use s in simp)
  then show "length (sent w) \<le> length (sent w1)"
    using assms s by (auto simp: write_round_def split: if_splits)
  assume r: "r = Ok (Incomplete m1)"
  then obtain n where "q = Ok n" "0 < n" "w1 = w2"
    using assms s by (auto simp: write_round_def bind_out_Ok_iff no_block_io_cases split: if_splits option.splits)
  then show "length (sent w) < length (sent w1)"
    using stream_write_Ok [of "cursor_chunk c" w n w2] s by simp
qed

lemma single_round_sends:
  assumes "single_round tp m w = (r, w1)"
  shows "length (sent w) \<le> length (sent w1)"
proof (cases m)
  case (Reading b a)
  obtain q b1 w2 where f: "read_from (b, w) = (q, b1, w2)" by (metis prod.exhaust)
  obtain q' w3 where "stream_read CHUNK_SIZE w = (q', w3)" by (rule prod.exhaust)
  then have "sent w2 = sent w"
    using f stream_read_frame [of CHUNK_SIZE w q' w3]
    by (auto simp: read_from_def split: prod.splits outcome.splits if_splits)
  then show ?thesis using assms f Reading by (auto simp: single_round_def read_round_def)
next
  case (Writing c)
  then show ?thesis using assms write_round_sends(1) by (simp add: single_round_def)
next
  case Flushing
  obtain q w2 where s: "stream_flush w = (q, w2)" by (rule prod.exhaust)
  then show ?thesis using assms Flushing stream_flush_frame [OF s] by (simp add: single_round_def flush_round_def)
qed

lemma single_round_writes:
  assumes "single_round tp m w = (Ok (Incomplete m1), w1)" "\<not> is_reading m"
  shows "length (sent w) < length (sent w1)"
proof (cases m)
  case (Writing c)
  then show ?thesis using assms write_round_sends(2) [OF _ refl] by (simp add: single_round_def)
next
  case Flushing
  then show ?thesis
    using assms by (auto simp: single_round_def flush_round_def bind_out_Ok_iff split: prod.splits option.splits)
qed (use assms in simp)

section \<open>Roles that only compute\<close>

text \<open>A role whose stages send nothing themselves, and the rounds that a stage may still take.\<close>

definition rounds_left :: "(bool \<Rightarrow> nat) \<Rightarrow> handshake_state \<Rightarrow> nat" where
  "rounds_left rank m =
     (if is_reading m then machine_work m + (if rank False < rank True then 1 else 0)
      else 1 + (if rank True < rank False then Suc MAX_PACKETS else 0))"

lemma rounds_left_pos: "machine_ok m \<Longrightarrow> 0 < rounds_left rank m"
  by (cases m) (auto simp: rounds_left_def attack_check_ok_def)

text \<open>A new stage has to be of the other kind, and nothing comes after it.\<close>

lemma rounds_left_stage:
  assumes "machine_ok m1" "rank (is_reading m1) < rank (is_reading m)" "machine_ok m"
  shows "rounds_left rank m1 < rounds_left rank m"
proof -
  have "is_reading m1 = (\<not> is_reading m)" using assms(2) by (cases "is_reading m1"; cases "is_reading m") auto
  moreover have "machine_work m' \<le> Suc MAX_PACKETS" if "is_reading m'" for m' using that by (cases m') auto
  moreover have "0 < machine_work m" if "is_reading m" using that assms(3) by (cases m) (auto simp: attack_check_ok_def)
  ultimately show ?thesis
    using assms(2) by (cases "is_reading m") (auto simp: rounds_left_def less_Suc_eq_le)
qed

locale silent_role = handshake_role try_parse stage_finished rank inv post
  for try_parse :: "bytes \<Rightarrow> (nat \<times> 'o) option result"
    and stage_finished :: "'o stage_result \<Rightarrow> 'role \<Rightarrow> world \<Rightarrow> 'r processing_result result \<times> 'role \<times> world"
    and rank :: "bool \<Rightarrow> nat"
    and inv :: "'role \<Rightarrow> bool \<Rightarrow> bytes \<Rightarrow> bytes \<Rightarrow> bool"
    and post :: "'r \<Rightarrow> world \<Rightarrow> bool" +
  assumes stage_silent: "stage_finished st role w = (res, role', w') \<Longrightarrow> sent w' = sent w"
begin

text \<open>
  Every round of writing is paid for by a byte that is sent, so the rounds that are left and the
  bytes that will be sent are rounds enough.
\<close>

definition returns_in_time :: "'role \<Rightarrow> handshake_state \<Rightarrow> world \<Rightarrow> bool" where
  "returns_in_time role m w \<longleftrightarrow> (\<exists>r w'. handshake try_parse stage_finished role m w = Some (r, w') \<and>
     length (sent w) \<le> length (sent w') \<and>
     (\<forall>n. rounds_left rank m + length (sent w') \<le> n + length (sent w) \<longrightarrow>
        handshake_within n try_parse stage_finished role m w = Some (r, w')))"

text \<open>A call that goes on in another state after its first round.\<close>

lemma returns_after:
  assumes "returns_in_time role1 m1 w2" "length (sent w) \<le> length (sent w2)"
    and "rounds_left rank m1 + length (sent w) < rounds_left rank m + length (sent w2)"
    and "handshake try_parse stage_finished role m w = handshake try_parse stage_finished role1 m1 w2"
    and "\<And>n. handshake_within (Suc n) try_parse stage_finished role m w =
      handshake_within n try_parse stage_finished role1 m1 w2"
  shows "returns_in_time role m w"
proof -
  obtain r w' where r: "handshake try_parse stage_finished role1 m1 w2 = Some (r, w')"
    "length (sent w2) \<le> length (sent w')"
    "\<And>n. rounds_left rank m1 + length (sent w') \<le> n + length (sent w2) \<Longrightarrow>
       handshake_within n try_parse stage_finished role1 m1 w2 = Some (r, w')"
    using assms(1) by (auto simp: returns_in_time_def)
  have "handshake_within n try_parse stage_finished role m w = Some (r, w')"
    if en: "rounds_left rank m + length (sent w') \<le> n + length (sent w)" for n
  proof -
    obtain k where k: "n = Suc k" using en r(2) assms(2,3) by (cases n) auto
    have "rounds_left rank m1 + length (sent w') \<le> k + length (sent w2)"
      using en assms(3) k by linarith
    then show ?thesis using r(3) [of k] assms(5) [of k] k by simp
  qed
  then show ?thesis using r assms(2,4) by (auto simp: returns_in_time_def)
qed

text \<open>A call that ends with its first round.\<close>

lemma returns_now:
  assumes "machine_ok m" "length (sent w) \<le> length (sent w')"
    and "handshake try_parse stage_finished role m w = Some (r, w')"
    and "\<And>n. handshake_within (Suc n) try_parse stage_finished role m w = Some (r, w')"
  shows "returns_in_time role m w"
proof -
  have "handshake_within n try_parse stage_finished role m w = Some (r, w')"
    if "rounds_left rank m + length (sent w') \<le> n + length (sent w)" for n
    using that rounds_left_pos [OF assms(1), of rank] assms(2,4) by (cases n) auto
  with assms(2,3) show ?thesis by (auto simp: returns_in_time_def)
qed

lemma handshake_in_time: "machine_ok m \<Longrightarrow> returns_in_time role m w"
proof (induction "(m, role, w)" arbitrary: m role w
    rule: wf_induct_rule [OF wf_measures [of "[\<lambda>(m, _, _). rank (is_reading m), \<lambda>(m, _, _). machine_work m]"]])
  case 1
  note IH = 1(1) and ok = 1(2)
  obtain r w1 where rd: "single_round try_parse m w = (r, w1)" by (rule prod.exhaust)
  note grows = single_round_sends [OF rd]
  show ?case
  proof (cases r)
    case (Ok res)
    note keep = single_round_ok [OF rd [unfolded Ok] ok]
    show ?thesis
    proof (cases res)
      case (WouldBlockRound m1)
      then show ?thesis
        by (intro returns_now [OF ok grows]) (subst handshake.simps, simp_all add: rd Ok)
    next
      case (Incomplete m1)
      then have m1: "machine_ok m1" "is_reading m1 = is_reading m" "machine_work m1 < machine_work m"
        using keep by (simp_all add: round_ok_def same_stage_def)
      have "rounds_left rank m1 + length (sent w) < rounds_left rank m + length (sent w1)"
        using m1 grows single_round_writes [of try_parse m w m1 w1] rd Ok Incomplete
        by (cases "is_reading m") (auto simp: rounds_left_def)
      then show ?thesis
        using IH [of m1 role w1] m1
        by (intro returns_after [of role m1 w1, OF _ grows]) (auto simp: handshake.simps [of _ _ role m w] rd Ok Incomplete)
    next
      case (StageFinished st)
      obtain q role1 w2 where sf: "stage_finished st role w1 = (q, role1, w2)" by (metis prod.exhaust)
      have grows2: "length (sent w) \<le> length (sent w2)" using grows stage_silent [OF sf] by simp
      have phase: "is_reading m = (case st of DoneReading _ _ \<Rightarrow> True | DoneWriting \<Rightarrow> False)"
        using keep StageFinished by (cases st) (simp_all add: round_ok_def)
      show ?thesis
      proof (cases "\<exists>m1. q = Ok (Continue m1)")
        case True
        then obtain m1 where q: "q = Ok (Continue m1)" by blast
        have m1: "machine_ok m1" "rank (is_reading m1) < rank (is_reading m)"
          using progress [of st role w1 m1 role1 w2] sf q phase by simp_all
        have "rounds_left rank m1 + length (sent w) < rounds_left rank m + length (sent w2)"
          using rounds_left_stage [OF m1 ok] grows2 by linarith
        then show ?thesis
          using IH [of m1 role1 w2] m1
          by (intro returns_after [of role1 m1 w2, OF _ grows2])
            (auto simp: handshake.simps [of _ _ role m w] rd Ok StageFinished sf q)
      next
        case False
        then have "\<exists>r'. (\<forall>n. handshake_within (Suc n) try_parse stage_finished role m w = Some (r', w2)) \<and>
            handshake try_parse stage_finished role m w = Some (r', w2)"
          by (subst handshake.simps, cases q)
            (auto simp: rd Ok StageFinished sf split: processing_result.splits)
        then show ?thesis using returns_now [OF ok grows2] by blast
      qed
    qed
  next
    case (Err e)
    then show ?thesis by (intro returns_now [OF ok grows]) (subst handshake.simps, simp_all add: rd)
  next
    case Panic
    then show ?thesis by (intro returns_now [OF ok grows]) (subst handshake.simps, simp_all add: rd)
  qed
qed

end

lemma ctx_from_partially_read_sent:
  assumes "ctx_from_partially_read fl part cap r conf w = (q, w')"
  shows "sent w' = sent w"
proof -
  obtain q1 fc w1 where f: "codec_from_partially_read part cap (read_buffer_size (config_or_default conf)) w = (q1, fc, w1)"
    by (metis prod.exhaust)
  then have "sent w1 = sent w"
    by (auto simp: codec_from_partially_read_def reserve_in_def Let_def dest: next_slack_frame split: if_splits prod.splits)
  then show ?thesis using assms f by (cases q1) (auto simp: ctx_from_partially_read_def Let_def)
qed

interpretation ssv: silent_role "request_try_parse H" "server_stage_finished fl H" server_rank
    "server_inv H cb conf input out0" "server_post fl H cb conf input out0"
  for fl :: "('c, 'd) flate" and H :: "'u http_lib" and cb conf input out0
  by unfold_locales (auto simp: server_stage_finished_def split: prod.splits)

interpretation scl: silent_role "response_try_parse H" "client_stage_finished fl H cap" client_rank
    "client_inv role0 input out0" "client_post fl H role0 input out0"
  for fl :: "('c, 'd) flate" and H :: "'u http_lib" and cap role0 input out0
proof
  fix st :: "bytes option http_reply stage_result" and role role' :: client_handshake and w w' :: world
    and res :: "(('c, 'd) ctx \<times> bytes option http_reply) processing_result result"
  assume a: "client_stage_finished fl H cap st role w = (res, role', w')"
  show "sent w' = sent w"
  proof (cases st)
    case (DoneReading response tail)
    then show ?thesis
      using a by (auto simp: client_stage_finished_def client_done_reading_def dest: ctx_from_partially_read_sent
          split: outcome.splits error.splits prod.splits)
  qed (use a in \<open>simp add: client_stage_finished_def\<close>)
qed

lemma rounds_left_start: "rounds_left server_rank start_read = 514" "rounds_left client_rank (start_write d) = 514"
  by (simp_all add: rounds_left_def server_rank_def client_rank_def start_read_def start_write_def attack_check_new_def
      MAX_PACKETS_def)

text \<open>
  Claim C24. No peer can keep a call of the opening handshake busy. \<open>accept\<close> returns after at most
  513 reads, one write for every byte it has sent, and a flush, and so does \<open>client\<close>: the bound
  is the same for every stream, however many packets the stream still has to offer. (It returns
  with a connection, an error or an interruption, or it panics, as on a stream that accepts 0
  bytes or with a configuration that no connection can have.)
\<close>

theorem handshake_rounds_bounded:
  "(\<exists>r stream'. accept_hdr_with_config fl H stream cb conf = Some (r, stream') \<and>
      handshake_within (514 + (length (sent stream') - length (sent stream))) (request_try_parse H)
        (server_stage_finished fl H) (fst (server_start cb conf)) start_read stream = Some (r, stream')) \<and>
   (client_start H request conf = Ok (role, m) \<longrightarrow>
      (\<exists>r stream'. client_with_config fl H cap (Ok request) stream conf = Some (r, stream') \<and>
         handshake_within (514 + (length (sent stream') - length (sent stream))) (response_try_parse H)
           (client_stage_finished fl H cap) role m stream = Some (r, stream')))"
proof (intro conjI impI)
  show "\<exists>r stream'. accept_hdr_with_config fl H stream cb conf = Some (r, stream') \<and>
      handshake_within (514 + (length (sent stream') - length (sent stream))) (request_try_parse H)
        (server_stage_finished fl H) (fst (server_start cb conf)) start_read stream = Some (r, stream')"
    using ssv.handshake_in_time [of start_read H fl "fst (server_start cb conf)" stream]
    by (auto simp: ssv.returns_in_time_def accept_started rounds_left_start)
  assume s: "client_start H request conf = Ok (role, m)"
  then obtain req where "m = start_write req" using client_start_Ok by blast
  then show "\<exists>r stream'. client_with_config fl H cap (Ok request) stream conf = Some (r, stream') \<and>
      handshake_within (514 + (length (sent stream') - length (sent stream))) (response_try_parse H)
        (client_stage_finished fl H cap) role m stream = Some (r, stream')"
    using scl.handshake_in_time [of m H fl cap role stream]
    by (auto simp: scl.returns_in_time_def client_with_config_def s rounds_left_start)
qed

text \<open>
  A peer that sends one byte at a time and never completes its request is refused with its 65th
  packet: 65 packets should have had 8320 bytes. The rest of its 600 packets is not read.
\<close>

lemma handshake_within_more:
  "handshake_within n tp sf role m w = Some x \<Longrightarrow> n \<le> k \<Longrightarrow> handshake_within k tp sf role m w = Some x"
proof (induction n arbitrary: k role m w)
  case (Suc n)
  then obtain j where "k = Suc j" "n \<le> j" by (cases k) auto
  with Suc show ?case
    by (auto split: outcome.splits prod.splits round_result.splits processing_result.splits)
qed simp

definition dripping_world :: "nat \<Rightarrow> world" where
  "dripping_world n = handshake_world (replicate n (RdBytes [71]))"

definition dripped :: "nat \<Rightarrow> handshake_state" where
  "dripped k = Reading \<lparr>storage = cursor_new (replicate k 71)\<rparr> \<lparr>number_of_packets = k, number_of_bytes = k\<rparr>"

lemma dripped_start: "start_read = dripped 0"
  by (simp add: start_read_def dripped_def read_buffer_new_def read_buffer_from_partially_read_def cursor_new_def
      attack_check_new_def)

lemma sample_incomplete: "request_try_parse sample_http (replicate (Suc k) 71) = Ok None"
  by (simp add: request_try_parse_def sample_library_def lift_httparse_def)

lemma dripping_round:
  assumes "tp (replicate (Suc k) 71) = Ok None"
  shows "single_round tp (dripped k) (handshake_world (RdBytes [71] # rs)) =
    (if k < 64 then Ok (Incomplete (dripped (Suc k))) else Err AttackAttempt, handshake_world rs)"
proof -
  have rd: "stream_read CHUNK_SIZE (handshake_world (RdBytes [71] # rs)) = (Ok [71], handshake_world rs)"
    by (simp add: stream_read_def handshake_world_def CHUNK_SIZE_def)
  have "read_from (\<lparr>storage = cursor_new (replicate k 71)\<rparr>, handshake_world (RdBytes [71] # rs)) =
      (Ok 1, \<lparr>storage = cursor_new (replicate (Suc k) 71)\<rparr>, handshake_world rs)"
    using read_from_ok [OF buffer_of_cursor(1) rd, of "replicate k 71"] by (simp add: replicate_append_same)
  then show ?thesis
    using assms
    by (simp add: single_round_def dripped_def read_round_def no_block_io_def check_incoming_packet_size_def
        finish_reading_def MAX_BYTES_def MAX_PACKETS_def MIN_PACKET_CHECK_THRESHOLD_def MIN_PACKET_SIZE_def Let_def)
qed

lemma dripping_refused:
  assumes "\<And>k. tp (replicate (Suc k) 71) = Ok None" "d \<le> 64"
  shows "handshake_within (Suc d) tp sf role (dripped (64 - d)) (dripping_world (n + Suc d)) =
    Some (Err (Failure AttackAttempt), dripping_world n)"
  using assms(2)
proof (induction d)
  case 0
  show ?case
    using dripping_round [of tp 64 "replicate n (RdBytes [71])", OF assms(1)] by (simp add: dripping_world_def)
next
  case (Suc d)
  then have "Suc (64 - Suc d) = 64 - d" by simp
  with Suc show ?case
    using dripping_round [of tp "64 - Suc d" "replicate (n + Suc d) (RdBytes [71])", OF assms(1)]
    by (simp add: dripping_world_def)
qed

theorem handshake_rounds_bounded_witness:
  "accept_hdr_with_config copying sample_http (dripping_world 600) no_callback None =
     Some (Err (Failure AttackAttempt), dripping_world 535) \<and>
   (\<exists>r stream'. handshake_within (514 + length (sent stream')) (response_try_parse sample_http)
      (client_stage_finished copying sample_http 2) sample_client_role (start_write sample_client_text)
      (dripping_world 600) = Some (r, stream'))"
proof -
  let ?run = "\<lambda>n. handshake_within n (request_try_parse sample_http) (server_stage_finished copying sample_http)
    (fst (server_start no_callback None)) start_read (dripping_world 600)"
  have sent: "sent (dripping_world n) = []" for n by (simp add: dripping_world_def handshake_world_def idle_world_def)
  from dripping_refused [where tp = "request_try_parse sample_http" and d = 64 and n = 535, OF sample_incomplete]
  have "?run 65 = Some (Err (Failure AttackAttempt), dripping_world 535)" by (simp add: dripped_start)
  then have long: "?run (514 + n) = Some (Err (Failure AttackAttempt), dripping_world 535)" for n
    by (rule handshake_within_more) simp
  note law = handshake_rounds_bounded [where fl = copying and H = sample_http and stream = "dripping_world 600"
      and cb = no_callback and conf = None and request = sample_client_request and role = sample_client_role
      and m = "start_write sample_client_text" and cap = 2]
  have "accept_hdr_with_config copying sample_http (dripping_world 600) no_callback None =
      Some (Err (Failure AttackAttempt), dripping_world 535)"
    using law [THEN conjunct1] long by (auto simp: sent)
  moreover have "\<exists>r stream'. handshake_within (514 + length (sent stream')) (response_try_parse sample_http)
      (client_stage_finished copying sample_http 2) sample_client_role (start_write sample_client_text)
      (dripping_world 600) = Some (r, stream')"
    using law [THEN conjunct2] sample_client_start [of PlainMode] by (auto simp: sent)
  ultimately show ?thesis by blast
qed

section \<open>What is buffered\<close>

text \<open>The limits of the attack check on the bytes read so far and the number of packets they came in.\<close>

definition within_attack_limits :: "read_buffer \<Rightarrow> attack_check \<Rightarrow> bool" where
  "within_attack_limits b a \<longleftrightarrow>
     number_of_bytes a = length (buffer_chunk b) \<and> length (buffer_chunk b) \<le> 65536 \<and>
     number_of_packets a \<le> 512 \<and> (64 < number_of_packets a \<longrightarrow> 128 * number_of_packets a \<le> length (buffer_chunk b))"

lemma machine_ok_limits: "machine_ok (Reading b a) \<Longrightarrow> within_attack_limits b a"
  by (simp add: within_attack_limits_def attack_check_ok_def MAX_BYTES_def MAX_PACKETS_def
      MIN_PACKET_CHECK_THRESHOLD_def MIN_PACKET_SIZE_def mult.commute)

text \<open>
  Claim C33. A peer cannot make an endpoint buffer without end before the handshake is complete:
  a server or a client that is still reading, after any number of interruptions, holds at most
  65536 bytes, read in at most 512 packets over all the calls, and from the 65th packet on in
  packets of at least 128 bytes on average. What it holds is what the peer has sent so far, in
  order, and the server has sent nothing yet, the client its request and nothing else.
\<close>

theorem handshake_buffer_bounded:
  "(resumed (request_try_parse H) (server_stage_finished fl H) (fst (server_start cb conf)) start_read
      stream extra (Err (Interrupted role (Reading b a))) stream' \<longrightarrow>
    within_attack_limits b a \<and>
    script_bytes (reads stream) @ extra = buffer_chunk b @ script_bytes (reads stream') \<and> sent stream' = sent stream) \<and>
   (client_start H request conf = Ok (role0, m) \<longrightarrow>
    resumed (response_try_parse H) (client_stage_finished fl H cap) role0 m
      stream extra (Err (Interrupted role' (Reading b a))) stream' \<longrightarrow>
    within_attack_limits b a \<and>
    script_bytes (reads stream) @ extra = buffer_chunk b @ script_bytes (reads stream') \<and>
    (\<exists>req. m = start_write req \<and> sent stream' = sent stream @ req))"
proof (intro conjI impI)
  assume "resumed (request_try_parse H) (server_stage_finished fl H) (fst (server_start cb conf)) start_read
      stream extra (Err (Interrupted role (Reading b a))) stream'"
  from rsv.resumed_interrupted [OF this, where cb = cb and conf = conf and input = "script_bytes (reads stream)"
      and ?out0.0 = "sent stream"]
  have ok: "machine_ok (Reading b a)" "server_inv H cb conf (script_bytes (reads stream) @ extra) (sent stream) role
      True (buffer_chunk b @ script_bytes (reads stream')) (sent stream')"
    by (simp_all add: server_inv_def)
  show "within_attack_limits b a" by (rule machine_ok_limits) (fact ok(1))
  show "script_bytes (reads stream) @ extra = buffer_chunk b @ script_bytes (reads stream')" "sent stream' = sent stream"
    using ok(2) by (simp_all add: server_inv_def)
next
  assume s: "client_start H request conf = Ok (role0, m)"
    and run: "resumed (response_try_parse H) (client_stage_finished fl H cap) role0 m
      stream extra (Err (Interrupted role' (Reading b a))) stream'"
  obtain req where m: "m = start_write req" using client_start_Ok [OF s] by blast
  from rcl.resumed_interrupted [OF run, where input = "script_bytes (reads stream)" and ?role0.0 = role0
      and ?out0.0 = "sent stream @ req"] m
  have ok: "machine_ok (Reading b a)" "client_inv role0 (script_bytes (reads stream) @ extra) (sent stream @ req) role'
      True (buffer_chunk b @ script_bytes (reads stream')) (sent stream')"
    by (simp_all add: client_inv_def)
  show "within_attack_limits b a" by (rule machine_ok_limits) (fact ok(1))
  show "script_bytes (reads stream) @ extra = buffer_chunk b @ script_bytes (reads stream')"
    "\<exists>req. m = start_write req \<and> sent stream' = sent stream @ req"
    using ok(2) m by (simp_all add: client_inv_def)
qed

text \<open>
  One byte of a request that is not complete, then an interruption, and the same once more; and
  one byte of a response to a client that has sent its request.
\<close>

lemma sample_incomplete_reply: "response_try_parse sample_http (replicate (Suc k) 71) = Ok None"
  by (simp add: response_try_parse_def sample_library_def lift_httparse_def)

lemma dripped_blocks:
  assumes "tp (replicate (Suc k) 71) = Ok None" "k < 64"
  shows "handshake tp sf role (dripped k) ((handshake_world [RdBytes [71], RdErr WouldBlock])\<lparr>sent := d\<rparr>) =
    Some (Err (Interrupted role (dripped (Suc k))), (handshake_world [])\<lparr>sent := d\<rparr>)"
proof -
  let ?w = "\<lambda>rs. (handshake_world rs)\<lparr>sent := d\<rparr>"
  have rd: "stream_read CHUNK_SIZE (?w [RdBytes [71], RdErr WouldBlock]) = (Ok [71], ?w [RdErr WouldBlock])"
    "stream_read CHUNK_SIZE (?w [RdErr WouldBlock]) = (Err WouldBlock, ?w [])"
    by (simp_all add: stream_read_def handshake_world_def CHUNK_SIZE_def)
  note from1 = read_from_ok [OF buffer_of_cursor(1) rd(1), of "replicate k 71"]
    and from2 = read_from_ok [OF buffer_of_cursor(1) rd(2), of "replicate (Suc k) 71"]
  have "single_round tp (dripped k) (?w [RdBytes [71], RdErr WouldBlock]) =
      (Ok (Incomplete (dripped (Suc k))), ?w [RdErr WouldBlock])"
    using assms from1
    by (simp add: single_round_def dripped_def read_round_def no_block_io_def check_incoming_packet_size_def
        finish_reading_def MAX_BYTES_def MAX_PACKETS_def MIN_PACKET_CHECK_THRESHOLD_def replicate_append_same Let_def)
  moreover have "single_round tp (dripped (Suc k)) (?w [RdErr WouldBlock]) =
      (Ok (WouldBlockRound (dripped (Suc k))), ?w [])"
    using from2 by (simp add: single_round_def dripped_def read_round_def no_block_io_def)
  ultimately show ?thesis by (subst handshake.simps, simp, subst handshake.simps, simp)
qed

theorem handshake_buffer_bounded_witness:
  "\<exists>b a b' a'. dripped 2 = Reading b a \<and> within_attack_limits b a \<and> [71, 71] = buffer_chunk b \<and>
     dripped 1 = Reading b' a' \<and> within_attack_limits b' a' \<and> [71] = buffer_chunk b'"
proof -
  let ?w = "handshake_world [RdBytes [71], RdErr WouldBlock]" and ?e = "handshake_world []"
  let ?sv = "fst (server_start (no_callback :: bytes callback) None)"
  obtain b a where ba: "dripped 2 = Reading b a" by (simp add: dripped_def)
  obtain b' a' where ba': "dripped 1 = Reading b' a'" by (simp add: dripped_def)
  have call: "handshake (request_try_parse sample_http) (server_stage_finished copying sample_http) ?sv (dripped k) ?w =
      Some (Err (Interrupted ?sv (dripped (Suc k))), ?e)" if "k < 64" for k
    using dripped_blocks [where tp = "request_try_parse sample_http" and k = k and d = "[]", OF sample_incomplete that] by (simp add: handshake_world_def idle_world_def)
  have two: "resumed (request_try_parse sample_http) (server_stage_finished copying sample_http) ?sv start_read
      ?w ([71] @ []) (Err (Interrupted ?sv (Reading b a))) ?e"
    unfolding dripped_start ba [symmetric]
    by (rule resumed.call_again [OF call [of 0] _ _ resumed.last_call [OF call [of 1, folded Suc_1 [symmetric]], simplified]])
      (simp_all add: handshake_world_def)
  have again: "handshake (response_try_parse sample_http) (client_stage_finished copying sample_http 2) sample_client_role
      start_read ((handshake_world [RdBytes [71], RdErr WouldBlock])\<lparr>sent := sample_client_text\<rparr>) =
    Some (Err (Interrupted sample_client_role (dripped 1)), ?e\<lparr>sent := sample_client_text\<rparr>)"
    unfolding dripped_start using dripped_blocks [where tp = "response_try_parse sample_http" and k = 0, OF sample_incomplete_reply]
    by simp
  have client: "resumed (response_try_parse sample_http) (client_stage_finished copying sample_http 2) sample_client_role
      (start_write sample_client_text) (handshake_world [RdErr WouldBlock]) ([71] @ [])
      (Err (Interrupted sample_client_role (Reading b' a'))) (?e\<lparr>sent := sample_client_text\<rparr>)"
    unfolding ba' [symmetric]
    by (rule resumed.call_again [OF sample_client_blocks _ _ resumed.last_call [OF again]]) (simp_all add: handshake_world_def)
  show ?thesis
    using handshake_buffer_bounded [THEN conjunct1, THEN mp, OF two] ba ba'
      handshake_buffer_bounded [THEN conjunct2, THEN mp, THEN mp, OF sample_client_start client]
    by (simp add: handshake_world_def)
qed

end
