(* ===== verification/Negotiated_Codec.thy ===== *)
theory Negotiated_Codec
  imports Deflate_Negotiate Deflate_Codec
begin

text \<open>
  From the negotiation to the codec. \<open>Context::new\<close> of \<open>src/src/protocol/deflate/codec.rs\<close> hands
  the negotiated windows to \<open>flate2\<close>, which panics on a window outside 9 to 15 bits, while RFC
  7692 lets a peer choose 8. This theory shows that whatever the peer has written, the settings
  that come out of the negotiation are ones the codec can be built from.
\<close>

section \<open>Building the codec\<close>

text \<open>The two windows of an endpoint: its own, to compress, and the peer's, to decompress.\<close>

definition agreed_own_window :: "role \<Rightarrow> settings \<Rightarrow> nat" where
  "agreed_own_window r s = (case r of Client \<Rightarrow> client_max_window_bits s | Server \<Rightarrow> server_max_window_bits s)"

definition agreed_peer_window :: "role \<Rightarrow> settings \<Rightarrow> nat" where
  "agreed_peer_window r s = (case r of Client \<Rightarrow> server_max_window_bits s | Server \<Rightarrow> client_max_window_bits s)"

text \<open>What a codec is that does what was agreed.\<close>

definition codec_for :: "('c, 'd) flate \<Rightarrow> role \<Rightarrow> settings \<Rightarrow> ('c, 'd) deflate_context \<Rightarrow> bool" where
  "codec_for fl r s c \<longleftrightarrow>
     encoder c = compress_new fl (compression s) (agreed_own_window r s) \<and>
     agreed_peer_window r s \<le> dec_window_bits (decoder_of c) \<and> window_in_range (dec_window_bits (decoder_of c)) \<and>
     dec_stream (decoder_of c) = decompress_new fl (dec_window_bits (decoder_of c)) \<and>
     (reset_encoder_flag c \<longleftrightarrow> (case r of Client \<Rightarrow> client_no_context_takeover s | Server \<Rightarrow> server_no_context_takeover s)) \<and>
     (reset_decoder_flag c \<longleftrightarrow> (case r of Client \<Rightarrow> server_no_context_takeover s | Server \<Rightarrow> client_no_context_takeover s))"

lemma deflate_context_builds:
  assumes "window_in_range (agreed_own_window r s)" "agreed_peer_window r s \<le> 15"
  shows "\<exists>c. deflate_context_new fl r s = Ok c \<and> codec_for fl r s c"
  using assms
  by (cases r) (auto simp: deflate_context_new_def decoder_new_def window_in_range_def codec_for_def agreed_own_window_def
      agreed_peer_window_def Let_def max_def)

text \<open>
  Claim C36. Whatever the peer has written, what an endpoint with valid settings agrees to is
  something it can carry out: after a client has accepted a response, and after a server has
  accepted an offer, \<open>Context::new\<close> builds the codec and does not panic in \<open>flate2\<close>. It
  compresses with exactly the agreed window, no wider than the endpoint's own settings allow, it
  decompresses with a window at least as wide as the one agreed on for the peer, even if that has
  8 bits, and it keeps or drops the context as agreed.
\<close>

theorem negotiated_codec_built:
  assumes "settings_ok s" "accepts_ascii from_str"
  shows "(accept_response s values = Ok (Some t) \<longrightarrow>
      (\<exists>c. deflate_context_new fl Client t = Ok c \<and> codec_for fl Client t c) \<and>
      agreed_own_window Client t \<in> {9..agreed_own_window Client s}) \<and>
    (accept_offers from_str s offers = Ok (Some (t, response)) \<longrightarrow>
      (\<exists>c. deflate_context_new fl Server t = Ok c \<and> codec_for fl Server t c) \<and>
      agreed_own_window Server t \<in> {9..agreed_own_window Server s})"
proof -
  have "window_in_range (agreed_own_window Client t) \<and> agreed_peer_window Client t \<le> 15 \<and>
      agreed_own_window Client t \<in> {9..agreed_own_window Client s}" if "accept_response s values = Ok (Some t)"
    using accept_response_within [OF assms(1), of "values"] that assms(1)
    by (simp add: window_in_range_def agreed_own_window_def agreed_peer_window_def settings_ok_def)
  moreover have "window_in_range (agreed_own_window Server t) \<and> agreed_peer_window Server t \<le> 15 \<and>
      agreed_own_window Server t \<in> {9..agreed_own_window Server s}" if "accept_offers from_str s offers = Ok (Some (t, response))"
    using accept_offers_within [OF assms, of offers] that assms(1)
    by (simp add: window_in_range_def agreed_own_window_def agreed_peer_window_def settings_ok_def)
  ultimately show ?thesis using deflate_context_builds by blast
qed

text \<open>The peer of a client chooses a window of 8 bits; the client decompresses with 9.\<close>

theorem negotiated_codec_built_witness:
  "\<exists>t c. accept_response default_settings [ascii ''permessage-deflate; server_max_window_bits=8''] = Ok (Some t) \<and>
     server_max_window_bits t = 8 \<and> deflate_context_new copying Client t = Ok c \<and> codec_for copying Client t c"
proof -
  have "accepts_ascii Some" by (simp add: accepts_ascii_def)
  moreover have "accept_response default_settings [ascii ''permessage-deflate; server_max_window_bits=8''] =
      Ok (Some (default_settings\<lparr>server_max_window_bits := 8\<rparr>))"
    by code_simp
  moreover have "server_max_window_bits (default_settings\<lparr>server_max_window_bits := 8\<rparr>) = 8" by simp
  ultimately show ?thesis using negotiated_codec_built [OF settings_ok_default, of Some] by blast
qed

end
