(* ===== verification/Spec2Isabelle.thy ===== *)
theory Spec2Isabelle
  imports Session Closing_Handshake Conversions Rejection Handshake_Rounds Negotiated_Codec
begin

text \<open>
  A verification library of tungstenite, the WebSocket crate under \<open>src/\<close>: RFC 6455 with
  the permessage-deflate extension of RFC 7692, built with the features \<open>handshake\<close> and
  \<open>deflate\<close>. Which TLS backends are built in is a parameter.

  The program. A client calls \<open>connect\<close>, \<open>client_tls\<close> or \<open>client\<close>, a server calls \<open>accept\<close>.
  \<open>connect\<close> opens a socket for a URL, protects it with TLS if the URL is \<open>wss\<close>, and follows
  redirects. The handshake
  machine exchanges one HTTP request and response over a byte stream; the role (client or
  server) builds and checks them and agrees on compression. The result is a \<open>WebSocket\<close>: a
  stream with a \<open>WebSocketContext\<close>, whose \<open>read\<close>, \<open>write\<close>, \<open>flush\<close> and \<open>close\<close> keep the
  connection state, queue automatic replies, assemble fragments and undo compression on top of
  the frame codec, which turns the byte stream into frames and frames into bytes.

  State and effects. An operation takes its state explicitly and returns it with its outcome:
  \<open>Ok\<close>, \<open>Err\<close> with an error of the crate, or \<open>Panic\<close>. So \<open>?\<close> is \<open>and_then\<close> or \<open>bind_out\<close>
  (Prelude), and each early return, error and panic of the source is a branch. The stream, the
  random generator and the allocator are the record \<open>world\<close> of Stream: finite scripts of
  reads, writes and flushes with their errors, so that every behaviour in a finite run is some
  world. Between operations of a connection the world may change, and \<open>set_config\<close> may replace
  its configuration: \<open>reachable fl r C\<close> are the connections of role \<open>r\<close> whose configurations
  are all in \<open>C\<close>, and a property of them speaks of all members of \<open>C\<close> or of the current one.
\<close>

section \<open>The theories\<close>

text \<open>
  Data and bytes.
  Prelude has the machine types (\<open>usize\<close> with 64 bits), outcomes, big-endian and decimal
  numbers. Coding is \<open>protocol/frame/coding.rs\<close>. Errors is \<open>error.rs\<close>, \<open>util.rs\<close> and the data
  types of frames and messages, Error_Display the texts of the errors. Mask is \<open>protocol/frame/mask.rs\<close>: the word-wise masking
  equals the byte-wise one for every split of the buffer and either byte order. Utf8 is
  \<open>utf8.rs\<close> with the validation of \<open>str::from_utf8\<close>, Utf8_Bytes is \<open>protocol/frame/utf8.rs\<close> with
  \<open>str\<close> as the type of valid byte strings. Frame is \<open>protocol/frame/frame.rs\<close> and
  Frame_Wire its format and parser: the locale \<open>wire_format\<close> states what a prefix code promises
  and is interpreted for headers (\<open>hw\<close>) and whole frames (\<open>fw\<close>), which gives round trips,
  waiting on prefixes and unique decoding of sequences and of their beginnings.

  Messages. Message is \<open>protocol/message.rs\<close>. The locale \<open>fragment_collector\<close> is the contract of
  a collector that refuses exactly the hopeless inputs; the string collector (\<open>sc\<close>) and the
  incomplete message (\<open>im\<close>) meet it.

  Frame codec. Stream is the world, Frame_Codec is \<open>protocol/frame/mod.rs\<close> (\<open>FrameCodec\<close> and
  \<open>FrameSocket\<close>), Codec_Props proves it: reading refines \<open>next_frame\<close>, a function of the bytes
  alone, whatever the chunks, capacities and interruptions; writing is all or nothing and
  moves bytes in order.

  Compression. Deflate_Settings is \<open>protocol/deflate/mod.rs\<close> and \<open>negotiate.rs\<close>,
  Deflate_Negotiate shows that what is negotiated is safe, whatever the peer wrote, and that
  two endpoints of the crate end with matching settings. Deflate_Codec is
  \<open>protocol/deflate/codec.rs\<close>: its loops end, are bounded by the message limit and never panic;
  Negotiated_Codec shows that the codec can be built from whatever the negotiation
  agrees on. Deflate_Bounds bounds the compressor too. Deflate_Roundtrip relates the two ends of a
  connection: while the histories of compressor and decompressor are in step, what one
  compresses the other decompresses. Deflate_Sample is an instance of the format, with stored
  blocks only.

  Engine. WebSocket is \<open>protocol/mod.rs\<close>: configuration, context and its operations, each
  split where the source has a sequence of steps (\<open>ctx_buffer_frame\<close>, \<open>send_additional\<close> and
  \<open>finish_write\<close> make up \<open>_write\<close>; \<open>fetch_frame\<close>, \<open>check_frame\<close>, \<open>inflate_frame\<close>, \<open>handle_control\<close>
  and \<open>handle_data\<close> make up \<open>read_message_frame\<close>). WebSocket_State has the connection
  states with the step relation \<open>ws_edge\<close>, the reachable connections, and the locale
  \<open>engine_relation\<close>: a relation that every building block of the engine keeps is kept by all
  operations. It is interpreted for the connection state (\<open>st\<close>), the frames put on the wire
  (\<open>em\<close>), the write buffer (\<open>bd\<close>, in WebSocket_Sending), the message under assembly (\<open>ms\<close>, in
  WebSocket_Reading) and the queued reply (\<open>fr\<close>, in WebSocket_Closing). WebSocket_Reading
  shows what \<open>read\<close> delivers and that handling frames refines an abstract message assembler,
  WebSocket_Closing that pings are answered and a server finishes its closing handshake
  once the stream accepts bytes. WebSocket_Safety shows that no operation panics, with
  \<open>engine_relation\<close> once more (\<open>sd\<close>).

  Two endpoints. Message_Exchange shows that what one endpoint writes uncompressed the other
  reads; Conversation extends it to sequences of messages with compression; Closing_Handshake
  follows a close from one side to the other and back until both connections have ended.

  Opening handshake. Read_Buffer is \<open>buffer.rs\<close>, with the locale \<open>byte_queue\<close> (\<open>rb\<close>).
  Handshake_Machine is \<open>handshake/machine.rs\<close> and the loop of \<open>handshake/mod.rs\<close>; the locale
  \<open>handshake_role\<close> is the contract of a role (an invariant over the bytes consumed and produced,
  and a rank that bounds its stages), from which termination, the outcome and resumption
  follow. Http is the interface of the HTTP libraries with \<open>handshake/headers.rs\<close>.
  Server_Handshake is \<open>handshake/server.rs\<close> and \<open>server.rs\<close>, Client_Handshake is
  \<open>handshake/client.rs\<close>, Client is the part of \<open>client.rs\<close> that works on a given stream;
  Server_Props and Client_Props interpret the role contract (\<open>sv\<close>, \<open>cl\<close>). Handshake_Props has the properties of one side, Opening_Handshake
  the text of request and response, Handshake_Agreement the two sides together, and
  Handshake_Sample a concrete run for the witnesses. Rejection shows that a server whose
  callback rejects the request has sent the whole response when it fails; its locale
  \<open>failing_role\<close> adds to the role contract in which state a role fails (\<open>rj\<close>). Resumption
  follows a handshake on a non-blocking stream through any number of interruptions; its locale
  \<open>resumable_role\<close> is the role contract for inputs that grow between the calls (\<open>rsv\<close>, \<open>rcl\<close>). Handshake_Rounds
  bounds the rounds of a call, with the locale \<open>silent_role\<close> of roles that send nothing themselves
  (\<open>ssv\<close>, \<open>scl\<close>), and what is buffered over all calls.

  Connecting. Streams is \<open>stream.rs\<close>, Tls is \<open>tls.rs\<close>, Connect is the rest of \<open>client.rs\<close>. The
  locale \<open>stream_contract\<close> is what \<open>Read\<close> and \<open>Write\<close> promise; it shows that any stream does in
  a finite run what some world does (\<open>ws\<close> is the interpretation on worlds), and a
  \<open>MaybeTlsStream\<close> meets it, which forwards every call of a run and its answer unchanged. Connect_Props shows that a handshake at a \<open>wss\<close> URL runs over TLS,
  how redirects are followed, and that everything returns.

  The interface. WebSocket_Api has the public methods of \<open>WebSocket\<close> and sessions of calls,
  Conversions the conversions into requests and messages. Session puts the crate together:
  what any entry point opens, any session may use, \<open>set_config\<close> included, without leaving the
  reachable connections and without a panic, even where it lowers the limits in the middle of
  a message.
\<close>

section \<open>Parameters and their hypotheses\<close>

text \<open>
  Code outside the repository is an argument of the definitions that use it.
  \<open>flate\<close> (Deflate_Codec) are the compressor and decompressor of \<open>flate2\<close>; \<open>decompress_fits\<close>
  says that a call stays within the room it is given and the input it has, \<open>compress_fits\<close> that
  the compressor adds a bounded amount to its input. \<open>format_view\<close> (Deflate_Roundtrip) is the
  format between them, a function from blocks and a window to text; \<open>format_laws\<close>,
  \<open>compressor_laws\<close> and \<open>decompressor_laws\<close> state what RFC 1951 and \<open>flate2\<close> document of it. \<open>http_lib\<close> (Http) are
  the functions of \<open>http\<close>, \<open>httparse\<close>, \<open>sha1\<close> and \<open>data-encoding\<close>; \<open>header_map_laws\<close>,
  \<open>header_text_laws\<close> and \<open>base64_laws\<close> state what their documentation promises of header maps,
  header values and base64. \<open>from_str\<close> is \<open>HeaderValue::from_str\<close>. \<open>tls_lib\<close> (Tls) are \<open>native_tls\<close>,
  \<open>rustls\<close> and the sources of root certificates, \<open>tls_streams\<close> (Streams) their streams. The
  network of \<open>connect\<close>, the callback of a server and the hash of a \<open>str\<close> are functions. Each property that assumes something of a parameter
  has a witness on a concrete instance (\<open>copying\<close>, \<open>literal_flate\<close>, \<open>sample_http\<close>,
  \<open>transparent_tls\<close>).
\<close>

section \<open>Loops and bounds\<close>

text \<open>
  The loops of the codec, of \<open>read\<close> and of compression are total functions; their measures are
  the bytes and events left in the script of the stream and the bytes an allocation may still
  grow by (\<open>isize_max\<close>). The loop of the handshake is a partial function with the value \<open>None\<close>
  when it does not return, and \<open>handshake_terminates\<close> shows that \<open>None\<close> never occurs. Since a
  world is a finite script, this alone would not rule out a peer that drips bytes for ever:
  \<open>handshake_rounds_bounded\<close> gives a bound on the rounds of a call that is the same for every
  stream, 514 and the bytes that the call sends. Only
  \<open>strip_by\<close>, which trims white space off a text, runs on fuel: the length of the text, which
  is enough because a step takes a byte at least. Redirects are followed as often as the
  argument of \<open>connect_with_config\<close> says, as in the source. The properties of \<open>read_frame\<close> ask that buffer,
  pending input and frame limit together stay below \<open>isize_max\<close> (\<open>in_ok\<close>), since a larger
  reservation panics; a frame limit of \<open>None\<close> is therefore outside of them, and
  \<open>unlimited_frame_panics\<close> shows what it leads to.
\<close>

section \<open>Not modelled\<close>

text \<open>
  \<open>lib.rs\<close> only re-exports. Derived \<open>Debug\<close> output and accessors that return a field are not
  definitions of their own. A TLS session is known by its answers to reads and writes only:
  certificates, keys and records are the libraries'. Log output is left out. The tests
  and the other crates of the repository are not part of the program.
\<close>

end
